(* ===== verification/Prelude.thy ===== *)
theory Prelude
  imports Main
begin

text \<open>
  Shared vocabulary of the development: the result of a Go call that may fail, the
  sequencing of such calls (the source's \<^verbatim>\<open>if err != nil { return err }\<close>), the two
  collections of rewrite rules that the component theories fill, and generic facts
  about lists and sums that several components use.
\<close>

named_theorems go_simps \<open>definitions of the Go standard library and of pure entity code\<close>
named_theorems sql_simps \<open>definitions of the SQL statements and table constraints\<close>

subsection \<open>Calls that return a value or an error\<close>

text \<open>
  A Go function returning \<^verbatim>\<open>(T, error)\<close> is a value of \<open>'e + 'a\<close>: \<open>Inl\<close> the error,
  \<open>Inr\<close> the result. \<open>and_then\<close> continues with the result and passes an error on.
\<close>

primrec and_then :: "'e + 'a \<Rightarrow> ('a \<Rightarrow> 'e + 'b) \<Rightarrow> 'e + 'b" where
  "and_then (Inl e) k = Inl e"
| "and_then (Inr x) k = k x"

primrec map_error :: "('e \<Rightarrow> 'f) \<Rightarrow> 'e + 'a \<Rightarrow> 'f + 'a" where
  "map_error f (Inl e) = Inl (f e)"
| "map_error f (Inr x) = Inr x"

lemma and_then_eq_Inr: "and_then r k = Inr y \<longleftrightarrow> (\<exists>x. r = Inr x \<and> k x = Inr y)"
  by (cases r) auto

lemma and_then_eq_Inl: "and_then r k = Inl e \<longleftrightarrow> r = Inl e \<or> (\<exists>x. r = Inr x \<and> k x = Inl e)"
  by (cases r) auto

lemma map_error_eq_Inr [simp]: "map_error f r = Inr y \<longleftrightarrow> r = Inr y"
  by (cases r) auto

lemma map_error_eq_Inl [simp]: "map_error f r = Inl e \<longleftrightarrow> (\<exists>e'. r = Inl e' \<and> e = f e')"
  by (cases r) auto

lemmas result_simps = and_then_eq_Inr and_then_eq_Inl

text \<open>
  A function that changes a store on its way returns the store also when it fails: \<open>step_in s\<close>
  continues with the result of a step, or ends with its error and the store \<open>s\<close> reached so far.
\<close>

definition step_in :: "'s \<Rightarrow> 'e + 'a \<Rightarrow> ('a \<Rightarrow> 's \<times> ('e + 'b)) \<Rightarrow> 's \<times> ('e + 'b)" where
  "step_in s r k = (case r of Inl e \<Rightarrow> (s, Inl e) | Inr x \<Rightarrow> k x)"

lemma step_in_simps [simp]: "step_in s (Inl e) k = (s, Inl e)" "step_in s (Inr x) k = k x"
  by (simp_all add: step_in_def)

lemma step_in_eq_Inr: "step_in s r k = (s', Inr y) \<longleftrightarrow> (\<exists>x. r = Inr x \<and> k x = (s', Inr y))"
  by (cases r) auto

lemma step_in_error: "snd (step_in s r k) = Inl e \<longleftrightarrow> r = Inl e \<or> (\<exists>x. r = Inr x \<and> snd (k x) = Inl e)"
  by (cases r) auto

subsection \<open>Lists\<close>

lemma filter_key_distinct:
  "distinct (map f xs) \<Longrightarrow> x \<in> set xs \<Longrightarrow> filter (\<lambda>y. f y = f x) xs = [x]"
proof (induction xs)
  case (Cons a xs)
  show ?case
  proof (cases "a = x")
    case True
    with Cons.prems have "filter (\<lambda>y. f y = f x) xs = []"
      by (auto simp: filter_empty_conv image_iff)
    with True show ?thesis by simp
  next
    case False
    with Cons.prems have "x \<in> set xs" and "f a \<noteq> f x"
      by (auto simp: image_iff)
    with Cons show ?thesis by simp
  qed
qed simp

lemma find_key_distinct:
  "distinct (map f xs) \<Longrightarrow> x \<in> set xs \<Longrightarrow> List.find (\<lambda>y. f y = f x) xs = Some x"
  by (induction xs) (auto simp: image_iff)

lemma zip_map_same: "zip (map f xs) (map g xs) = map (\<lambda>x. (f x, g x)) xs"
  by (induction xs) auto

lemma find_map_same_key:
  "(\<And>a. f (g a) = f a) \<Longrightarrow>
   List.find (\<lambda>a. f a = i) (map g xs) = map_option g (List.find (\<lambda>a. f a = i) xs)"
  by (induction xs) auto

lemma find_append: "List.find P (xs @ ys) = (case List.find P xs of None \<Rightarrow> List.find P ys | Some x \<Rightarrow> Some x)"
  by (induction xs) auto

lemma list_ex_key: "list_ex (\<lambda>x. f x = y) xs \<longleftrightarrow> y \<in> f ` set xs"
  by (auto simp: list_ex_iff)

lemma those_eq_Some: "those xs = Some ys \<longleftrightarrow> xs = map Some ys"
proof (induction xs arbitrary: ys)
  case (Cons x xs)
  then show ?case by (cases x; cases ys) (auto split: option.splits)
qed auto

lemma dropWhile_rev_Nil:
  "dropWhile P (rev (dropWhile P xs)) = [] \<longleftrightarrow> (\<forall>x \<in> set xs. P x)"
proof
  assume "dropWhile P (rev (dropWhile P xs)) = []"
  then have dw: "\<forall>x \<in> set (dropWhile P xs). P x"
    by (simp add: dropWhile_eq_Nil_conv)
  have "dropWhile P xs = []"
  proof (rule ccontr)
    assume ne: "dropWhile P xs \<noteq> []"
    then have "\<not> P (hd (dropWhile P xs))" by (rule hd_dropWhile)
    with ne dw show False by simp
  qed
  then show "\<forall>x \<in> set xs. P x" by (simp add: dropWhile_eq_Nil_conv)
next
  assume "\<forall>x \<in> set xs. P x"
  then have "\<forall>x \<in> set (dropWhile P xs). P x" by (auto dest: set_dropWhileD)
  then show "dropWhile P (rev (dropWhile P xs)) = []" by (simp add: dropWhile_eq_Nil_conv)
qed

subsection \<open>Sorting by a given order\<close>

text \<open>
  \<^verbatim>\<open>ORDER BY\<close> under a collation: insertion sort by an arbitrary relation on a key.
\<close>

fun insert_by :: "('k \<Rightarrow> 'k \<Rightarrow> bool) \<Rightarrow> ('a \<Rightarrow> 'k) \<Rightarrow> 'a \<Rightarrow> 'a list \<Rightarrow> 'a list" where
  "insert_by le f x [] = [x]"
| "insert_by le f x (y # ys) =
     (if le (f x) (f y) then x # y # ys else y # insert_by le f x ys)"

definition sort_by :: "('k \<Rightarrow> 'k \<Rightarrow> bool) \<Rightarrow> ('a \<Rightarrow> 'k) \<Rightarrow> 'a list \<Rightarrow> 'a list" where
  "sort_by le f xs = foldr (insert_by le f) xs []"

lemma set_insert_by [simp]: "set (insert_by le f x ys) = insert x (set ys)"
  by (induction ys) auto

lemma sort_by_simps [simp]:
  "sort_by le f [] = []" "sort_by le f (x # xs) = insert_by le f x (sort_by le f xs)"
  by (simp_all add: sort_by_def)

lemma set_sort_by [simp]: "set (sort_by le f xs) = set xs"
  by (induction xs) auto

lemma distinct_map_insert_by [simp]:
  "distinct (map f (insert_by le g x ys)) \<longleftrightarrow> f x \<notin> f ` set ys \<and> distinct (map f ys)"
  by (induction ys) auto

lemma distinct_map_sort_by [simp]:
  "distinct (map f (sort_by le g xs)) \<longleftrightarrow> distinct (map f xs)"
  by (induction xs) auto

lemma length_insert_by [simp]: "length (insert_by le f x ys) = Suc (length ys)"
  by (induction ys) auto

lemma length_sort_by [simp]: "length (sort_by le f xs) = length xs"
  by (induction xs) auto

lemma sorted_wrt_insert_by:
  assumes total: "\<And>a b. le a b \<or> le b a" and trans: "\<And>a b c. le a b \<Longrightarrow> le b c \<Longrightarrow> le a c"
    and sorted: "sorted_wrt le (map f ys)"
  shows "sorted_wrt le (map f (insert_by le f x ys))"
  using sorted
proof (induction ys)
  case (Cons y ys)
  then show ?case
    using total [of "f x" "f y"] by (auto intro: trans)
qed simp

lemma sorted_wrt_sort_by:
  assumes total: "\<And>a b. le a b \<or> le b a" and trans: "\<And>a b c. le a b \<Longrightarrow> le b c \<Longrightarrow> le a c"
  shows "sorted_wrt le (map f (sort_by le f xs))"
  by (induction xs) (auto intro: sorted_wrt_insert_by [OF total trans])

end
