(* ===== verification/Go_Base.thy ===== *)
theory Go_Base
  imports Prelude "HOL-Library.Word" "HOL-Library.Char_ord" "HOL-Library.List_Lexorder"
    "HOL-Library.Sublist"
begin

text \<open>
  The parts of the Go language and its standard library that the program uses: 64-bit
  signed integers, byte strings with \<^verbatim>\<open>strings.TrimSpace\<close> and \<^verbatim>\<open>strings.Trim\<close>, UTF-8
  as \<^verbatim>\<open>unicode/utf8\<close> accepts it, error values with \<^verbatim>\<open>errors.Is\<close>, \<^verbatim>\<open>errors.Join\<close> and
  \<^verbatim>\<open>%w\<close> wrapping, and \<^verbatim>\<open>slices.Sort\<close> with \<^verbatim>\<open>slices.Compact\<close>.
\<close>

subsection \<open>int64\<close>

text \<open>
  An \<^verbatim>\<open>int64\<close> is a 64-bit word, read as two's complement by \<open>sint\<close>; \<open>+\<close>, \<open>-\<close> and
  unary minus wrap around as in Go. Comparisons of the source are comparisons of \<open>sint\<close>.
\<close>

type_synonym i64 = "64 word"

definition MaxInt64 :: i64 where
  "MaxInt64 = 0x7FFFFFFFFFFFFFFF"

lemma sint_MaxInt64 [simp]: "sint MaxInt64 = 2 ^ 63 - 1"
  by (simp add: MaxInt64_def)

lemma sint_i64_bounds: "- (2 ^ 63) \<le> sint (x :: i64)" "sint (x :: i64) \<le> 2 ^ 63 - 1"
  using sint_ge [of x] sint_lt [of x] by simp_all

lemma sint_i64_add:
  "- (2 ^ 63) \<le> sint a + sint b \<Longrightarrow> sint a + sint b < 2 ^ 63 \<Longrightarrow>
   sint (a + b :: i64) = sint a + sint b"
  by (simp add: sint_word_ariths signed_take_bit_int_eq_self)

lemma sint_i64_sub:
  "- (2 ^ 63) \<le> sint a - sint b \<Longrightarrow> sint a - sint b < 2 ^ 63 \<Longrightarrow>
   sint (a - b :: i64) = sint a - sint b"
  by (simp add: sint_word_ariths signed_take_bit_int_eq_self)

lemma sint_i64_minus: "- (2 ^ 63) < sint a \<Longrightarrow> sint (- a :: i64) = - sint a"
  using sint_i64_bounds [of a] by (simp add: sint_word_ariths signed_take_bit_int_eq_self)

text \<open>
  \<^verbatim>\<open>time.Time\<close> and PostgreSQL's \<^verbatim>\<open>timestamptz\<close> are instants; they are only stored, compared
  and subtracted, so an instant is the integer number of nanoseconds since the epoch.
\<close>

type_synonym time = int

subsection \<open>Strings\<close>

text \<open>
  A Go \<^verbatim>\<open>string\<close> is a sequence of bytes, a \<open>char list\<close>; \<^verbatim>\<open>len\<close> is \<open>length\<close>.
  \<open>unicode_spaces\<close> lists the UTF-8 encodings of the code points for which
  \<^verbatim>\<open>unicode.IsSpace\<close> holds. A string starts (ends) with a space rune exactly when one of
  these encodings is a prefix (suffix) of it, so \<^verbatim>\<open>strings.TrimSpace\<close> removes them from
  both ends until none is left.
\<close>

definition unicode_spaces :: "string list" where
  "unicode_spaces =
     [[CHR 0x20], [CHR 0x09], [CHR 0x0A], [CHR 0x0B], [CHR 0x0C], [CHR 0x0D],
      [CHR 0xC2, CHR 0x85], [CHR 0xC2, CHR 0xA0], [CHR 0xE1, CHR 0x9A, CHR 0x80],
      [CHR 0xE2, CHR 0x80, CHR 0x80], [CHR 0xE2, CHR 0x80, CHR 0x81],
      [CHR 0xE2, CHR 0x80, CHR 0x82], [CHR 0xE2, CHR 0x80, CHR 0x83],
      [CHR 0xE2, CHR 0x80, CHR 0x84], [CHR 0xE2, CHR 0x80, CHR 0x85],
      [CHR 0xE2, CHR 0x80, CHR 0x86], [CHR 0xE2, CHR 0x80, CHR 0x87],
      [CHR 0xE2, CHR 0x80, CHR 0x88], [CHR 0xE2, CHR 0x80, CHR 0x89],
      [CHR 0xE2, CHR 0x80, CHR 0x8A], [CHR 0xE2, CHR 0x80, CHR 0xA8],
      [CHR 0xE2, CHR 0x80, CHR 0xA9], [CHR 0xE2, CHR 0x80, CHR 0xAF],
      [CHR 0xE2, CHR 0x81, CHR 0x9F], [CHR 0xE3, CHR 0x80, CHR 0x80]]"

function trim_prefixes :: "string list \<Rightarrow> string \<Rightarrow> string" where
  "trim_prefixes ps s =
     (case List.find (\<lambda>p. p \<noteq> [] \<and> prefix p s) ps of
        None \<Rightarrow> s
      | Some p \<Rightarrow> trim_prefixes ps (drop (length p) s))"
  by pat_completeness auto
termination
proof (relation "measure (\<lambda>(ps, s). length s)")
  fix ps s p
  assume "List.find (\<lambda>p. p \<noteq> [] \<and> prefix p s) ps = Some p"
  then have "p \<noteq> []" and "prefix p s" by (auto simp: find_Some_iff)
  then show "((ps, drop (length p) s), ps, s) \<in> measure (\<lambda>(ps, s). length s)"
    by (cases s) auto
qed simp

declare trim_prefixes.simps [simp del]

definition TrimSpace :: "string \<Rightarrow> string" where
  "TrimSpace s =
     rev (trim_prefixes (map rev unicode_spaces)
       (rev (trim_prefixes unicode_spaces s)))"

text \<open>\<^verbatim>\<open>strings.Trim\<close> with an ASCII cutset works on bytes.\<close>

definition Trim :: "string \<Rightarrow> string \<Rightarrow> string" where
  "Trim s cutset =
     rev (dropWhile (\<lambda>c. c \<in> set cutset) (rev (dropWhile (\<lambda>c. c \<in> set cutset) s)))"

lemma Trim_eq_Nil: "Trim s cutset = [] \<longleftrightarrow> set s \<subseteq> set cutset"
  unfolding Trim_def rev_is_Nil_conv dropWhile_rev_Nil by blast

lemma trim_prefixes_Nil [simp]: "trim_prefixes ps [] = []"
proof -
  have "List.find (\<lambda>p. p \<noteq> [] \<and> prefix p []) ps = None"
    by (auto simp: find_None_iff)
  then show ?thesis by (simp add: trim_prefixes.simps)
qed

lemma TrimSpace_Nil [simp]: "TrimSpace [] = []"
  by (simp add: TrimSpace_def)

lemma trim_prefixes_stop:
  "\<forall>p \<in> set ps. p = [] \<or> \<not> prefix p s \<Longrightarrow> trim_prefixes ps s = s"
  by (subst trim_prefixes.simps) (auto split: option.split simp: find_Some_iff)

lemma trim_prefixes_blank: "trim_prefixes unicode_spaces (replicate n CHR 0x20) = []"
proof (induction n)
  case (Suc n)
  have "List.find (\<lambda>p. p \<noteq> [] \<and> prefix p (replicate (Suc n) CHR 0x20)) unicode_spaces
    = Some [CHR 0x20]"
    by (simp add: unicode_spaces_def)
  then show ?case by (subst trim_prefixes.simps) (simp add: Suc.IH)
qed simp

lemma TrimSpace_blank: "set s \<subseteq> {CHR 0x20} \<Longrightarrow> TrimSpace s = []"
proof -
  assume "set s \<subseteq> {CHR 0x20}"
  then have "s = replicate (length s) CHR 0x20"
    by (intro replicate_eqI) auto
  then obtain n where "s = replicate n CHR 0x20" ..
  then show ?thesis by (simp add: TrimSpace_def trim_prefixes_blank)
qed

text \<open>What is left after trimming does not start or end with a space, so trimming again does nothing.\<close>

lemma trim_prefixes_fixed: "List.find (\<lambda>p. p \<noteq> [] \<and> prefix p (trim_prefixes ps s)) ps = None"
proof (induction ps s rule: trim_prefixes.induct)
  case (1 ps s)
  show ?case
  proof (cases "List.find (\<lambda>p. p \<noteq> [] \<and> prefix p s) ps")
    case None
    then show ?thesis by (simp add: trim_prefixes.simps [of ps s])
  next
    case (Some p)
    with "1.IH" [OF Some] show ?thesis by (simp add: trim_prefixes.simps [of ps s])
  qed
qed

lemma trim_prefixes_id: "List.find (\<lambda>p. p \<noteq> [] \<and> prefix p s) ps = None \<Longrightarrow> trim_prefixes ps s = s"
  by (simp add: trim_prefixes.simps)

lemma trim_prefixes_suffix: "suffix (trim_prefixes ps s) s"
proof (induction ps s rule: trim_prefixes.induct)
  case (1 ps s)
  show ?case
  proof (cases "List.find (\<lambda>p. p \<noteq> [] \<and> prefix p s) ps")
    case None
    then show ?thesis by (simp add: trim_prefixes.simps [of ps s])
  next
    case (Some p)
    with "1.IH" [OF Some] show ?thesis
      by (simp add: trim_prefixes.simps [of ps s]) (metis suffix_drop suffix_order.trans)
  qed
qed

lemma TrimSpace_idem [simp]: "TrimSpace (TrimSpace s) = TrimSpace s"
proof -
  define l where "l = trim_prefixes unicode_spaces s"
  define t where "t = trim_prefixes (map rev unicode_spaces) (rev l)"
  have "prefix (rev t) l"
    using trim_prefixes_suffix [of "map rev unicode_spaces" "rev l"] by (simp add: t_def suffix_to_prefix)
  then have "List.find (\<lambda>p. p \<noteq> [] \<and> prefix p (rev t)) unicode_spaces = None"
    using trim_prefixes_fixed [of unicode_spaces s] unfolding find_None_iff l_def [symmetric]
    by (meson prefix_order.trans)
  then have "trim_prefixes unicode_spaces (rev t) = rev t" by (rule trim_prefixes_id)
  moreover have "trim_prefixes (map rev unicode_spaces) t = t"
    unfolding t_def by (rule trim_prefixes_id) (rule trim_prefixes_fixed)
  ultimately show ?thesis by (simp add: TrimSpace_def l_def [symmetric] t_def [symmetric])
qed

subsection \<open>UTF-8\<close>

text \<open>
  \<open>utf8_size s\<close> is the length of the encoding at the head of \<open>s\<close> that
  \<^verbatim>\<open>utf8.DecodeRuneInString\<close> accepts, 0 when the head is not a valid encoding.
\<close>

definition byte_in :: "nat \<Rightarrow> nat \<Rightarrow> char \<Rightarrow> bool" where
  "byte_in lo hi c \<longleftrightarrow> lo \<le> of_char c \<and> of_char c \<le> hi"

definition utf8_two :: "char \<Rightarrow> char \<Rightarrow> bool" where
  "utf8_two a b \<longleftrightarrow> byte_in 0xC2 0xDF a \<and> byte_in 0x80 0xBF b"

definition utf8_three :: "char \<Rightarrow> char \<Rightarrow> char \<Rightarrow> bool" where
  "utf8_three a b c \<longleftrightarrow>
     byte_in 0x80 0xBF c \<and>
     (byte_in 0xE0 0xE0 a \<and> byte_in 0xA0 0xBF b \<or> byte_in 0xE1 0xEC a \<and> byte_in 0x80 0xBF b \<or>
      byte_in 0xED 0xED a \<and> byte_in 0x80 0x9F b \<or> byte_in 0xEE 0xEF a \<and> byte_in 0x80 0xBF b)"

definition utf8_four :: "char \<Rightarrow> char \<Rightarrow> char \<Rightarrow> char \<Rightarrow> bool" where
  "utf8_four a b c d \<longleftrightarrow>
     byte_in 0x80 0xBF c \<and> byte_in 0x80 0xBF d \<and>
     (byte_in 0xF0 0xF0 a \<and> byte_in 0x90 0xBF b \<or> byte_in 0xF1 0xF3 a \<and> byte_in 0x80 0xBF b \<or>
      byte_in 0xF4 0xF4 a \<and> byte_in 0x80 0x8F b)"

fun utf8_size :: "string \<Rightarrow> nat" where
  "utf8_size [] = 0"
| "utf8_size (a # r) =
     (if byte_in 0 0x7F a then 1
      else case r of
        [] \<Rightarrow> 0
      | b # r2 \<Rightarrow>
          if utf8_two a b then 2
          else (case r2 of
            [] \<Rightarrow> 0
          | c # r3 \<Rightarrow>
              if utf8_three a b c then 3
              else (case r3 of [] \<Rightarrow> 0 | d # _ \<Rightarrow> if utf8_four a b c d then 4 else 0)))"

lemma utf8_size_cases:
  assumes "utf8_size s \<noteq> 0"
  obtains (one) a r where "s = a # r" "byte_in 0 0x7F a" "utf8_size s = 1"
    | (two) a b r where "s = a # b # r" "\<not> byte_in 0 0x7F a" "utf8_two a b" "utf8_size s = 2"
    | (three) a b c r where "s = a # b # c # r" "\<not> byte_in 0 0x7F a" "\<not> utf8_two a b"
        "utf8_three a b c" "utf8_size s = 3"
    | (four) a b c d r where "s = a # b # c # d # r" "\<not> byte_in 0 0x7F a" "\<not> utf8_two a b"
        "\<not> utf8_three a b c" "utf8_four a b c d" "utf8_size s = 4"
  using assms by (cases s) (auto split: if_splits list.splits)

lemma utf8_size_take: "utf8_size s \<noteq> 0 \<Longrightarrow> utf8_size (take (utf8_size s) s @ rest) = utf8_size s"
  by (erule utf8_size_cases) simp_all

lemma utf8_continuation:
  "utf8_two a b \<Longrightarrow> 0x80 \<le> (of_char b :: nat)"
  "utf8_three a b c \<Longrightarrow> 0x80 \<le> (of_char b :: nat) \<and> 0x80 \<le> (of_char c :: nat)"
  "utf8_four a b c d \<Longrightarrow>
    0x80 \<le> (of_char b :: nat) \<and> 0x80 \<le> (of_char c :: nat) \<and> 0x80 \<le> (of_char d :: nat)"
  unfolding utf8_two_def utf8_three_def utf8_four_def byte_in_def by linarith+

lemma utf8_size_bytes:
  assumes "1 < utf8_size s"
  shows "list_all (\<lambda>c. 0x80 \<le> (of_char c :: nat)) (take (utf8_size s) s)"
proof -
  have lead: "0x80 \<le> (of_char a :: nat)" if "\<not> byte_in 0 0x7F a" for a
    using that unfolding byte_in_def by linarith
  from assms have "utf8_size s \<noteq> 0" by simp
  then show ?thesis
    by (cases rule: utf8_size_cases) (use assms lead utf8_continuation in \<open>simp_all\<close>)
qed

lemma utf8_size_le: "utf8_size s \<le> length s"
proof (cases "utf8_size s = 0")
  case False
  then show ?thesis by (cases rule: utf8_size_cases) auto
qed simp

declare utf8_size.simps [simp del]

text \<open>
  \<open>utf8_valid\<close> is \<^verbatim>\<open>utf8.ValidString\<close>; \<open>to_valid_utf8\<close> is what \<^verbatim>\<open>encoding/json\<close> does to
  a string before it writes it: each offending byte becomes U+FFFD.
\<close>

function utf8_valid :: "string \<Rightarrow> bool" where
  "utf8_valid s =
     (if s = [] then True
      else if utf8_size s = 0 then False
      else utf8_valid (drop (utf8_size s) s))"
  by pat_completeness auto
termination
  by (relation "measure length") auto

function to_valid_utf8 :: "string \<Rightarrow> string" where
  "to_valid_utf8 s =
     (if s = [] then []
      else if utf8_size s = 0
      then [CHR 0xEF, CHR 0xBF, CHR 0xBD] @ to_valid_utf8 (tl s)
      else take (utf8_size s) s @ to_valid_utf8 (drop (utf8_size s) s))"
  by pat_completeness auto
termination
  by (relation "measure length") auto

declare utf8_valid.simps [simp del] to_valid_utf8.simps [simp del]

lemma to_valid_utf8_id: "utf8_valid s \<Longrightarrow> to_valid_utf8 s = s"
proof (induction s rule: utf8_valid.induct)
  case (1 s)
  show ?case
  proof (cases "s = []")
    case True
    then show ?thesis by (simp add: to_valid_utf8.simps)
  next
    case False
    with "1.prems" have sz: "utf8_size s \<noteq> 0" and "utf8_valid (drop (utf8_size s) s)"
      by (auto simp: utf8_valid.simps [of s] split: if_splits)
    with False "1.IH" have "to_valid_utf8 (drop (utf8_size s) s) = drop (utf8_size s) s"
      by simp
    with False sz show ?thesis by (simp add: to_valid_utf8.simps [of s])
  qed
qed

subsection \<open>Errors\<close>

text \<open>
  The package-level sentinel errors of the program, and the ways errors are built:
  \<open>ErrorsNew\<close> for an anonymous \<^verbatim>\<open>errors.New\<close>, \<open>Wrapped\<close> for \<^verbatim>\<open>fmt.Errorf("...: %w", err)\<close>,
  \<open>Joined\<close> for \<^verbatim>\<open>errors.Join\<close>, and \<open>DbError\<close> for an error of the database driver
  (\<^verbatim>\<open>pgx.ErrNoRows\<close> apart); \<^verbatim>\<open>migrate.ErrNoChange\<close> and \<^verbatim>\<open>http.ErrServerClosed\<close> are the other library
  sentinels that are compared with. Both not-found sentinels of the services and the one of the
  repository contracts are different values.
\<close>

datatype go_error =
    ErrInvalidAmount
  | ErrInsufficientFunds
  | ErrBalanceOverflow
  | ErrInvalidTransfer
  | ErrIdempotencyConflict
  | ErrNotFound
  | ErrForbidden
  | ErrDestinationNotFound
  | ErrCurrencyMismatch
  | ErrTransferNotFound
  | ErrAccountNotFound
  | ErrInvalidCredentials
  | ErrInvalidToken
  | ErrNoRows
  | ErrNoChange
  | ErrServerClosed
  | DbError string
  | ErrorsNew string
  | Wrapped string go_error
  | Joined "go_error list"

fun errors_Is :: "go_error \<Rightarrow> go_error \<Rightarrow> bool" where
  "errors_Is (Wrapped m e) target \<longleftrightarrow> Wrapped m e = target \<or> errors_Is e target"
| "errors_Is (Joined es) target \<longleftrightarrow> Joined es = target \<or> list_ex (\<lambda>e. errors_Is e target) es"
| "errors_Is e target \<longleftrightarrow> e = target"

subsection \<open>Slices\<close>

text \<open>
  \<^verbatim>\<open>slices.Sort\<close> orders strings byte by byte, which is the lexicographic order of
  \<open>char list\<close>; \<^verbatim>\<open>slices.Compact\<close> drops adjacent duplicates.
\<close>

definition slices_Sort :: "string list \<Rightarrow> string list" where
  "slices_Sort xs = sort xs"

definition slices_Compact :: "string list \<Rightarrow> string list" where
  "slices_Compact xs = remdups_adj xs"

lemma set_slices_Sort [simp]: "set (slices_Sort xs) = set xs"
  by (simp add: slices_Sort_def)

lemma set_slices_Compact [simp]: "set (slices_Compact xs) = set xs"
  by (simp add: slices_Compact_def)

lemma distinct_remdups_adj_sorted: "sorted xs \<Longrightarrow> distinct (remdups_adj xs)"
  for xs :: "string list"
proof (induction xs rule: remdups_adj.induct)
  case (3 x y xs)
  show ?case
  proof (cases "x = y")
    case True
    with "3" show ?thesis by simp
  next
    case False
    with "3.prems" have "x \<notin> set (y # xs)" by auto
    with False "3" show ?thesis by simp
  qed
qed simp_all

lemma compact_sort_sorted_distinct:
  "sorted (slices_Compact (slices_Sort xs)) \<and> distinct (slices_Compact (slices_Sort xs))"
  by (simp add: slices_Sort_def slices_Compact_def distinct_remdups_adj_sorted)

declare Trim_def [go_simps] slices_Sort_def [go_simps] slices_Compact_def [go_simps]

end
