(* ===== verification/Entities.thy ===== *)
theory Entities
  imports Go_Base
begin

text \<open>
  \<^verbatim>\<open>internal/domain/entities\<close> and \<^verbatim>\<open>internal/domain/valueobjects\<close>: accounts with
  \<open>Debit\<close> and \<open>Credit\<close>, the transfer request with its validation, stored transfers, ledger
  entries and users. Money is an \<open>i64\<close>; the lemmas show when the 64-bit operations agree
  with integer arithmetic, and that validation accepts exactly the well-formed requests.
\<close>

subsection \<open>Value objects\<close>

text \<open>
  \<^verbatim>\<open>TransferStatus\<close> and \<^verbatim>\<open>FailureReason\<close> are Go string types with named constants, and the
  database stores their text.
\<close>

type_synonym transfer_status = string
type_synonym failure_reason = string

definition TransferStatusPending :: transfer_status where
  "TransferStatusPending = ''pending''"

definition TransferStatusProcessing :: transfer_status where
  "TransferStatusProcessing = ''processing''"

definition TransferStatusCompleted :: transfer_status where
  "TransferStatusCompleted = ''completed''"

definition TransferStatusFailed :: transfer_status where
  "TransferStatusFailed = ''failed''"

definition TransferStatusCancelled :: transfer_status where
  "TransferStatusCancelled = ''cancelled''"

definition FailureReasonNone :: failure_reason where
  "FailureReasonNone = ''''"

definition FailureReasonInsufficientFunds :: failure_reason where
  "FailureReasonInsufficientFunds = ''insufficient_funds''"

lemmas status_defs = TransferStatusPending_def TransferStatusProcessing_def
  TransferStatusCompleted_def TransferStatusFailed_def TransferStatusCancelled_def
  FailureReasonNone_def FailureReasonInsufficientFunds_def

lemma completed_not_failed [simp]:
  "TransferStatusCompleted \<noteq> TransferStatusFailed"
  "TransferStatusFailed \<noteq> TransferStatusCompleted"
  by (simp_all add: status_defs)

subsection \<open>Data\<close>

text \<open>A UUID is 16 bytes.\<close>

type_synonym uuid = "128 word"

record account =
  acc_id :: string
  acc_user_id :: string
  acc_currency :: string
  acc_balance :: i64
  acc_created_at :: time
  acc_updated_at :: time

record create_transfer =
  req_from_account_id :: string
  req_to_account_id :: string
  req_amount :: i64
  req_currency :: string
  req_description :: string

record transfer =
  tr_id :: string
  tr_idempotency_key :: string
  tr_from_account_id :: string
  tr_to_account_id :: string
  tr_amount :: i64
  tr_currency :: string
  tr_description :: string
  tr_status :: transfer_status
  tr_failure_reason :: failure_reason
  tr_created_at :: time
  tr_updated_at :: time

record ledger_entry =
  le_transfer_id :: string
  le_account_id :: string
  le_amount :: i64
  le_balance_after :: i64

record user =
  usr_id :: string
  usr_email :: string
  usr_password_hash :: string
  usr_permissions :: "string list"

subsection \<open>Account\<close>

text \<open>
  The methods have a pointer receiver and change the balance in place; here they return
  the changed account. On an error the account is left as it was.
\<close>

definition Debit :: "account \<Rightarrow> i64 \<Rightarrow> go_error + account" where
  "Debit a amount =
     (if sint amount \<le> 0 then Inl ErrInvalidAmount
      else if sint (acc_balance a) < sint amount then Inl ErrInsufficientFunds
      else Inr (a\<lparr>acc_balance := acc_balance a - amount\<rparr>))"

definition Credit :: "account \<Rightarrow> i64 \<Rightarrow> go_error + account" where
  "Credit a amount =
     (if sint amount \<le> 0 then Inl ErrInvalidAmount
      else if sint (acc_balance a) > sint (MaxInt64 - amount) then Inl ErrBalanceOverflow
      else Inr (a\<lparr>acc_balance := acc_balance a + amount\<rparr>))"

lemma sint_MaxInt64_minus: "0 < sint amount \<Longrightarrow> sint (MaxInt64 - amount) = 2 ^ 63 - 1 - sint amount"
  using sint_i64_bounds [of amount] by (subst sint_i64_sub) simp_all

lemma sint_debit:
  "0 < sint amount \<Longrightarrow> sint amount \<le> sint balance \<Longrightarrow>
   sint (balance - amount :: i64) = sint balance - sint amount"
  using sint_i64_bounds [of balance] by (intro sint_i64_sub) simp_all

lemma sint_credit:
  "0 < sint amount \<Longrightarrow> sint balance \<le> 2 ^ 63 - 1 - sint amount \<Longrightarrow>
   sint (balance + amount :: i64) = sint balance + sint amount"
  using sint_i64_bounds [of balance] by (intro sint_i64_add) simp_all

lemma Debit_eq_Inr:
  "Debit a amount = Inr a' \<longleftrightarrow>
   0 < sint amount \<and> sint amount \<le> sint (acc_balance a) \<and>
   a' = a\<lparr>acc_balance := acc_balance a - amount\<rparr>"
  by (auto simp: Debit_def)

lemma Credit_eq_Inr:
  "Credit a amount = Inr a' \<longleftrightarrow>
   0 < sint amount \<and> sint (acc_balance a) \<le> 2 ^ 63 - 1 - sint amount \<and>
   a' = a\<lparr>acc_balance := acc_balance a + amount\<rparr>"
  by (auto simp: Credit_def sint_MaxInt64_minus)

lemma Debit_eq_Inl:
  "Debit a amount = Inl e \<longleftrightarrow>
   (sint amount \<le> 0 \<and> e = ErrInvalidAmount) \<or>
   (0 < sint amount \<and> sint (acc_balance a) < sint amount \<and> e = ErrInsufficientFunds)"
  by (auto simp: Debit_def)

lemma Credit_eq_Inl:
  "Credit a amount = Inl e \<longleftrightarrow>
   (sint amount \<le> 0 \<and> e = ErrInvalidAmount) \<or>
   (0 < sint amount \<and> 2 ^ 63 - 1 - sint amount < sint (acc_balance a) \<and> e = ErrBalanceOverflow)"
  by (auto simp: Credit_def sint_MaxInt64_minus)

lemmas money_cases = Debit_eq_Inr Debit_eq_Inl Credit_eq_Inr Credit_eq_Inl

subsection \<open>Transfer requests\<close>

definition uppercase_letters :: string where
  "uppercase_letters = ''ABCDEFGHIJKLMNOPQRSTUVWXYZ''"

definition CreateTransfer_Validate :: "create_transfer \<Rightarrow> go_error + unit" where
  "CreateTransfer_Validate r =
     (if TrimSpace (req_from_account_id r) = '''' \<or> TrimSpace (req_to_account_id r) = '''' then
        Inl (Joined [ErrInvalidTransfer, ErrorsNew ''both accounts are required''])
      else if req_from_account_id r = req_to_account_id r then
        Inl (Joined [ErrInvalidTransfer, ErrorsNew ''source and destination must differ''])
      else if sint (req_amount r) \<le> 0 then
        Inl (Joined [ErrInvalidTransfer, ErrInvalidAmount])
      else if length (req_currency r) \<noteq> 3 \<or> Trim (req_currency r) uppercase_letters \<noteq> '''' then
        Inl (Joined [ErrInvalidTransfer, ErrorsNew ''currency must be a three-letter ISO code''])
      else if length (req_description r) > 255 then
        Inl (Joined [ErrInvalidTransfer, ErrorsNew ''description is limited to 255 characters''])
      else Inr ())"

text \<open>What a valid request is, without the order of the checks and without \<^verbatim>\<open>Trim\<close>.\<close>

definition iso_currency :: "string \<Rightarrow> bool" where
  "iso_currency c \<longleftrightarrow> length c = 3 \<and> list_all (\<lambda>x. x \<in> set uppercase_letters) c"

definition valid_request :: "create_transfer \<Rightarrow> bool" where
  "valid_request r \<longleftrightarrow>
     TrimSpace (req_from_account_id r) \<noteq> '''' \<and> TrimSpace (req_to_account_id r) \<noteq> '''' \<and>
     req_from_account_id r \<noteq> req_to_account_id r \<and> 0 < sint (req_amount r) \<and>
     iso_currency (req_currency r) \<and> length (req_description r) \<le> 255"

lemma currency_check: "length c = 3 \<and> Trim c uppercase_letters = '''' \<longleftrightarrow> iso_currency c"
  by (auto simp: iso_currency_def Trim_eq_Nil list_all_iff)

lemma Validate_Inr_iff: "CreateTransfer_Validate r = Inr () \<longleftrightarrow> valid_request r"
  using currency_check [of "req_currency r"]
  by (auto simp: CreateTransfer_Validate_def valid_request_def not_le)

lemma Validate_Inl_is_invalid:
  "CreateTransfer_Validate r = Inl e \<Longrightarrow> errors_Is e ErrInvalidTransfer"
  by (auto simp: CreateTransfer_Validate_def split: if_splits)

lemma Validate_Inl: "\<not> valid_request r \<Longrightarrow> \<exists>e. CreateTransfer_Validate r = Inl e"
  using Validate_Inr_iff [of r] by (cases "CreateTransfer_Validate r") auto

lemma valid_requestD:
  assumes "valid_request r"
  shows "req_from_account_id r \<noteq> req_to_account_id r" "0 < sint (req_amount r)"
    "iso_currency (req_currency r)"
  using assms by (simp_all add: valid_request_def)

end
