(* ===== verification/Bank_Spec.thy ===== *)
theory Bank_Spec
  imports Entities
begin

text \<open>
  The abstract specification of the transfer service: a bank is a map of accounts, a map of
  stored transfers by (user, idempotency key) and a double-entry ledger. \<open>bank_step\<close> says
  what one accepted request may do to it: move money once, record a declined transfer, or
  answer a retry from the store. The invariants of this machine (money is conserved per
  currency, balances stay non-negative, the ledger explains every balance, each completed
  transfer has exactly one balanced pair of entries) are proved here by case analysis on the
  step and by induction over runs; the service is shown to implement the machine in
  \<^verbatim>\<open>Transfer_Service\<close>.
\<close>

type_synonym transfer_key = "string \<times> uuid"
type_synonym stored_transfer = "transfer \<times> create_transfer"

record bank =
  bk_accounts :: "string \<rightharpoonup> account"
  bk_transfers :: "transfer_key \<rightharpoonup> stored_transfer"
  bk_ledger :: "ledger_entry list"

datatype outcome = Moved transfer | Declined transfer | Replayed transfer

fun outcome_transfer :: "outcome \<Rightarrow> transfer" where
  "outcome_transfer (Moved tr) = tr"
| "outcome_transfer (Declined tr) = tr"
| "outcome_transfer (Replayed tr) = tr"

fun outcome_created :: "outcome \<Rightarrow> bool" where
  "outcome_created (Replayed tr) = False"
| "outcome_created _ = True"

text \<open>A stored transfer repeats the request and carries the outcome that was decided.\<close>

definition records ::
  "create_transfer \<Rightarrow> transfer_status \<Rightarrow> failure_reason \<Rightarrow> transfer \<Rightarrow> bool" where
  "records r st reason tr \<longleftrightarrow>
     tr_from_account_id tr = req_from_account_id r \<and> tr_to_account_id tr = req_to_account_id r \<and>
     tr_amount tr = req_amount r \<and> tr_currency tr = req_currency r \<and>
     tr_description tr = req_description r \<and> tr_status tr = st \<and> tr_failure_reason tr = reason"

definition transfer_ids :: "bank \<Rightarrow> string set" where
  "transfer_ids b = (tr_id \<circ> fst) ` ran (bk_transfers b)"

text \<open>The rules that are checked against the two accounts before any money is considered.\<close>

definition admissible :: "string \<Rightarrow> create_transfer \<Rightarrow> bank \<Rightarrow> account \<Rightarrow> account \<Rightarrow> bool" where
  "admissible u r b src dst \<longleftrightarrow>
     valid_request r \<and>
     bk_accounts b (req_from_account_id r) = Some src \<and> acc_user_id src = u \<and>
     bk_accounts b (req_to_account_id r) = Some dst \<and>
     acc_currency src = req_currency r \<and> acc_currency dst = req_currency r"

definition ledger_pair :: "create_transfer \<Rightarrow> transfer \<Rightarrow> account \<Rightarrow> account \<Rightarrow> ledger_entry list" where
  "ledger_pair r tr src' dst' =
     [\<lparr>le_transfer_id = tr_id tr, le_account_id = req_from_account_id r,
       le_amount = - req_amount r, le_balance_after = acc_balance src'\<rparr>,
      \<lparr>le_transfer_id = tr_id tr, le_account_id = req_to_account_id r,
       le_amount = req_amount r, le_balance_after = acc_balance dst'\<rparr>]"

inductive bank_step ::
  "string \<Rightarrow> uuid \<Rightarrow> create_transfer \<Rightarrow> bank \<Rightarrow> outcome \<Rightarrow> bank \<Rightarrow> bool" where
  moved:
    "admissible u r b src dst \<Longrightarrow>
     Debit src (req_amount r) = Inr src' \<Longrightarrow> Credit dst (req_amount r) = Inr dst' \<Longrightarrow>
     bk_transfers b (u, k) = None \<Longrightarrow> tr_id tr \<notin> transfer_ids b \<Longrightarrow>
     records r TransferStatusCompleted FailureReasonNone tr \<Longrightarrow>
     b' = \<lparr>bk_accounts = (bk_accounts b)
              (req_from_account_id r \<mapsto> src'\<lparr>acc_updated_at := t\<rparr>,
               req_to_account_id r \<mapsto> dst'\<lparr>acc_updated_at := t\<rparr>),
           bk_transfers = (bk_transfers b)((u, k) \<mapsto> (tr, r)),
           bk_ledger = bk_ledger b @ ledger_pair r tr src' dst'\<rparr> \<Longrightarrow>
     bank_step u k r b (Moved tr) b'"
| declined:
    "admissible u r b src dst \<Longrightarrow>
     Debit src (req_amount r) = Inl ErrInsufficientFunds \<Longrightarrow>
     bk_transfers b (u, k) = None \<Longrightarrow> tr_id tr \<notin> transfer_ids b \<Longrightarrow>
     records r TransferStatusFailed FailureReasonInsufficientFunds tr \<Longrightarrow>
     b' = b\<lparr>bk_transfers := (bk_transfers b)((u, k) \<mapsto> (tr, r))\<rparr> \<Longrightarrow>
     bank_step u k r b (Declined tr) b'"
| replayed:
    "admissible u r b src dst \<Longrightarrow> bk_transfers b (u, k) = Some (tr, r) \<Longrightarrow>
     bank_step u k r b (Replayed tr) b"

inductive_cases moved_cases: "bank_step u k r b (Moved tr) b'"
inductive_cases declined_cases: "bank_step u k r b (Declined tr) b'"
inductive_cases replayed_cases: "bank_step u k r b (Replayed tr) b'"

text \<open>A run of the machine is a finite sequence of steps by any users.\<close>

inductive bank_run :: "bank \<Rightarrow> bank \<Rightarrow> bool" where
  run_refl: "bank_run b b"
| run_step: "bank_run b b' \<Longrightarrow> bank_step u k r b' oc b'' \<Longrightarrow> bank_run b b''"

lemma bank_run_trans: "bank_run b' b'' \<Longrightarrow> bank_run b b' \<Longrightarrow> bank_run b b''"
  by (induction rule: bank_run.induct) (auto intro: bank_run.intros)

subsection \<open>Measures of a bank\<close>

definition currency_total :: "string \<Rightarrow> bank \<Rightarrow> int" where
  "currency_total c b =
     (\<Sum>i \<in> {i. \<exists>a. bk_accounts b i = Some a \<and> acc_currency a = c}.
        sint (acc_balance (the (bk_accounts b i))))"

definition ledger_sum :: "string \<Rightarrow> ledger_entry list \<Rightarrow> int" where
  "ledger_sum i es = (\<Sum>e \<leftarrow> filter (\<lambda>e. le_account_id e = i) es. sint (le_amount e))"

definition entries_of :: "string \<Rightarrow> ledger_entry list \<Rightarrow> ledger_entry list" where
  "entries_of tid es = filter (\<lambda>e. le_transfer_id e = tid) es"

lemma ledger_sum_append [simp]: "ledger_sum i (es @ fs) = ledger_sum i es + ledger_sum i fs"
  by (simp add: ledger_sum_def)

lemma entries_of_append [simp]: "entries_of t (es @ fs) = entries_of t es @ entries_of t fs"
  by (simp add: entries_of_def)

lemma ledger_sum_pair:
  assumes "valid_request r"
  shows "ledger_sum i (ledger_pair r tr src' dst') =
    (if i = req_from_account_id r then - sint (req_amount r)
     else if i = req_to_account_id r then sint (req_amount r) else 0)"
proof -
  have "sint (- req_amount r) = - sint (req_amount r)"
    using valid_requestD(2) [OF assms] by (intro sint_i64_minus) simp
  with valid_requestD(1) [OF assms] show ?thesis
    by (simp add: ledger_sum_def ledger_pair_def)
qed

lemma entries_of_pair:
  "entries_of t (ledger_pair r tr src' dst') =
    (if t = tr_id tr then ledger_pair r tr src' dst' else [])"
  by (auto simp: entries_of_def ledger_pair_def)

subsection \<open>Effect of a step\<close>

lemma moved_balances:
  assumes "Debit src amt = Inr src'" and "Credit dst amt = Inr dst'"
  shows "sint (acc_balance src') = sint (acc_balance src) - sint amt"
    "sint (acc_balance dst') = sint (acc_balance dst) + sint amt"
    "acc_currency src' = acc_currency src" "acc_currency dst' = acc_currency dst"
    "acc_user_id src' = acc_user_id src" "acc_user_id dst' = acc_user_id dst"
    "acc_id src' = acc_id src" "acc_id dst' = acc_id dst"
    "0 \<le> sint (acc_balance src')"
  using assms by (auto simp: money_cases sint_debit sint_credit)

text \<open>
  What a step does to one account, whichever the step is: its identity, owner and currency
  stay, its balance changes by exactly what the ledger gained for it.
\<close>

lemma bank_step_account:
  assumes "bank_step u k r b oc b'"
  shows "case bk_accounts b i of
      None \<Rightarrow> bk_accounts b' i = None
    | Some a \<Rightarrow> (\<exists>a'. bk_accounts b' i = Some a' \<and> acc_currency a' = acc_currency a \<and>
        acc_user_id a' = acc_user_id a \<and> acc_id a' = acc_id a \<and>
        sint (acc_balance a') - sint (acc_balance a) =
          ledger_sum i (bk_ledger b') - ledger_sum i (bk_ledger b))"
  using assms
proof cases
  case (moved src dst src' dst' tr t)
  note m = moved_balances [OF moved(3,4)]
  have v: "valid_request r" and s: "bk_accounts b (req_from_account_id r) = Some src"
    and d: "bk_accounts b (req_to_account_id r) = Some dst"
    using moved(2) by (auto simp: admissible_def)
  show ?thesis
    using valid_requestD(1) [OF v] s d m
    by (auto simp: moved(8) ledger_sum_pair [OF v] split: option.split)
qed (auto split: option.split)

lemma bank_step_accountE:
  assumes "bank_step u k r b oc b'" and "bk_accounts b i = Some a"
  obtains a' where "bk_accounts b' i = Some a'" "acc_currency a' = acc_currency a"
    "acc_user_id a' = acc_user_id a" "acc_id a' = acc_id a"
    "sint (acc_balance a') - sint (acc_balance a) =
      ledger_sum i (bk_ledger b') - ledger_sum i (bk_ledger b)"
  using bank_step_account [OF assms(1), of i] assms(2) by auto

lemma bank_step_dom: "bank_step u k r b oc b' \<Longrightarrow> dom (bk_accounts b') = dom (bk_accounts b)"
proof (rule set_eqI)
  fix i
  assume "bank_step u k r b oc b'"
  from bank_step_account [OF this, of i]
  show "i \<in> dom (bk_accounts b') \<longleftrightarrow> i \<in> dom (bk_accounts b)"
    by (auto split: option.splits)
qed

text \<open>Stored transfers are never changed or removed: the store only grows.\<close>

lemma bank_step_transfers_mono: "bank_step u k r b oc b' \<Longrightarrow> bk_transfers b \<subseteq>\<^sub>m bk_transfers b'"
  by (cases rule: bank_step.cases) (auto simp: map_le_def)

lemma bank_run_transfers_mono: "bank_run b b' \<Longrightarrow> bk_transfers b \<subseteq>\<^sub>m bk_transfers b'"
proof (induction rule: bank_run.induct)
  case (run_step b b' u k r oc b'')
  then show ?case by (blast intro: map_le_trans bank_step_transfers_mono)
qed simp

lemma bank_step_stored:
  "bank_step u k r b oc b' \<Longrightarrow>
   bk_transfers b' (u, k) = Some (outcome_transfer oc, r) \<and>
   (outcome_created oc \<longleftrightarrow> bk_transfers b (u, k) = None)"
  by (cases rule: bank_step.cases) auto

lemma bank_step_same_key:
  "bank_step u k r' b oc b' \<Longrightarrow> bk_transfers b (u, k) = Some (tr, r) \<Longrightarrow>
   b' = b \<and> r' = r \<and> oc = Replayed tr"
  by (cases rule: bank_step.cases) auto

subsection \<open>Ledger reconciliation\<close>

lemma bank_run_reconciles:
  assumes "bank_run b b'" and "bk_accounts b i = Some a"
  shows "\<exists>a'. bk_accounts b' i = Some a' \<and> acc_currency a' = acc_currency a \<and>
    acc_user_id a' = acc_user_id a \<and>
    sint (acc_balance a') =
      sint (acc_balance a) + ledger_sum i (bk_ledger b') - ledger_sum i (bk_ledger b)"
  using assms
proof (induction rule: bank_run.induct)
  case (run_step b b' u k r oc b'')
  then obtain a' where a': "bk_accounts b' i = Some a'" "acc_currency a' = acc_currency a"
    "acc_user_id a' = acc_user_id a"
    "sint (acc_balance a') =
      sint (acc_balance a) + ledger_sum i (bk_ledger b') - ledger_sum i (bk_ledger b)"
    by blast
  from run_step.hyps(2) a'(1) show ?case
    by (rule bank_step_accountE) (use a' in simp)
qed simp

lemma bank_run_dom: "bank_run b b' \<Longrightarrow> dom (bk_accounts b') = dom (bk_accounts b)"
  by (induction rule: bank_run.induct) (simp_all add: bank_step_dom)

subsection \<open>Conservation\<close>

definition currency_accounts :: "string \<Rightarrow> bank \<Rightarrow> string set" where
  "currency_accounts c b = {i. \<exists>a. bk_accounts b i = Some a \<and> acc_currency a = c}"

lemma currency_accounts_step:
  assumes "bank_step u k r b oc b'"
  shows "currency_accounts c b' = currency_accounts c b"
proof (rule set_eqI)
  fix i
  from bank_step_account [OF assms, of i]
  show "i \<in> currency_accounts c b' \<longleftrightarrow> i \<in> currency_accounts c b"
    by (auto simp: currency_accounts_def split: option.splits)
qed

lemma sum_pair_zero:
  fixes f :: "'a \<Rightarrow> int"
  assumes "finite A" and "x \<noteq> y" and "x \<in> A \<longleftrightarrow> y \<in> A"
    and "\<And>i. f i = (if i = x then - n else if i = y then n else 0)"
  shows "sum f A = 0"
proof -
  have "sum f A = (\<Sum>i\<in>A. (if i = x then - n else 0) + (if i = y then n else 0))"
    using assms(2,4) by (intro sum.cong) auto
  then show ?thesis using assms(1,3) by (simp add: sum.distrib sum.delta)
qed

lemma bank_step_ledger_change:
  assumes "bank_step u k r b oc b'" and fin: "finite (dom (bk_accounts b))"
  shows "(\<Sum>i \<in> currency_accounts c b. ledger_sum i (bk_ledger b') - ledger_sum i (bk_ledger b)) = 0"
  using assms(1)
proof cases
  case (moved src dst src' dst' tr t)
  from moved(2) have v: "valid_request r" by (simp add: admissible_def)
  have "finite (currency_accounts c b)"
    by (rule finite_subset [OF _ fin]) (auto simp: currency_accounts_def)
  moreover have "req_from_account_id r \<in> currency_accounts c b \<longleftrightarrow>
      req_to_account_id r \<in> currency_accounts c b"
    using moved(2) by (auto simp: currency_accounts_def admissible_def)
  ultimately show ?thesis
    using valid_requestD(1) [OF v]
    by (intro sum_pair_zero [of _ "req_from_account_id r" "req_to_account_id r" _ "sint (req_amount r)"])
      (simp_all add: moved(8) ledger_sum_pair [OF v])
qed simp_all

lemma bank_step_total:
  assumes step: "bank_step u k r b oc b'" and fin: "finite (dom (bk_accounts b))"
  shows "currency_total c b' = currency_total c b"
proof -
  let ?A = "currency_accounts c b"
  have "sint (acc_balance (the (bk_accounts b' i))) - sint (acc_balance (the (bk_accounts b i))) =
      ledger_sum i (bk_ledger b') - ledger_sum i (bk_ledger b)" if "i \<in> ?A" for i
    using that bank_step_account [OF step, of i] by (auto simp: currency_accounts_def)
  then have "(\<Sum>i\<in>?A. sint (acc_balance (the (bk_accounts b' i)))) -
      (\<Sum>i\<in>?A. sint (acc_balance (the (bk_accounts b i)))) = 0"
    using bank_step_ledger_change [OF step fin, of c]
    by (simp add: sum_subtractf [symmetric])
  then show ?thesis
    using currency_accounts_step [OF step, of c]
    by (simp add: currency_total_def currency_accounts_def)
qed

lemma bank_run_total:
  assumes "bank_run b b'" and "finite (dom (bk_accounts b))"
  shows "currency_total c b' = currency_total c b"
  using assms
proof (induction rule: bank_run.induct)
  case (run_step b b' u k r oc b'')
  moreover have "finite (dom (bk_accounts b'))"
    using run_step bank_run_dom by metis
  ultimately show ?case by (simp add: bank_step_total)
qed simp

subsection \<open>Non-negative balances\<close>

definition bank_nonneg :: "bank \<Rightarrow> bool" where
  "bank_nonneg b \<longleftrightarrow> (\<forall>i a. bk_accounts b i = Some a \<longrightarrow> 0 \<le> sint (acc_balance a))"

lemma bank_step_nonneg:
  assumes "bank_step u k r b oc b'" and nn: "bank_nonneg b"
  shows "bank_nonneg b'"
  using assms(1)
proof cases
  case (moved src dst src' dst' tr t)
  note m = moved_balances [OF moved(3,4)]
  have "0 \<le> sint (acc_balance dst)" and "0 < sint (req_amount r)"
    using moved(2) nn by (auto simp: admissible_def bank_nonneg_def valid_request_def)
  with m nn show ?thesis by (auto simp: moved(8) bank_nonneg_def)
qed (use nn in \<open>simp_all add: bank_nonneg_def\<close>)

lemma bank_run_nonneg: "bank_run b b' \<Longrightarrow> bank_nonneg b \<Longrightarrow> bank_nonneg b'"
  by (induction rule: bank_run.induct) (auto intro: bank_step_nonneg)

subsection \<open>Each transfer is executed at most once\<close>

text \<open>
  The ledger holds, for every stored transfer that completed, exactly one debit and one
  credit of its amount; none for the other stored transfers; and nothing else. Transfer
  identifiers are unique.
\<close>

definition pair_of :: "transfer \<Rightarrow> ledger_entry list \<Rightarrow> bool" where
  "pair_of tr es \<longleftrightarrow>
     map le_account_id es = [tr_from_account_id tr, tr_to_account_id tr] \<and>
     map le_amount es = [- tr_amount tr, tr_amount tr]"

definition bank_once :: "bank \<Rightarrow> bool" where
  "bank_once b \<longleftrightarrow>
     (\<forall>k tr r. bk_transfers b k = Some (tr, r) \<longrightarrow>
        (if tr_status tr = TransferStatusCompleted
         then pair_of tr (entries_of (tr_id tr) (bk_ledger b))
         else entries_of (tr_id tr) (bk_ledger b) = [])) \<and>
     (\<forall>k k' tr tr' r r'. bk_transfers b k = Some (tr, r) \<and> bk_transfers b k' = Some (tr', r') \<and>
        tr_id tr = tr_id tr' \<longrightarrow> k = k') \<and>
     (\<forall>e \<in> set (bk_ledger b). le_transfer_id e \<in> transfer_ids b)"

lemma bank_onceD:
  assumes "bank_once b" and "bk_transfers b k = Some (tr, r)"
  shows "tr_status tr = TransferStatusCompleted \<Longrightarrow> pair_of tr (entries_of (tr_id tr) (bk_ledger b))"
    "tr_status tr \<noteq> TransferStatusCompleted \<Longrightarrow> entries_of (tr_id tr) (bk_ledger b) = []"
  using assms unfolding bank_once_def by metis+

lemma bank_once_unique:
  assumes "bank_once b" and "bk_transfers b k = Some (tr, r)"
    and "bk_transfers b k' = Some (tr', r')" and "tr_id tr = tr_id tr'"
  shows "k = k'"
  using assms unfolding bank_once_def by metis

lemma transfer_idsI: "bk_transfers b k = Some (tr, r) \<Longrightarrow> tr_id tr \<in> transfer_ids b"
  unfolding transfer_ids_def by (rule image_eqI [of _ _ "(tr, r)"]) (auto intro: ranI)

lemma fresh_id_no_entries:
  "bank_once b \<Longrightarrow> t \<notin> transfer_ids b \<Longrightarrow> entries_of t (bk_ledger b) = []"
  by (auto simp: bank_once_def entries_of_def filter_empty_conv)

text \<open>Storing a transfer under a new key with a new identifier keeps the correspondence.\<close>

lemma bank_once_store:
  assumes once: "bank_once b" and new: "bk_transfers b (u, k) = None"
    and fresh: "tr_id tr \<notin> transfer_ids b"
    and b': "bk_transfers b' = (bk_transfers b)((u, k) \<mapsto> (tr, r))"
    and led: "bk_ledger b' = bk_ledger b @ es" "\<forall>e \<in> set es. le_transfer_id e = tr_id tr"
    and es: "if tr_status tr = TransferStatusCompleted then pair_of tr es else es = []"
  shows "bank_once b'"
proof -
  have ids: "transfer_ids b' = insert (tr_id tr) (transfer_ids b)"
    using new by (simp add: transfer_ids_def b')
  have own: "entries_of (tr_id tr) (bk_ledger b') = es"
    using fresh_id_no_entries [OF once fresh] led by (simp add: entries_of_def)
  have others: "entries_of (tr_id tr') (bk_ledger b') = entries_of (tr_id tr') (bk_ledger b)"
    if "bk_transfers b k' = Some (tr', r')" for k' tr' r'
    using transfer_idsI [OF that] fresh led by (auto simp: entries_of_def filter_empty_conv)
  have old: "tr_id tr' \<noteq> tr_id tr" if "bk_transfers b k' = Some (tr', r')" for k' tr' r'
    using transfer_idsI [OF that] fresh by auto
  show ?thesis
    unfolding bank_once_def
  proof (intro conjI allI impI ballI)
    fix k' tr' r'
    assume "bk_transfers b' k' = Some (tr', r')"
    then show "if tr_status tr' = TransferStatusCompleted
        then pair_of tr' (entries_of (tr_id tr') (bk_ledger b'))
        else entries_of (tr_id tr') (bk_ledger b') = []"
      using own es others bank_onceD [OF once] by (auto simp: b' split: if_splits)
  next
    fix k1 k2 tr1 tr2 r1 r2
    assume "bk_transfers b' k1 = Some (tr1, r1) \<and> bk_transfers b' k2 = Some (tr2, r2) \<and>
      tr_id tr1 = tr_id tr2"
    then show "k1 = k2"
      using old [of k1 tr1 r1] old [of k2 tr2 r2] bank_once_unique [OF once, of k1 tr1 r1 k2 tr2 r2]
      by (auto simp: b' split: if_splits)
  next
    fix e
    assume "e \<in> set (bk_ledger b')"
    then show "le_transfer_id e \<in> transfer_ids b'"
      using led once by (auto simp: ids bank_once_def)
  qed
qed

lemma bank_step_once:
  assumes "bank_step u k r b oc b'" and once: "bank_once b"
  shows "bank_once b'"
  using assms(1)
proof cases
  case (moved src dst src' dst' tr t)
  then show ?thesis
    by (intro bank_once_store [OF once, of u k tr b' r "ledger_pair r tr src' dst'"])
      (auto simp: records_def pair_of_def ledger_pair_def)
next
  case (declined src dst tr)
  then show ?thesis
    by (intro bank_once_store [OF once, of u k tr b' r "[]"]) (auto simp: records_def)
qed (use once in simp_all)

lemma bank_run_once: "bank_run b b' \<Longrightarrow> bank_once b \<Longrightarrow> bank_once b'"
  by (induction rule: bank_run.induct) (auto intro: bank_step_once)

end
