(* ===== verification/Contracts.thy ===== *)
theory Contracts
  imports Bank_Spec
begin

text \<open>
  \<^verbatim>\<open>internal/domain/repository\<close>: the Go interfaces between the services and the storage. An
  interface is a record of its methods over an arbitrary store \<open>'s\<close>; what the methods
  promise is a locale. The store is seen through an abstraction into the \<open>bank\<close> of
  \<^verbatim>\<open>Bank_Spec\<close> and an invariant. \<^verbatim>\<open>Repositories\<close> interprets both locales on the PostgreSQL
  implementation.
\<close>

record new_transfer =
  nt_user_id :: string
  nt_idempotency_key :: string
  nt_request :: create_transfer
  nt_status :: transfer_status
  nt_failure_reason :: failure_reason

text \<open>
  The repositories. A method takes the store as its connection or transaction sees it; one
  that writes returns it changed. The store after a failed statement is the one before it.
\<close>

record 's account_repository =
  ar_LockForTransfer :: "'s \<Rightarrow> string list \<Rightarrow> go_error + (string \<rightharpoonup> account)"
  ar_SaveBalances :: "'s \<Rightarrow> account list \<Rightarrow> go_error + 's"
  ar_FindOwned :: "'s \<Rightarrow> string \<Rightarrow> string \<Rightarrow> go_error + account"
  ar_ListByUser :: "'s \<Rightarrow> string \<Rightarrow> go_error + account list"

record 's ledger_repository =
  gr_Append :: "'s \<Rightarrow> ledger_entry list \<Rightarrow> go_error + 's"

record 's transfer_repository =
  xr_CreateIdempotent :: "'s \<Rightarrow> new_transfer \<Rightarrow> go_error + ('s \<times> transfer \<times> bool)"
  xr_FindByID :: "'s \<Rightarrow> string \<Rightarrow> string \<Rightarrow> go_error + transfer"

record 's user_repository =
  ur_FindByEmail :: "'s \<Rightarrow> string \<Rightarrow> go_error + user"

text \<open>\<^verbatim>\<open>Tx\<close>: the repositories bound to one transaction, and its methods that the service calls.\<close>

record 's tx =
  tx_Accounts :: "'s account_repository"
  tx_Transfers :: "'s transfer_repository"
  tx_Ledger :: "'s ledger_repository"

abbreviation tx_LockForTransfer :: "'s tx \<Rightarrow> 's \<Rightarrow> string list \<Rightarrow> go_error + (string \<rightharpoonup> account)" where
  "tx_LockForTransfer tx \<equiv> ar_LockForTransfer (tx_Accounts tx)"

abbreviation tx_SaveBalances :: "'s tx \<Rightarrow> 's \<Rightarrow> account list \<Rightarrow> go_error + 's" where
  "tx_SaveBalances tx \<equiv> ar_SaveBalances (tx_Accounts tx)"

abbreviation tx_CreateIdempotent :: "'s tx \<Rightarrow> 's \<Rightarrow> new_transfer \<Rightarrow> go_error + ('s \<times> transfer \<times> bool)" where
  "tx_CreateIdempotent tx \<equiv> xr_CreateIdempotent (tx_Transfers tx)"

abbreviation tx_Append :: "'s tx \<Rightarrow> 's \<Rightarrow> ledger_entry list \<Rightarrow> go_error + 's" where
  "tx_Append tx \<equiv> gr_Append (tx_Ledger tx)"

text \<open>
  \<^verbatim>\<open>TxManager.WithinTx\<close> runs a function of the \<^verbatim>\<open>Tx\<close> in a transaction. The function returns the
  store with all it has written, also when it fails, and its captured result variables; the
  outer result says what the store holds afterwards and what the caller was told.
\<close>

record 's tx_manager =
  WithinTx :: "('s tx \<Rightarrow> 's \<Rightarrow> 's \<times> (go_error + (transfer \<times> bool))) \<Rightarrow> 's \<Rightarrow>
    's \<times> (go_error + (transfer \<times> bool))"

subsection \<open>The transaction manager\<close>

text \<open>\<open>tx\<close> is what the manager hands to the function.\<close>

locale tx_manager_contract =
  fixes mgr :: "'s tx_manager" and tx :: "'s tx"
  assumes rolls_back: "fn tx s = (s1, Inl e) \<Longrightarrow> \<exists>e'. WithinTx mgr fn s = (s, Inl e')"
    and commits: "WithinTx mgr fn s = (s', Inr x) \<Longrightarrow> fn tx s = (s', Inr x)"
    and all_or_nothing:
      "WithinTx mgr fn s = (s', Inl e) \<Longrightarrow> s' = s \<or> (\<exists>x. fn tx s = (s', Inr x))"
begin

lemma outcome_cases:
  assumes "WithinTx mgr fn s = (s', res)"
  obtains (committed) x where "fn tx s = (s', Inr x)" "res = Inr x"
    | (unacknowledged) x e where "fn tx s = (s', Inr x)" "res = Inl e"
    | (untouched) e where "s' = s" "res = Inl e"
proof (cases res)
  case (Inr x)
  with assms have "fn tx s = (s', Inr x)" using commits by metis
  with Inr show ?thesis using that(1) by blast
next
  case (Inl e)
  with assms have "s' = s \<or> (\<exists>x. fn tx s = (s', Inr x))" using all_or_nothing by blast
  with Inl show ?thesis using that(2,3) by blast
qed

lemma keeps:
  assumes "\<And>s' x. fn tx s = (s', Inr x) \<Longrightarrow> P s'" and "P s"
  shows "P (fst (WithinTx mgr fn s))"
proof -
  obtain s' res where w: "WithinTx mgr fn s = (s', res)" by fastforce
  then have "P s'" using assms by (cases rule: outcome_cases) auto
  with w show ?thesis by simp
qed

end

subsection \<open>The repositories of a transaction\<close>

definition save_accounts ::
  "time \<Rightarrow> account list \<Rightarrow> (string \<rightharpoonup> account) \<Rightarrow> (string \<rightharpoonup> account)" where
  "save_accounts t as m =
     (\<lambda>i. case m i of
        None \<Rightarrow> None
      | Some a \<Rightarrow> (case map_of (map (\<lambda>a. (acc_id a, acc_balance a)) as) i of
          None \<Rightarrow> Some a
        | Some n \<Rightarrow> Some (a\<lparr>acc_balance := n, acc_updated_at := t\<rparr>)))"

definition store_transfer :: "transfer_key \<Rightarrow> transfer \<Rightarrow> create_transfer \<Rightarrow> bank \<Rightarrow> bank" where
  "store_transfer k tr r b = b\<lparr>bk_transfers := (bk_transfers b)(k \<mapsto> (tr, r))\<rparr>"

locale tx_repositories =
  fixes tx :: "'s tx"
    and invar :: "'s \<Rightarrow> bool"
    and abs :: "'s \<Rightarrow> bank"
    and key_of :: "string \<Rightarrow> uuid option"
  assumes account_ids: "invar s \<Longrightarrow> bk_accounts (abs s) i = Some a \<Longrightarrow> acc_id a = i"
    and locks: "invar s \<Longrightarrow> tx_LockForTransfer tx s ids = Inr m \<Longrightarrow> i \<in> set ids \<Longrightarrow>
      m i = bk_accounts (abs s) i"
    and creates: "invar s \<Longrightarrow> tx_CreateIdempotent tx s d = Inr (s', tr, True) \<Longrightarrow>
      invar s' \<and> tr_id tr \<notin> transfer_ids (abs s) \<and>
      records (nt_request d) (nt_status d) (nt_failure_reason d) tr \<and>
      (\<exists>k. key_of (nt_idempotency_key d) = Some k \<and>
        bk_transfers (abs s) (nt_user_id d, k) = None \<and>
        abs s' = store_transfer (nt_user_id d, k) tr (nt_request d) (abs s))"
    and replays: "invar s \<Longrightarrow> tx_CreateIdempotent tx s d = Inr (s', tr, False) \<Longrightarrow>
      s' = s \<and> (\<exists>k. key_of (nt_idempotency_key d) = Some k \<and>
        bk_transfers (abs s) (nt_user_id d, k) = Some (tr, nt_request d))"
    and saves: "invar s \<Longrightarrow> tx_SaveBalances tx s as = Inr s' \<Longrightarrow> distinct (map acc_id as) \<Longrightarrow>
      invar s' \<and>
      (\<exists>t. abs s' = (abs s)\<lparr>bk_accounts := save_accounts t as (bk_accounts (abs s))\<rparr>)"
    and appends: "invar s \<Longrightarrow> tx_Append tx s es = Inr s' \<Longrightarrow>
      \<forall>e \<in> set es. le_transfer_id e \<in> transfer_ids (abs s) \<Longrightarrow>
      invar s' \<and> abs s' = (abs s)\<lparr>bk_ledger := bk_ledger (abs s) @ es\<rparr>"

end
