(* ===== verification/Json_Codec.thy ===== *)
theory Json_Codec
  imports Entities
begin

text \<open>
  \<^verbatim>\<open>encoding/json\<close> as the program uses it, on JSON values: decimal numbers
  (\<^verbatim>\<open>strconv.FormatInt\<close>, \<^verbatim>\<open>strconv.ParseInt\<close> in base 10), the field matching of
  \<^verbatim>\<open>Unmarshal\<close> into a struct, and the encoding and decoding of \<open>create_transfer\<close> by its
  struct tags. The main result is that a request whose strings are valid UTF-8 is decoded
  back from what was encoded, whatever the order of the keys.
\<close>

subsection \<open>Decimal numbers\<close>

definition digit_char :: "nat \<Rightarrow> char" where
  "digit_char d = char_of (48 + d)"

definition is_digit :: "char \<Rightarrow> bool" where
  "is_digit c \<longleftrightarrow> byte_in 48 57 c"

definition digit_val :: "char \<Rightarrow> nat" where
  "digit_val c = of_char c - 48"

fun nat_decimal :: "nat \<Rightarrow> string" where
  "nat_decimal n =
     (if n < 10 then [digit_char n] else nat_decimal (n div 10) @ [digit_char (n mod 10)])"

declare nat_decimal.simps [simp del]

definition FormatInt :: "int \<Rightarrow> string" where
  "FormatInt i = (if i < 0 then CHR ''-'' # nat_decimal (nat (- i)) else nat_decimal (nat i))"

definition decimal_val :: "string \<Rightarrow> nat" where
  "decimal_val ds = foldl (\<lambda>acc c. acc * 10 + digit_val c) 0 ds"

definition ParseInt :: "nat \<Rightarrow> string \<Rightarrow> int option" where
  "ParseInt bits s =
     (let (neg, ds) = (case s of
            [] \<Rightarrow> (False, [])
          | c # cs \<Rightarrow> if c = CHR ''-'' then (True, cs)
                       else if c = CHR ''+'' then (False, cs) else (False, c # cs));
          v = (if neg then - int (decimal_val ds) else int (decimal_val ds))
      in if ds = [] \<or> \<not> list_all is_digit ds then None
         else if v < - (2 ^ (bits - 1)) \<or> 2 ^ (bits - 1) \<le> v then None
         else Some v)"

lemma of_char_digit: "d < 10 \<Longrightarrow> of_char (digit_char d) = (48 + d :: nat)"
  by (simp add: digit_char_def)

lemma nat_decimal_digits: "list_all is_digit (nat_decimal n)"
proof (induction n rule: nat_decimal.induct)
  case (1 n)
  have digit: "is_digit (digit_char d)" if "d < 10" for d
    using that by (simp add: is_digit_def byte_in_def of_char_digit)
  show ?case
  proof (cases "n < 10")
    case True
    then show ?thesis using digit by (subst nat_decimal.simps) simp
  next
    case False
    then show ?thesis using "1" digit [of "n mod 10"] by (subst nat_decimal.simps) simp
  qed
qed

lemma nat_decimal_not_Nil [simp]: "nat_decimal n \<noteq> []"
  by (subst nat_decimal.simps) simp

lemma decimal_val_nat_decimal: "decimal_val (nat_decimal n) = n"
proof (induction n rule: nat_decimal.induct)
  case (1 n)
  show ?case
  proof (cases "n < 10")
    case True
    then show ?thesis
      by (subst nat_decimal.simps) (simp add: decimal_val_def digit_val_def of_char_digit)
  next
    case False
    with "1" show ?thesis
      by (subst nat_decimal.simps) (simp add: decimal_val_def digit_val_def of_char_digit)
  qed
qed

lemma nat_decimal_hd: "hd (nat_decimal n) \<noteq> CHR ''-'' \<and> hd (nat_decimal n) \<noteq> CHR ''+''"
proof -
  have "is_digit (hd (nat_decimal n))"
    using nat_decimal_digits [of n] by (cases "nat_decimal n") auto
  then show ?thesis by (auto simp: is_digit_def byte_in_def)
qed

lemma ParseInt_FormatInt:
  assumes "- (2 ^ (bits - 1)) \<le> i" and "i < 2 ^ (bits - 1)"
  shows "ParseInt bits (FormatInt i) = Some i"
proof (cases "i < 0")
  case True
  with assms show ?thesis
    by (simp add: FormatInt_def ParseInt_def nat_decimal_digits decimal_val_nat_decimal)
next
  case False
  obtain c cs where d: "nat_decimal (nat i) = c # cs"
    by (cases "nat_decimal (nat i)") auto
  with nat_decimal_hd [of "nat i"] have "c \<noteq> CHR ''-''" "c \<noteq> CHR ''+''" by auto
  moreover have "list_all is_digit (c # cs)" "decimal_val (c # cs) = nat i"
    using nat_decimal_digits [of "nat i"] decimal_val_nat_decimal [of "nat i"] by (simp_all only: d)
  ultimately show ?thesis
    using False assms by (simp add: FormatInt_def ParseInt_def d)
qed

subsection \<open>Values and field decoding\<close>

text \<open>A number keeps its literal, as \<^verbatim>\<open>encoding/json\<close> hands it to the field's type.\<close>

datatype json =
    JNull
  | JBool bool
  | JNumber string
  | JString string
  | JArray "json list"
  | JObject "(string \<times> json) list"

text \<open>
  Field names match exactly or, failing that, under simple case folding. The names of the
  program are ASCII, so folding only has to map lower case letters to upper case, and the two
  non-ASCII letters that fold to ASCII ones (U+017F to S, U+212A to K).
\<close>

fun fold_name :: "string \<Rightarrow> string" where
  "fold_name [] = []"
| "fold_name (c # cs) =
     (if c = CHR 0xC5 \<and> take 1 cs = [CHR 0xBF] then CHR ''S'' # fold_name (drop 1 cs)
      else if c = CHR 0xE2 \<and> take 2 cs = [CHR 0x84, CHR 0xAA] then CHR ''K'' # fold_name (drop 2 cs)
      else (if byte_in 0x61 0x7A c then char_of (of_char c - 32 :: nat) else c) # fold_name cs)"

type_synonym 'a setter = "json \<Rightarrow> 'a \<Rightarrow> go_error + 'a"

definition field_for :: "(string \<times> 'a setter) list \<Rightarrow> string \<Rightarrow> 'a setter option" where
  "field_for fs k =
     (case map_of fs k of
        Some f \<Rightarrow> Some f
      | None \<Rightarrow> map_option snd (List.find (\<lambda>(n, _). fold_name n = fold_name k) fs))"

text \<open>
  The members are handled in order; a member that cannot be stored leaves the field and the
  first such error is reported after the whole object has been read. With \<open>strict\<close>
  (\<^verbatim>\<open>DisallowUnknownFields\<close>) an unknown key is such an error.
\<close>

fun decode_members ::
  "bool \<Rightarrow> (string \<times> 'a setter) list \<Rightarrow> (string \<times> json) list \<Rightarrow> 'a \<Rightarrow> go_error option
    \<Rightarrow> go_error + 'a" where
  "decode_members strict fs [] x err = (case err of None \<Rightarrow> Inr x | Some e \<Rightarrow> Inl e)"
| "decode_members strict fs ((k, v) # kvs) x err =
     (let save = (\<lambda>e. case err of None \<Rightarrow> Some e | Some e' \<Rightarrow> Some e') in
      case field_for fs k of
        None \<Rightarrow> decode_members strict fs kvs x
                 (if strict then save (ErrorsNew ''json: unknown field'') else err)
      | Some f \<Rightarrow> (case f v x of
            Inl e \<Rightarrow> decode_members strict fs kvs x (save e)
          | Inr x' \<Rightarrow> decode_members strict fs kvs x' err))"

definition UnmarshalTypeError :: go_error where
  "UnmarshalTypeError = ErrorsNew ''json: cannot unmarshal value into Go value''"

definition string_field :: "(string \<Rightarrow> 'a \<Rightarrow> 'a) \<Rightarrow> 'a setter" where
  "string_field upd v x =
     (case v of JString s \<Rightarrow> Inr (upd s x) | JNull \<Rightarrow> Inr x | _ \<Rightarrow> Inl UnmarshalTypeError)"

definition int64_field :: "(i64 \<Rightarrow> 'a \<Rightarrow> 'a) \<Rightarrow> 'a setter" where
  "int64_field upd v x =
     (case v of
        JNumber lit \<Rightarrow> (case ParseInt 64 lit of
            Some i \<Rightarrow> Inr (upd (word_of_int i) x)
          | None \<Rightarrow> Inl UnmarshalTypeError)
      | JNull \<Rightarrow> Inr x
      | _ \<Rightarrow> Inl UnmarshalTypeError)"

subsection \<open>CreateTransfer\<close>

definition zero_create_transfer :: create_transfer where
  "zero_create_transfer =
     \<lparr>req_from_account_id = '''', req_to_account_id = '''', req_amount = 0,
      req_currency = '''', req_description = ''''\<rparr>"

definition create_transfer_fields :: "(string \<times> create_transfer setter) list" where
  "create_transfer_fields =
     [(''from_account_id'', string_field (\<lambda>s. req_from_account_id_update (\<lambda>_. s))),
      (''to_account_id'', string_field (\<lambda>s. req_to_account_id_update (\<lambda>_. s))),
      (''amount'', int64_field (\<lambda>n. req_amount_update (\<lambda>_. n))),
      (''currency'', string_field (\<lambda>s. req_currency_update (\<lambda>_. s))),
      (''description'', string_field (\<lambda>s. req_description_update (\<lambda>_. s)))]"

definition marshal_create_transfer :: "create_transfer \<Rightarrow> (string \<times> json) list" where
  "marshal_create_transfer r =
     [(''from_account_id'', JString (to_valid_utf8 (req_from_account_id r))),
      (''to_account_id'', JString (to_valid_utf8 (req_to_account_id r))),
      (''amount'', JNumber (FormatInt (sint (req_amount r)))),
      (''currency'', JString (to_valid_utf8 (req_currency r)))] @
     (if req_description r = '''' then []
      else [(''description'', JString (to_valid_utf8 (req_description r)))])"

definition unmarshal_create_transfer :: "json \<Rightarrow> go_error + create_transfer" where
  "unmarshal_create_transfer v =
     (case v of
        JObject kvs \<Rightarrow>
          decode_members False create_transfer_fields kvs zero_create_transfer None
      | JNull \<Rightarrow> Inr zero_create_transfer
      | _ \<Rightarrow> Inl UnmarshalTypeError)"

subsection \<open>Round trip\<close>

definition str_member :: "(string \<rightharpoonup> json) \<Rightarrow> string \<Rightarrow> string \<Rightarrow> string" where
  "str_member m k d = (case m k of Some (JString s) \<Rightarrow> s | _ \<Rightarrow> d)"

definition int_member :: "(string \<rightharpoonup> json) \<Rightarrow> string \<Rightarrow> i64 \<Rightarrow> i64" where
  "int_member m k d =
     (case m k of Some (JNumber l) \<Rightarrow> word_of_int (the (ParseInt 64 l)) | _ \<Rightarrow> d)"

inductive member_ok :: "string \<Rightarrow> json \<Rightarrow> bool" where
  from_ok: "member_ok ''from_account_id'' (JString s)"
| to_ok: "member_ok ''to_account_id'' (JString s)"
| amount_ok: "ParseInt 64 l = Some i \<Longrightarrow> member_ok ''amount'' (JNumber l)"
| currency_ok: "member_ok ''currency'' (JString s)"
| description_ok: "member_ok ''description'' (JString s)"

definition request_of_members :: "(string \<rightharpoonup> json) \<Rightarrow> create_transfer \<Rightarrow> create_transfer" where
  "request_of_members m x =
     \<lparr>req_from_account_id = str_member m ''from_account_id'' (req_from_account_id x),
      req_to_account_id = str_member m ''to_account_id'' (req_to_account_id x),
      req_amount = int_member m ''amount'' (req_amount x),
      req_currency = str_member m ''currency'' (req_currency x),
      req_description = str_member m ''description'' (req_description x)\<rparr>"

lemma str_member_upd:
  "m k = None \<Longrightarrow> str_member m k' (str_member [k \<mapsto> v] k' d) = str_member (m(k \<mapsto> v)) k' d"
  by (auto simp: str_member_def split: option.split json.split)

lemma int_member_upd:
  "m k = None \<Longrightarrow> int_member m k' (int_member [k \<mapsto> v] k' d) = int_member (m(k \<mapsto> v)) k' d"
  by (auto simp: int_member_def split: option.split json.split)

lemma request_of_members_upd:
  "m k = None \<Longrightarrow>
   request_of_members m (request_of_members [k \<mapsto> v] x) = request_of_members (m(k \<mapsto> v)) x"
  by (simp add: request_of_members_def str_member_upd int_member_upd)

lemma create_transfer_fields_eq:
  "map_of create_transfer_fields =
     [''from_account_id'' \<mapsto> string_field (\<lambda>s. req_from_account_id_update (\<lambda>_. s)),
      ''to_account_id'' \<mapsto> string_field (\<lambda>s. req_to_account_id_update (\<lambda>_. s)),
      ''amount'' \<mapsto> int64_field (\<lambda>n. req_amount_update (\<lambda>_. n)),
      ''currency'' \<mapsto> string_field (\<lambda>s. req_currency_update (\<lambda>_. s)),
      ''description'' \<mapsto> string_field (\<lambda>s. req_description_update (\<lambda>_. s))]"
  by (rule ext) (simp add: create_transfer_fields_def)

lemma decode_member_step:
  assumes "member_ok k v"
  shows "\<exists>f. field_for create_transfer_fields k = Some f \<and>
    f v x = Inr (request_of_members [k \<mapsto> v] x)"
  using assms
  by cases (simp_all add: field_for_def create_transfer_fields_eq string_field_def
    int64_field_def request_of_members_def str_member_def int_member_def)

lemma decode_members_typed:
  "distinct (map fst kvs) \<Longrightarrow> \<forall>(k, v) \<in> set kvs. member_ok k v \<Longrightarrow>
   decode_members strict create_transfer_fields kvs x None =
     Inr (request_of_members (map_of kvs) x)"
proof (induction kvs arbitrary: x)
  case Nil
  show ?case by (simp add: request_of_members_def str_member_def int_member_def)
next
  case (Cons kv kvs)
  obtain k v where kv: "kv = (k, v)" by fastforce
  have fresh: "map_of kvs k = None"
    using Cons.prems(1) by (simp add: kv map_of_eq_None_iff)
  have mo: "(map_of kvs)(k \<mapsto> v) = map_of (kv # kvs)"
    by (simp add: kv fun_eq_iff)
  obtain f where "field_for create_transfer_fields k = Some f"
    and "f v x = Inr (request_of_members [k \<mapsto> v] x)"
    using decode_member_step [of k v x] Cons.prems(2) by (auto simp: kv)
  then have "decode_members strict create_transfer_fields (kv # kvs) x None =
      decode_members strict create_transfer_fields kvs (request_of_members [k \<mapsto> v] x) None"
    by (simp add: kv)
  also have "\<dots> = Inr (request_of_members (map_of kvs) (request_of_members [k \<mapsto> v] x))"
    using Cons.prems by (intro Cons.IH) simp_all
  also have "\<dots> = Inr (request_of_members (map_of (kv # kvs)) x)"
    by (simp only: request_of_members_upd [where m = "map_of kvs", OF fresh] mo)
  finally show ?case .
qed

lemma marshal_members_ok: "\<forall>(k, v) \<in> set (marshal_create_transfer r). member_ok k v"
  using sint_i64_bounds [of "req_amount r"]
  by (auto simp: marshal_create_transfer_def ParseInt_FormatInt intro: member_ok.intros)

lemma marshal_distinct: "distinct (map fst (marshal_create_transfer r))"
  by (simp add: marshal_create_transfer_def)

text \<open>The strings of a request that survive encoding unchanged: the valid UTF-8 ones.\<close>

definition request_utf8 :: "create_transfer \<Rightarrow> bool" where
  "request_utf8 r \<longleftrightarrow>
     utf8_valid (req_from_account_id r) \<and> utf8_valid (req_to_account_id r) \<and>
     utf8_valid (req_currency r) \<and> utf8_valid (req_description r)"

lemma request_of_marshal:
  assumes "request_utf8 r"
  shows "request_of_members (map_of (marshal_create_transfer r)) zero_create_transfer = r"
  using assms sint_i64_bounds [of "req_amount r"]
  by (simp add: request_utf8_def request_of_members_def marshal_create_transfer_def
      zero_create_transfer_def str_member_def int_member_def to_valid_utf8_id ParseInt_FormatInt)

lemma decode_marshal:
  assumes "request_utf8 r" and dist: "distinct (map fst kvs)"
    and same: "set kvs = set (marshal_create_transfer r)"
  shows "decode_members strict create_transfer_fields kvs zero_create_transfer None = Inr r"
proof -
  have "map_of kvs = map_of (marshal_create_transfer r)"
    using dist same marshal_distinct map_of_inject_set by blast
  moreover have "decode_members strict create_transfer_fields kvs zero_create_transfer None =
      Inr (request_of_members (map_of kvs) zero_create_transfer)"
    using dist marshal_members_ok [of r] by (intro decode_members_typed) (simp_all add: same)
  ultimately show ?thesis by (simp add: request_of_marshal [OF assms(1)])
qed

lemma unmarshal_marshal:
  "request_utf8 r \<Longrightarrow> distinct (map fst kvs) \<Longrightarrow> set kvs = set (marshal_create_transfer r) \<Longrightarrow>
   unmarshal_create_transfer (JObject kvs) = Inr r"
  by (simp add: unmarshal_create_transfer_def decode_marshal)

end
