(* ===== verification/Postgres.thy ===== *)
theory Postgres
  imports Contracts Json_Codec
begin

text \<open>
  The database as the SQL of the program sees it: the tables and constraints that the
  migrations of \<^verbatim>\<open>internal/repository/migrations\<close> leave behind, and one definition for each
  SQL statement of \<^verbatim>\<open>internal/repository\<close>. What PostgreSQL and pgx decide on their own is a
  parameter: \<open>pg\<close> collects the functions that are the same for every call (text form of
  UUIDs, collation, \<^verbatim>\<open>lower\<close>, the JSONB normal form), \<open>pg_call\<close> what happens during one
  call (drawn UUID, clock, which statement fails, how the commit ends).
\<close>

subsection \<open>Parameters\<close>

record pg =
  pg_uuid_text :: "uuid \<Rightarrow> string"
  pg_text_uuid :: "string \<Rightarrow> uuid option"
  pg_uuid_scan :: "string \<Rightarrow> uuid option"
  pg_collate_le :: "string \<Rightarrow> string \<Rightarrow> bool"
  pg_lower :: "string \<Rightarrow> string"
  pg_jsonb :: "(string \<times> json) list \<Rightarrow> (string \<times> json) list"

text \<open>A \<^verbatim>\<open>text\<close> value is valid UTF-8 without the zero byte; other bytes are refused.\<close>

definition pg_text :: "string \<Rightarrow> bool" where
  "pg_text s \<longleftrightarrow> utf8_valid s \<and> CHR 0x00 \<notin> set s"

text \<open>
  The objects on which JSONB is relied upon: distinct names, and as values strings that are
  text values and integers as they are printed. Other values it may refuse (a string with a
  zero character) or normalise (repeated names, numbers in other notations).
\<close>

definition plain_members :: "(string \<times> json) list \<Rightarrow> bool" where
  "plain_members kvs \<longleftrightarrow>
     distinct (map fst kvs) \<and>
     list_all (\<lambda>(k, v). pg_text k \<and>
       (case v of JString s \<Rightarrow> pg_text s | JNumber n \<Rightarrow> (\<exists>i. n = FormatInt i) | _ \<Rightarrow> False)) kvs"

text \<open>
  What the program relies on: the text form of a UUID casts back to it, and JSONB keeps the
  members of such an object (it may reorder them). \<open>pg_uuid_scan\<close> is \<^verbatim>\<open>pgtype.UUID.Scan\<close>, \<open>None\<close>
  when it fails or yields an invalid value; nothing is assumed about it.
\<close>

definition uuid_round_trip :: "pg \<Rightarrow> bool" where
  "uuid_round_trip P \<longleftrightarrow> (\<forall>u. pg_text_uuid P (pg_uuid_text P u) = Some u)"

definition jsonb_keeps_members :: "pg \<Rightarrow> bool" where
  "jsonb_keeps_members P \<longleftrightarrow>
     (\<forall>kvs. plain_members kvs \<longrightarrow>
        distinct (map fst (pg_jsonb P kvs)) \<and> set (pg_jsonb P kvs) = set kvs)"

lemma marshal_plain:
  assumes "list_all pg_text [req_from_account_id r, req_to_account_id r, req_currency r, req_description r]"
  shows "plain_members (marshal_create_transfer r)"
proof -
  have "list_all pg_text [''from_account_id'', ''to_account_id'', ''amount'', ''currency'', ''description'']"
    by code_simp
  with assms show ?thesis
    unfolding plain_members_def using marshal_distinct [of r]
    by (auto simp: marshal_create_transfer_def pg_text_def to_valid_utf8_id)
qed

lemma stored_members_decode:
  assumes "jsonb_keeps_members P"
    and "list_all pg_text [req_from_account_id r, req_to_account_id r, req_currency r, req_description r]"
  shows "unmarshal_create_transfer (JObject (pg_jsonb P (marshal_create_transfer r))) = Inr r"
proof -
  have "request_utf8 r" using assms(2) by (simp add: request_utf8_def pg_text_def)
  moreover have "distinct (map fst (pg_jsonb P (marshal_create_transfer r)))"
    "set (pg_jsonb P (marshal_create_transfer r)) = set (marshal_create_transfer r)"
    using assms(1) marshal_plain [OF assms(2)] by (simp_all add: jsonb_keeps_members_def)
  ultimately show ?thesis by (rule unmarshal_marshal)
qed

definition pg_documented :: "pg \<Rightarrow> bool" where
  "pg_documented P \<longleftrightarrow> uuid_round_trip P \<and> jsonb_keeps_members P"

datatype statement =
    StmtBegin
  | StmtLockAccounts
  | StmtInsertTransfer
  | StmtFindExisting
  | StmtSaveBalances
  | StmtAppendLedger
  | StmtFindTransfer
  | StmtFindOwned
  | StmtListByUser
  | StmtFindByEmail
  | StmtSeedUser string
  | StmtSeedAccount string
  | StmtPing
  | StmtTruncate
  | StmtCreateUser
  | StmtCreateAccount string
  | StmtBalance

text \<open>
  A commit succeeds, is refused (nothing is kept), or takes effect although the client only
  sees an error, for example because the connection broke before the answer arrived.
\<close>

datatype commit_outcome = Committed | CommitRefused string | CommitUnacknowledged string

record pg_call =
  call_uuid :: uuid
  call_now :: time
  call_fault :: "statement \<Rightarrow> string option"
  call_commit :: commit_outcome

definition exec :: "pg_call \<Rightarrow> statement \<Rightarrow> go_error + 'a \<Rightarrow> go_error + 'a" where
  "exec c st r = (case call_fault c st of Some m \<Rightarrow> Inl (DbError m) | None \<Rightarrow> r)"

lemma exec_eq_Inr [simp]: "exec c st r = Inr x \<longleftrightarrow> call_fault c st = None \<and> r = Inr x"
  by (auto simp: exec_def split: option.splits)

lemma exec_no_fault: "call_fault c st = None \<Longrightarrow> exec c st r = r"
  by (simp add: exec_def)

subsection \<open>Tables\<close>

text \<open>
  The columns of \<^verbatim>\<open>accounts\<close> are the fields of \<open>account\<close>, those of \<^verbatim>\<open>users\<close> the fields of
  \<open>user\<close> (its \<^verbatim>\<open>created_at\<close> and the identity column of \<^verbatim>\<open>ledger_entries\<close> are never read).
  A table is the list of its rows in the order of insertion.
\<close>

record transfers_row =
  tw_id :: uuid
  tw_user_id :: string
  tw_idempotency_key :: uuid
  tw_from_account_id :: string
  tw_to_account_id :: string
  tw_amount :: i64
  tw_currency :: string
  tw_description :: string
  tw_status :: string
  tw_original_request :: json
  tw_created_at :: time
  tw_updated_at :: time
  tw_failure_reason :: "string option"

record ledger_row =
  lw_transfer_id :: uuid
  lw_account_id :: string
  lw_amount :: i64
  lw_balance_after :: i64
  lw_created_at :: time

record db =
  db_users :: "user list"
  db_accounts :: "account list"
  db_transfers :: "transfers_row list"
  db_ledger :: "ledger_row list"

subsection \<open>Types and constraints\<close>

definition btrim :: "string \<Rightarrow> string" where
  "btrim s = Trim s [CHR 0x20]"

text \<open>\<^verbatim>\<open>currency ~ '^[A-Z]{3}$'\<close>\<close>

definition currency_regex :: "string \<Rightarrow> bool" where
  "currency_regex c \<longleftrightarrow> length c = 3 \<and> list_all (byte_in 0x41 0x5A) c"

definition accounts_check :: "account \<Rightarrow> bool" where
  "accounts_check a \<longleftrightarrow>
     btrim (acc_id a) \<noteq> '''' \<and> btrim (acc_user_id a) \<noteq> '''' \<and>
     currency_regex (acc_currency a) \<and> 0 \<le> sint (acc_balance a)"

definition transfers_check :: "transfers_row \<Rightarrow> bool" where
  "transfers_check t \<longleftrightarrow>
     btrim (tw_user_id t) \<noteq> '''' \<and> btrim (tw_from_account_id t) \<noteq> '''' \<and>
     btrim (tw_to_account_id t) \<noteq> '''' \<and> 0 < sint (tw_amount t) \<and>
     currency_regex (tw_currency t) \<and>
     tw_status t \<in> {''pending'', ''processing'', ''completed'', ''failed'', ''cancelled''} \<and>
     (case tw_original_request t of JObject _ \<Rightarrow> True | _ \<Rightarrow> False) \<and>
     tw_from_account_id t \<noteq> tw_to_account_id t"

definition ledger_check :: "ledger_row \<Rightarrow> bool" where
  "ledger_check l \<longleftrightarrow> lw_amount l \<noteq> 0 \<and> 0 \<le> sint (lw_balance_after l)"

definition violation :: "string \<Rightarrow> go_error" where
  "violation m = DbError m"

lemma violation_not_ErrNoRows [simp]: "errors_Is (violation m) ErrNoRows \<longleftrightarrow> False"
  by (simp add: violation_def)

subsection \<open>Statements on accounts\<close>

text \<open>
  \<^verbatim>\<open>SELECT ... FROM accounts WHERE id = ANY($1) ORDER BY id FOR UPDATE\<close>: the rows it returns,
  in the order in which it locks them.
\<close>

definition sql_lock_accounts :: "pg \<Rightarrow> db \<Rightarrow> string list \<Rightarrow> go_error + account list" where
  "sql_lock_accounts P db ids =
     (if list_all pg_text ids
      then Inr (sort_by (pg_collate_le P) acc_id
             (filter (\<lambda>a. acc_id a \<in> set ids) (db_accounts db)))
      else Inl (violation ''invalid byte sequence''))"

text \<open>
  \<^verbatim>\<open>UPDATE accounts AS a SET balance = v.balance, updated_at = now() FROM unnest($1, $2) AS
  v(id, balance) WHERE a.id = v.id\<close>: the changed table and the number of updated rows. Each
  row is updated once; the program passes distinct identifiers.
\<close>

definition sql_update_balances ::
  "pg_call \<Rightarrow> db \<Rightarrow> string list \<Rightarrow> i64 list \<Rightarrow> go_error + (db \<times> nat)" where
  "sql_update_balances c db ids balances =
     (let v = map_of (zip ids balances);
          upd = (\<lambda>a. case v (acc_id a) of
                   None \<Rightarrow> a
                 | Some n \<Rightarrow> a\<lparr>acc_balance := n, acc_updated_at := call_now c\<rparr>);
          rows = map upd (db_accounts db)
      in if \<not> list_all pg_text ids then Inl (violation ''invalid byte sequence'')
         else if \<not> list_all (\<lambda>a. 0 \<le> sint (acc_balance a)) rows
         then Inl (violation ''accounts_balance_non_negative'')
         else Inr (db\<lparr>db_accounts := rows\<rparr>,
                   length (filter (\<lambda>a. v (acc_id a) \<noteq> None) (db_accounts db))))"

definition sql_find_owned :: "db \<Rightarrow> string \<Rightarrow> string \<Rightarrow> go_error + account list" where
  "sql_find_owned db accountID userID =
     (if pg_text accountID \<and> pg_text userID
      then Inr (filter (\<lambda>a. acc_id a = accountID \<and> acc_user_id a = userID) (db_accounts db))
      else Inl (violation ''invalid byte sequence''))"

definition sql_list_by_user :: "pg \<Rightarrow> db \<Rightarrow> string \<Rightarrow> go_error + account list" where
  "sql_list_by_user P db userID =
     (if pg_text userID
      then Inr (sort_by (pg_collate_le P) acc_id
             (filter (\<lambda>a. acc_user_id a = userID) (db_accounts db)))
      else Inl (violation ''invalid byte sequence''))"

subsection \<open>Statements on transfers\<close>

text \<open>
  \<^verbatim>\<open>INSERT INTO transfers ... ON CONFLICT (user_id, idempotency_key) DO NOTHING RETURNING ...\<close>:
  the row is built with the defaults of the table; \<^verbatim>\<open>CHECK\<close> constraints come first, a taken
  key inserts nothing and returns no row, then the primary key and the foreign keys are
  enforced.
\<close>

definition transfers_values ::
  "pg \<Rightarrow> pg_call \<Rightarrow> new_transfer \<Rightarrow> uuid \<Rightarrow> (string \<times> json) list \<Rightarrow> transfers_row" where
  "transfers_values P c t key payload =
     \<lparr>tw_id = call_uuid c, tw_user_id = nt_user_id t, tw_idempotency_key = key,
      tw_from_account_id = req_from_account_id (nt_request t),
      tw_to_account_id = req_to_account_id (nt_request t),
      tw_amount = req_amount (nt_request t), tw_currency = req_currency (nt_request t),
      tw_description = req_description (nt_request t), tw_status = nt_status t,
      tw_original_request = JObject (pg_jsonb P payload),
      tw_created_at = call_now c, tw_updated_at = call_now c,
      tw_failure_reason = (if nt_failure_reason t = '''' then None else Some (nt_failure_reason t))\<rparr>"

definition transfers_texts :: "transfers_row \<Rightarrow> string list" where
  "transfers_texts t =
     [tw_user_id t, tw_from_account_id t, tw_to_account_id t, tw_currency t, tw_description t,
      tw_status t] @ (case tw_failure_reason t of None \<Rightarrow> [] | Some r \<Rightarrow> [r])"

definition sql_insert_transfer :: "db \<Rightarrow> transfers_row \<Rightarrow> go_error + (db \<times> transfers_row)" where
  "sql_insert_transfer db t =
     (if \<not> list_all pg_text (transfers_texts t) then Inl (violation ''invalid byte sequence'')
      else if \<not> transfers_check t then Inl (violation ''check constraint'')
      else if list_ex (\<lambda>t'. tw_user_id t' = tw_user_id t \<and>
                tw_idempotency_key t' = tw_idempotency_key t) (db_transfers db)
      then Inl ErrNoRows
      else if list_ex (\<lambda>t'. tw_id t' = tw_id t) (db_transfers db)
      then Inl (violation ''transfers_pkey'')
      else if \<not> list_ex (\<lambda>a. acc_id a = tw_from_account_id t) (db_accounts db) \<or>
              \<not> list_ex (\<lambda>a. acc_id a = tw_to_account_id t) (db_accounts db)
      then Inl (violation ''foreign key'')
      else Inr (db\<lparr>db_transfers := db_transfers db @ [t]\<rparr>, t))"

definition first_row :: "'a list \<Rightarrow> go_error + 'a" where
  "first_row rows = (case rows of [] \<Rightarrow> Inl ErrNoRows | r # _ \<Rightarrow> Inr r)"

lemma first_row_single [simp]: "first_row [r] = Inr r"
  by (simp add: first_row_def)

lemma first_row_Inr: "first_row rows = Inr r \<Longrightarrow> r \<in> set rows"
  by (cases rows) (auto simp: first_row_def)

definition sql_transfer_by_key :: "db \<Rightarrow> string \<Rightarrow> uuid \<Rightarrow> go_error + transfers_row" where
  "sql_transfer_by_key db userID key =
     (if pg_text userID
      then first_row (filter (\<lambda>t. tw_user_id t = userID \<and> tw_idempotency_key t = key)
             (db_transfers db))
      else Inl (violation ''invalid byte sequence''))"

definition sql_transfer_by_id :: "db \<Rightarrow> uuid \<Rightarrow> string \<Rightarrow> go_error + transfers_row" where
  "sql_transfer_by_id db tid userID =
     (if pg_text userID
      then first_row (filter (\<lambda>t. tw_id t = tid \<and> tw_user_id t = userID) (db_transfers db))
      else Inl (violation ''invalid byte sequence''))"

subsection \<open>Statements on the ledger and on users\<close>

text \<open>
  \<^verbatim>\<open>INSERT INTO ledger_entries ... SELECT * FROM unnest($1::uuid[], ...)\<close>: the transfer
  identifiers are cast to UUIDs, the constraints and both foreign keys are checked, and all
  rows are inserted or none.
\<close>

definition ledger_value :: "pg \<Rightarrow> pg_call \<Rightarrow> ledger_entry \<Rightarrow> ledger_row option" where
  "ledger_value P c e =
     map_option (\<lambda>u. \<lparr>lw_transfer_id = u, lw_account_id = le_account_id e,
         lw_amount = le_amount e, lw_balance_after = le_balance_after e,
         lw_created_at = call_now c\<rparr>) (pg_text_uuid P (le_transfer_id e))"

definition sql_insert_ledger ::
  "pg \<Rightarrow> pg_call \<Rightarrow> db \<Rightarrow> ledger_entry list \<Rightarrow> go_error + db" where
  "sql_insert_ledger P c db es =
     (case those (map (ledger_value P c) es) of
        None \<Rightarrow> Inl (violation ''invalid input syntax for type uuid'')
      | Some rows \<Rightarrow>
          if \<not> list_all (\<lambda>l. pg_text (lw_account_id l)) rows
          then Inl (violation ''invalid byte sequence'')
          else if \<not> list_all ledger_check rows then Inl (violation ''check constraint'')
          else if \<not> list_all (\<lambda>l.
                    list_ex (\<lambda>t. tw_id t = lw_transfer_id l) (db_transfers db) \<and>
                    list_ex (\<lambda>a. acc_id a = lw_account_id l) (db_accounts db)) rows
          then Inl (violation ''foreign key'')
          else Inr (db\<lparr>db_ledger := db_ledger db @ rows\<rparr>))"

definition sql_find_by_email :: "pg \<Rightarrow> db \<Rightarrow> string \<Rightarrow> go_error + user" where
  "sql_find_by_email P db email =
     (if pg_text email
      then first_row (filter (\<lambda>u. pg_lower P (usr_email u) = pg_lower P email) (db_users db))
      else Inl (violation ''invalid byte sequence''))"

subsection \<open>Constraints and validation agree\<close>

lemma currency_char: "byte_in 0x41 0x5A c \<longleftrightarrow> c \<in> set uppercase_letters"
proof
  assume "byte_in 0x41 0x5A c"
  then have "of_char c \<in> {0x41..0x5A :: nat}" by (simp add: byte_in_def)
  also have "{0x41..0x5A :: nat} = set [0x41..<0x5B]" unfolding set_upt by auto
  finally have "c \<in> set (map char_of [0x41..<0x5B :: nat])"
    by (metis char_of_char image_eqI set_map)
  also have "map char_of [0x41..<0x5B :: nat] = uppercase_letters"
    unfolding uppercase_letters_def by code_simp
  finally show "c \<in> set uppercase_letters" .
qed (auto simp: uppercase_letters_def byte_in_def)

lemma currency_regex_iso: "currency_regex c \<longleftrightarrow> iso_currency c"
  by (simp add: currency_regex_def iso_currency_def currency_char list_all_iff)

lemma btrim_blank: "btrim s = '''' \<Longrightarrow> TrimSpace s = ''''"
  unfolding btrim_def Trim_eq_Nil by (simp add: TrimSpace_blank)

text \<open>
  Validation is at least as strict as the table: a valid request with a known status never
  trips a \<^verbatim>\<open>CHECK\<close> of \<^verbatim>\<open>transfers\<close>.
\<close>

lemma valid_request_transfers_check:
  assumes "valid_request (nt_request t)" and "TrimSpace (nt_user_id t) \<noteq> ''''"
    and "nt_status t \<in> {TransferStatusCompleted, TransferStatusFailed}"
  shows "transfers_check (transfers_values P c t key payload)"
  using assms btrim_blank
  by (auto simp: transfers_check_def transfers_values_def valid_request_def currency_regex_iso
      status_defs)

end
