(* ===== verification/Transfer_Service.thy ===== *)
theory Transfer_Service
  imports Contracts
begin

text \<open>
  \<^verbatim>\<open>internal/service/transfer/service.go\<close>: \<open>Create\<close> and \<open>Transfer_Get\<close>, over the interfaces
  of \<^verbatim>\<open>Contracts\<close>. Inside the locale \<open>transfer_backend\<close> (a transaction manager and the
  repositories with their contracts) every call of \<open>Create\<close> is shown to be one step of the
  abstract bank or to leave it alone, whatever fails on the way.
\<close>

subsection \<open>Create\<close>

text \<open>
  The accounts returned by \<^verbatim>\<open>LockForTransfer\<close> are pointers to two different structs, since
  validation has ruled out equal account identifiers, so \<open>Debit\<close> and \<open>Credit\<close> work on
  separate values. \<open>settle\<close> is the \<^verbatim>\<open>switch\<close> over \<^verbatim>\<open>source.Debit\<close>: the status and reason of
  the draft, and both accounts as they are afterwards in memory.
\<close>

definition settle ::
  "account \<Rightarrow> account \<Rightarrow> i64 \<Rightarrow>
    go_error + (transfer_status \<times> failure_reason \<times> account \<times> account)" where
  "settle source destination amount =
     (case Debit source amount of
        Inl e \<Rightarrow>
          (if errors_Is e ErrInsufficientFunds
           then Inr (TransferStatusFailed, FailureReasonInsufficientFunds, source, destination)
           else Inl e)
      | Inr source' \<Rightarrow>
          (case Credit destination amount of
             Inl e \<Rightarrow> Inl e
           | Inr destination' \<Rightarrow>
               Inr (TransferStatusCompleted, FailureReasonNone, source', destination')))"

text \<open>
  \<open>create_tx\<close> is the function passed to \<^verbatim>\<open>WithinTx\<close>. It returns the store as the transaction has
  left it: what would be committed when it succeeds, and what has been written before the
  error otherwise.
\<close>

definition create_tx ::
  "'s tx \<Rightarrow> string \<Rightarrow> string \<Rightarrow> create_transfer \<Rightarrow> 's \<Rightarrow> 's \<times> (go_error + (transfer \<times> bool))" where
  "create_tx tx userID key request s =
     step_in s (tx_LockForTransfer tx s [req_from_account_id request, req_to_account_id request])
     (\<lambda>accounts.
       case accounts (req_from_account_id request) of
         None \<Rightarrow> (s, Inl ErrForbidden)
       | Some source \<Rightarrow>
       if acc_user_id source \<noteq> userID then (s, Inl ErrForbidden)
       else case accounts (req_to_account_id request) of
         None \<Rightarrow> (s, Inl ErrDestinationNotFound)
       | Some destination \<Rightarrow>
       if acc_currency source \<noteq> req_currency request \<or>
          acc_currency destination \<noteq> req_currency request
       then (s, Inl ErrCurrencyMismatch)
       else step_in s (settle source destination (req_amount request))
         (\<lambda>(status, reason, source, destination).
         step_in s (tx_CreateIdempotent tx s
             \<lparr>nt_user_id = userID, nt_idempotency_key = key, nt_request = request,
              nt_status = status, nt_failure_reason = reason\<rparr>)
         (\<lambda>(s, result, created).
           if \<not> created \<or> tr_status result \<noteq> TransferStatusCompleted
           then (s, Inr (result, created))
           else step_in s (tx_SaveBalances tx s [source, destination])
             (\<lambda>s. step_in s (tx_Append tx s
                 [\<lparr>le_transfer_id = tr_id result, le_account_id = acc_id source,
                   le_amount = - req_amount request, le_balance_after = acc_balance source\<rparr>,
                  \<lparr>le_transfer_id = tr_id result, le_account_id = acc_id destination,
                   le_amount = req_amount request,
                   le_balance_after = acc_balance destination\<rparr>])
               (\<lambda>s. (s, Inr (result, created)))))))"

record 's transfer_service =
  svc_store :: "'s tx_manager"
  svc_reads :: "'s transfer_repository"

definition NewTransferService :: "'s tx_manager \<Rightarrow> 's transfer_repository \<Rightarrow> 's transfer_service" where
  "NewTransferService store reads = \<lparr>svc_store = store, svc_reads = reads\<rparr>"

definition Create ::
  "'s transfer_service \<Rightarrow> string \<Rightarrow> string \<Rightarrow> create_transfer \<Rightarrow> 's \<Rightarrow>
    's \<times> (go_error + (transfer \<times> bool))" where
  "Create svc userID key request s =
     (if TrimSpace userID = '''' then (s, Inl ErrForbidden)
      else case CreateTransfer_Validate request of
        Inl e \<Rightarrow> (s, Inl e)
      | Inr _ \<Rightarrow>
        (case WithinTx (svc_store svc) (\<lambda>tx. create_tx tx userID key request) s of
           (s', Inl e) \<Rightarrow> (s', Inl (Wrapped ''create transfer'' e))
         | (s', Inr x) \<Rightarrow> (s', Inr x)))"

subsection \<open>Get\<close>

definition Transfer_Get ::
  "'s transfer_service \<Rightarrow> 's \<Rightarrow> string \<Rightarrow> string \<Rightarrow> go_error + transfer" where
  "Transfer_Get svc s userID transferID =
     (case xr_FindByID (svc_reads svc) s userID transferID of
        Inl e \<Rightarrow> if errors_Is e ErrNotFound then Inl ErrTransferNotFound else Inl e
      | Inr transfer \<Rightarrow> Inr transfer)"

subsection \<open>Facts about the parts\<close>

lemma Debit_Inl_cases: "Debit a amt = Inl e \<Longrightarrow> e = ErrInvalidAmount \<or> e = ErrInsufficientFunds"
  by (auto simp: Debit_eq_Inl)

lemma settle_eq_Inr:
  "settle src dst amt = Inr (st, reason, src', dst') \<longleftrightarrow>
     (st = TransferStatusCompleted \<and> reason = FailureReasonNone \<and>
       Debit src amt = Inr src' \<and> Credit dst amt = Inr dst') \<or>
     (st = TransferStatusFailed \<and> reason = FailureReasonInsufficientFunds \<and>
       Debit src amt = Inl ErrInsufficientFunds \<and> src' = src \<and> dst' = dst)"
  by (cases "Debit src amt"; cases "Credit dst amt")
    (auto simp: settle_def dest!: Debit_Inl_cases)

lemma settle_eq_Inl:
  "0 < sint amt \<Longrightarrow> settle src dst amt = Inl e \<longleftrightarrow>
     (\<exists>src'. Debit src amt = Inr src') \<and> Credit dst amt = Inl ErrBalanceOverflow \<and>
     e = ErrBalanceOverflow"
  by (auto simp: settle_def money_cases split: sum.splits if_splits)

text \<open>A transaction that runs to its end, step by step.\<close>

abbreviation draft :: "string \<Rightarrow> string \<Rightarrow> create_transfer \<Rightarrow> transfer_status \<Rightarrow> failure_reason \<Rightarrow> new_transfer" where
  "draft u key r st reason \<equiv>
     \<lparr>nt_user_id = u, nt_idempotency_key = key, nt_request = r, nt_status = st,
      nt_failure_reason = reason\<rparr>"

abbreviation entry_pair :: "create_transfer \<Rightarrow> transfer \<Rightarrow> account \<Rightarrow> account \<Rightarrow> ledger_entry list" where
  "entry_pair r tr src dst \<equiv>
     [\<lparr>le_transfer_id = tr_id tr, le_account_id = acc_id src, le_amount = - req_amount r,
       le_balance_after = acc_balance src\<rparr>,
      \<lparr>le_transfer_id = tr_id tr, le_account_id = acc_id dst, le_amount = req_amount r,
       le_balance_after = acc_balance dst\<rparr>]"

lemma create_tx_InrE:
  assumes "create_tx tx u key r s = (s', Inr (tr, created))"
  obtains m src dst st reason src' dst' s1 where
    "tx_LockForTransfer tx s [req_from_account_id r, req_to_account_id r] = Inr m"
    "m (req_from_account_id r) = Some src" "m (req_to_account_id r) = Some dst"
    "acc_user_id src = u" "acc_currency src = req_currency r" "acc_currency dst = req_currency r"
    "settle src dst (req_amount r) = Inr (st, reason, src', dst')"
    "tx_CreateIdempotent tx s (draft u key r st reason) = Inr (s1, tr, created)"
    "if \<not> created \<or> tr_status tr \<noteq> TransferStatusCompleted then s' = s1
     else \<exists>s2. tx_SaveBalances tx s1 [src', dst'] = Inr s2 \<and>
       tx_Append tx s2 (entry_pair r tr src' dst') = Inr s'"
proof -
  from assms obtain m where m: "tx_LockForTransfer tx s [req_from_account_id r, req_to_account_id r] = Inr m"
    by (auto simp: create_tx_def step_in_eq_Inr)
  obtain src where src: "m (req_from_account_id r) = Some src" "acc_user_id src = u"
    using assms by (cases "m (req_from_account_id r)") (auto simp: create_tx_def m split: if_splits)
  obtain dst where dst: "m (req_to_account_id r) = Some dst"
    using assms src by (cases "m (req_to_account_id r)") (auto simp: create_tx_def m)
  have cur: "acc_currency src = req_currency r" "acc_currency dst = req_currency r"
    using assms src dst by (auto simp: create_tx_def m split: if_splits)
  obtain st reason src' dst' where st: "settle src dst (req_amount r) = Inr (st, reason, src', dst')"
    using assms src dst cur by (auto simp: create_tx_def m step_in_eq_Inr)
  from assms src dst cur st obtain s1 tr1 cr1 where
    ci: "tx_CreateIdempotent tx s (draft u key r st reason) = Inr (s1, tr1, cr1)"
    by (auto simp: create_tx_def m step_in_eq_Inr)
  then have "tr1 = tr \<and> cr1 = created"
    using assms src dst cur st by (auto simp: create_tx_def m step_in_eq_Inr split: if_splits)
  with assms src dst cur st ci show ?thesis
    by (intro that [OF m src(1) dst src(2) cur st])
      (auto simp: create_tx_def m step_in_eq_Inr split: if_splits)
qed

lemma Create_cases:
  assumes "Create svc u key r s = (s', res)"
  obtains (anonymous) "TrimSpace u = ''''" "s' = s" "res = Inl ErrForbidden"
    | (invalid) e where "TrimSpace u \<noteq> ''''" "CreateTransfer_Validate r = Inl e" "s' = s" "res = Inl e"
    | (ran) res' where "TrimSpace u \<noteq> ''''" "valid_request r"
        "WithinTx (svc_store svc) (\<lambda>tx. create_tx tx u key r) s = (s', res')"
        "res = map_error (Wrapped ''create transfer'') res'"
proof (cases "TrimSpace u = ''''")
  case True
  with assms show ?thesis by (intro that(1)) (simp_all add: Create_def)
next
  case blank: False
  show ?thesis
  proof (cases "CreateTransfer_Validate r")
    case (Inl e)
    with assms blank show ?thesis by (intro that(2) [of e]) (auto simp: Create_def)
  next
    case (Inr x)
    then have "valid_request r" using Validate_Inr_iff [of r] by simp
    moreover obtain t res' where "WithinTx (svc_store svc) (\<lambda>tx. create_tx tx u key r) s = (t, res')" by fastforce
    ultimately show ?thesis
      using assms blank Inr by (intro that(3) [of res']) (auto simp: Create_def split: sum.splits)
  qed
qed

subsection \<open>The service on any backend\<close>

locale transfer_backend =
  tx_repositories tx invar abs key_of + tx_manager_contract "svc_store svc" tx
  for tx :: "'s tx" and invar :: "'s \<Rightarrow> bool" and abs :: "'s \<Rightarrow> bank"
    and key_of :: "string \<Rightarrow> uuid option" and svc :: "'s transfer_service"
begin

text \<open>The two writes after a new, accepted transfer has been stored.\<close>

lemma moved_writes:
  assumes inv1: "invar s1" and adm: "admissible u r b src dst"
    and ids: "acc_id src = req_from_account_id r" "acc_id dst = req_to_account_id r"
    and money: "Debit src (req_amount r) = Inr src'" "Credit dst (req_amount r) = Inr dst'"
    and abs1: "abs s1 = store_transfer (u, k) tr r b"
    and save: "tx_SaveBalances tx s1 [src', dst'] = Inr s2"
    and app: "tx_Append tx s2 (entry_pair r tr src' dst') = Inr s'"
  shows "invar s' \<and> (\<exists>t. abs s' =
    \<lparr>bk_accounts = (bk_accounts b)
       (req_from_account_id r \<mapsto> src'\<lparr>acc_updated_at := t\<rparr>,
        req_to_account_id r \<mapsto> dst'\<lparr>acc_updated_at := t\<rparr>),
     bk_transfers = (bk_transfers b)((u, k) \<mapsto> (tr, r)),
     bk_ledger = bk_ledger b @ ledger_pair r tr src' dst'\<rparr>)"
proof -
  note m = moved_balances [OF money]
  have ne: "req_from_account_id r \<noteq> req_to_account_id r"
    using adm by (simp add: admissible_def valid_request_def)
  then have "distinct (map acc_id [src', dst'])"
    using m ids by simp
  with saves [OF inv1 save] obtain t where inv2: "invar s2"
    and abs2: "abs s2 = (abs s1)\<lparr>bk_accounts := save_accounts t [src', dst'] (bk_accounts (abs s1))\<rparr>"
    by blast
  have "tr_id tr \<in> transfer_ids (abs s2)"
    by (rule transfer_idsI [of _ "(u, k)" _ r]) (simp add: abs2 abs1 store_transfer_def)
  with appends [OF inv2 app] have "invar s'"
    and "abs s' = (abs s2)\<lparr>bk_ledger := bk_ledger (abs s2) @ entry_pair r tr src' dst'\<rparr>"
    by auto
  moreover have "save_accounts t [src', dst'] (bk_accounts b) = (bk_accounts b)
      (req_from_account_id r \<mapsto> src'\<lparr>acc_updated_at := t\<rparr>,
       req_to_account_id r \<mapsto> dst'\<lparr>acc_updated_at := t\<rparr>)"
    using adm ids money ne
    by (auto simp: save_accounts_def money_cases admissible_def fun_eq_iff split: option.split)
  moreover have "entry_pair r tr src' dst' = ledger_pair r tr src' dst'"
    using ids m by (simp add: ledger_pair_def)
  ultimately show ?thesis
    by (intro conjI exI [of _ t]) (simp_all add: abs2 abs1 store_transfer_def bank.equality)
qed

text \<open>The three ways in which the transaction succeeds, each a step of the bank.\<close>

definition tx_outcome :: "string \<Rightarrow> string \<Rightarrow> create_transfer \<Rightarrow> 's \<Rightarrow> 's \<Rightarrow> transfer \<Rightarrow> bool \<Rightarrow> bool" where
  "tx_outcome u key r s s' tr created \<longleftrightarrow> invar s' \<and>
     (\<exists>k oc. key_of key = Some k \<and> bank_step u k r (abs s) oc (abs s') \<and>
        tr = outcome_transfer oc \<and> created = outcome_created oc \<and> (\<not> created \<longrightarrow> s' = s))"

lemma replayed_tx:
  assumes inv: "invar s" and adm: "admissible u r (abs s) src dst"
    and ci: "tx_CreateIdempotent tx s (draft u key r st reason) = Inr (s1, tr, False)"
  shows "tx_outcome u key r s s1 tr False"
proof -
  from replays [OF inv] ci obtain k where "s1 = s" "key_of key = Some k"
    "bk_transfers (abs s) (u, k) = Some (tr, r)" by fastforce
  with adm inv show ?thesis
    unfolding tx_outcome_def
    by (intro conjI exI [of _ k] exI [of _ "Replayed tr"]) (auto intro: bank_step.replayed)
qed

lemma moved_tx:
  assumes inv: "invar s" and adm: "admissible u r (abs s) src dst"
    and money: "Debit src (req_amount r) = Inr src'" "Credit dst (req_amount r) = Inr dst'"
    and ci: "tx_CreateIdempotent tx s (draft u key r TransferStatusCompleted FailureReasonNone) = Inr (s1, tr, True)"
    and writes: "tx_SaveBalances tx s1 [src', dst'] = Inr s2" "tx_Append tx s2 (entry_pair r tr src' dst') = Inr s'"
  shows "tx_outcome u key r s s' tr True"
proof -
  from creates [OF inv ci] obtain k where k: "key_of key = Some k" and inv1: "invar s1"
    and rec: "records r TransferStatusCompleted FailureReasonNone tr"
    and fresh: "tr_id tr \<notin> transfer_ids (abs s)" and new: "bk_transfers (abs s) (u, k) = None"
    and abs1: "abs s1 = store_transfer (u, k) tr r (abs s)" by auto
  have ids: "acc_id src = req_from_account_id r" "acc_id dst = req_to_account_id r"
    using adm account_ids [OF inv] by (auto simp: admissible_def)
  from moved_writes [OF inv1 adm ids money abs1 writes] obtain t where inv': "invar s'" and abs': "abs s' =
      \<lparr>bk_accounts = (bk_accounts (abs s))
         (req_from_account_id r \<mapsto> src'\<lparr>acc_updated_at := t\<rparr>, req_to_account_id r \<mapsto> dst'\<lparr>acc_updated_at := t\<rparr>),
       bk_transfers = (bk_transfers (abs s))((u, k) \<mapsto> (tr, r)),
       bk_ledger = bk_ledger (abs s) @ ledger_pair r tr src' dst'\<rparr>" by blast
  have "bank_step u k r (abs s) (Moved tr) (abs s')"
    using bank_step.moved [OF adm money new fresh rec abs'] .
  with k inv' show ?thesis by (fastforce simp: tx_outcome_def)
qed

lemma declined_tx:
  assumes inv: "invar s" and adm: "admissible u r (abs s) src dst"
    and funds: "Debit src (req_amount r) = Inl ErrInsufficientFunds"
    and ci: "tx_CreateIdempotent tx s (draft u key r TransferStatusFailed FailureReasonInsufficientFunds) = Inr (s1, tr, True)"
  shows "tx_outcome u key r s s1 tr True"
proof -
  from creates [OF inv ci] obtain k where k: "key_of key = Some k" and inv1: "invar s1"
    and rec: "records r TransferStatusFailed FailureReasonInsufficientFunds tr"
    and fresh: "tr_id tr \<notin> transfer_ids (abs s)" and new: "bk_transfers (abs s) (u, k) = None"
    and abs1: "abs s1 = store_transfer (u, k) tr r (abs s)" by auto
  have "bank_step u k r (abs s) (Declined tr) (abs s1)"
    using rec by (intro bank_step.declined [OF adm funds new fresh]) (simp_all add: abs1 store_transfer_def)
  with k inv1 show ?thesis by (fastforce simp: tx_outcome_def)
qed

lemma create_tx_steps:
  assumes inv: "invar s" and valid: "valid_request r"
    and run: "create_tx tx u key r s = (s', Inr (tr, created))"
  shows "tx_outcome u key r s s' tr created"
  using run
proof (cases rule: create_tx_InrE)
  case (1 m src dst st reason src' dst' s1)
  have adm: "admissible u r (abs s) src dst"
    using locks [OF inv 1(1)] 1(2-6) valid by (simp add: admissible_def)
  show ?thesis
  proof (cases created)
    case False
    with replayed_tx [OF inv adm] 1(8,9) show ?thesis by auto
  next
    case True
    with creates [OF inv, of "draft u key r st reason" s1 tr] 1(8) have "tr_status tr = st"
      by (auto simp: records_def)
    with True moved_tx [OF inv adm] declined_tx [OF inv adm] 1(7-9) show ?thesis
      by (auto simp: settle_eq_Inr)
  qed
qed

text \<open>One call, however it ends: refused without a trace, or one step of the bank.\<close>

lemma Create_refines:
  assumes inv: "invar s" and run: "Create svc u key r s = (s', res)"
  shows "invar s' \<and>
    ((s' = s \<and> (\<exists>e. res = Inl e)) \<or>
     (\<exists>k oc. key_of key = Some k \<and> bank_step u k r (abs s) oc (abs s') \<and>
       (\<not> outcome_created oc \<longrightarrow> s' = s) \<and>
       (res = Inr (outcome_transfer oc, outcome_created oc) \<or> (\<exists>e. res = Inl e))))"
  using run
proof (cases rule: Create_cases)
  case (ran res')
  from ran(3) show ?thesis
  proof (cases rule: outcome_cases)
    case (committed x)
    then show ?thesis
      using create_tx_steps [OF inv ran(2), of u key s' "fst x" "snd x", unfolded tx_outcome_def] ran(4)
      by (cases x) fastforce
  next
    case (unacknowledged x e)
    then show ?thesis
      using create_tx_steps [OF inv ran(2), of u key s' "fst x" "snd x", unfolded tx_outcome_def] ran(4) by auto
  next
    case (untouched e)
    then show ?thesis using inv ran(4) by auto
  qed
qed (use inv in auto)

lemma Create_invar: "invar s \<Longrightarrow> invar (fst (Create svc u key r s))"
  using Create_refines [of s u key r] by (cases "Create svc u key r s") auto

lemma Create_run: "invar s \<Longrightarrow> bank_run (abs s) (abs (fst (Create svc u key r s)))"
  using Create_refines [of s u key r]
  by (cases "Create svc u key r s") (auto intro: bank_run.intros)

lemma Create_success:
  assumes "invar s" and "Create svc u key r s = (s', Inr (tr, created))"
  shows "\<exists>k oc. key_of key = Some k \<and> bank_step u k r (abs s) oc (abs s') \<and>
    tr = outcome_transfer oc \<and> created = outcome_created oc"
  using Create_refines [OF assms] by auto

end

end
