(* ===== verification/Repositories.thy ===== *)
theory Repositories
  imports Postgres Transfer_Service
begin

text \<open>
  \<^verbatim>\<open>internal/repository\<close>: the pgx implementation of the interfaces of \<^verbatim>\<open>Contracts\<close>, one
  definition per method, and \<open>Store_WithinTx\<close>. The invariant \<open>db_ok\<close> is what the constraints
  of the schema and \<open>CreateIdempotent\<close> maintain; with it the two contract locales are
  interpreted, so every result about \<open>Create\<close> on any backend holds for PostgreSQL.
\<close>

subsection \<open>Accounts\<close>

definition LockForTransfer ::
  "pg \<Rightarrow> pg_call \<Rightarrow> db \<Rightarrow> string list \<Rightarrow> go_error + (string \<rightharpoonup> account)" where
  "LockForTransfer P c db accountIDs =
     (let ids = slices_Compact (slices_Sort accountIDs) in
      case exec c StmtLockAccounts (sql_lock_accounts P db ids) of
        Inl e \<Rightarrow> Inl (Wrapped ''lock accounts'' e)
      | Inr accounts \<Rightarrow>
          Inr (fold (\<lambda>a m. m(acc_id a \<mapsto> a)) accounts Map.empty))"

definition SaveBalances :: "pg_call \<Rightarrow> db \<Rightarrow> account list \<Rightarrow> go_error + db" where
  "SaveBalances c db accounts =
     (case exec c StmtSaveBalances
             (sql_update_balances c db (map acc_id accounts) (map acc_balance accounts)) of
        Inl e \<Rightarrow> Inl (Wrapped ''save balances'' e)
      | Inr (db', affected) \<Rightarrow>
          if affected \<noteq> length accounts
          then Inl (ErrorsNew ''save balances: updated some of the accounts'')
          else Inr db')"

definition FindOwned :: "pg_call \<Rightarrow> db \<Rightarrow> string \<Rightarrow> string \<Rightarrow> go_error + account" where
  "FindOwned c db userID accountID =
     (case exec c StmtFindOwned (sql_find_owned db accountID userID) of
        Inl e \<Rightarrow> Inl (Wrapped ''find account'' e)
      | Inr [] \<Rightarrow> Inl ErrNotFound
      | Inr [a] \<Rightarrow> Inr a
      | Inr _ \<Rightarrow> Inl (Wrapped ''find account'' (DbError ''too many rows in result set'')))"

definition ListByUser :: "pg \<Rightarrow> pg_call \<Rightarrow> db \<Rightarrow> string \<Rightarrow> go_error + account list" where
  "ListByUser P c db userID =
     (case exec c StmtListByUser (sql_list_by_user P db userID) of
        Inl e \<Rightarrow> Inl (Wrapped ''list accounts'' e)
      | Inr accounts \<Rightarrow> Inr accounts)"

subsection \<open>Transfers\<close>

definition parseKey :: "pg \<Rightarrow> string \<Rightarrow> go_error + uuid" where
  "parseKey P raw =
     (case pg_uuid_scan P raw of
        None \<Rightarrow> Inl (Wrapped ''idempotency key must be a nonzero UUID'' ErrInvalidTransfer)
      | Some key \<Rightarrow>
          if key = 0 then Inl (Wrapped ''idempotency key must be a nonzero UUID'' ErrInvalidTransfer)
          else Inr key)"

text \<open>The columns of \<^verbatim>\<open>transferColumns\<close> as they are scanned into a \<open>transfer\<close>.\<close>

definition transfer_of_row :: "pg \<Rightarrow> transfers_row \<Rightarrow> transfer" where
  "transfer_of_row P t =
     \<lparr>tr_id = pg_uuid_text P (tw_id t), tr_idempotency_key = pg_uuid_text P (tw_idempotency_key t),
      tr_from_account_id = tw_from_account_id t, tr_to_account_id = tw_to_account_id t,
      tr_amount = tw_amount t, tr_currency = tw_currency t, tr_description = tw_description t,
      tr_status = tw_status t,
      tr_failure_reason = (case tw_failure_reason t of None \<Rightarrow> '''' | Some r \<Rightarrow> r),
      tr_created_at = tw_created_at t, tr_updated_at = tw_updated_at t\<rparr>"

definition scanTransfer :: "pg \<Rightarrow> transfers_row \<Rightarrow> go_error + (transfer \<times> create_transfer)" where
  "scanTransfer P row =
     (case unmarshal_create_transfer (tw_original_request row) of
        Inl e \<Rightarrow> Inl (Wrapped ''decode original request'' e)
      | Inr original \<Rightarrow> Inr (transfer_of_row P row, original))"

definition replay ::
  "transfer \<Rightarrow> create_transfer \<Rightarrow> create_transfer \<Rightarrow> go_error + (transfer \<times> bool)" where
  "replay transfer original request =
     (if original \<noteq> request then Inl ErrIdempotencyConflict else Inr (transfer, False))"

text \<open>
  \<open>insert_new\<close> is the \<^verbatim>\<open>INSERT\<close> with its scan, \<open>find_existing\<close> the \<^verbatim>\<open>SELECT\<close> of the row that
  holds the key, scanned and compared.
\<close>

definition insert_new :: "pg \<Rightarrow> pg_call \<Rightarrow> db \<Rightarrow> new_transfer \<Rightarrow> uuid \<Rightarrow> go_error + (db \<times> transfer)" where
  "insert_new P c db t key =
     (let payload = marshal_create_transfer (nt_request t) in
      and_then (exec c StmtInsertTransfer
          (sql_insert_transfer db (transfers_values P c t key payload)))
        (\<lambda>(db', row). and_then (scanTransfer P row) (\<lambda>(transfer, _). Inr (db', transfer))))"

definition find_existing :: "pg \<Rightarrow> pg_call \<Rightarrow> db \<Rightarrow> new_transfer \<Rightarrow> uuid \<Rightarrow> go_error + (transfer \<times> bool)" where
  "find_existing P c db t key =
     (case and_then (exec c StmtFindExisting (sql_transfer_by_key db (nt_user_id t) key))
             (scanTransfer P) of
        Inl e \<Rightarrow> Inl (Wrapped ''find existing transfer'' e)
      | Inr (transfer, original) \<Rightarrow> replay transfer original (nt_request t))"

definition CreateIdempotent ::
  "pg \<Rightarrow> pg_call \<Rightarrow> db \<Rightarrow> new_transfer \<Rightarrow> go_error + (db \<times> transfer \<times> bool)" where
  "CreateIdempotent P c db t =
     and_then (parseKey P (nt_idempotency_key t)) (\<lambda>key.
       case insert_new P c db t key of
         Inr (db', transfer) \<Rightarrow> Inr (db', transfer, True)
       | Inl e \<Rightarrow>
           if \<not> errors_Is e ErrNoRows then Inl (Wrapped ''insert transfer'' e)
           else and_then (find_existing P c db t key)
             (\<lambda>(transfer, created). Inr (db, transfer, created)))"

definition FindByID :: "pg \<Rightarrow> pg_call \<Rightarrow> db \<Rightarrow> string \<Rightarrow> string \<Rightarrow> go_error + transfer" where
  "FindByID P c db userID transferID =
     (case pg_uuid_scan P transferID of
        None \<Rightarrow> Inl ErrNotFound
      | Some tid \<Rightarrow>
          (case and_then (exec c StmtFindTransfer (sql_transfer_by_id db tid userID))
                  (scanTransfer P) of
             Inl e \<Rightarrow> if errors_Is e ErrNoRows then Inl ErrNotFound
                      else Inl (Wrapped ''find transfer'' e)
           | Inr (transfer, _) \<Rightarrow> Inr transfer))"

subsection \<open>Ledger and users\<close>

definition Append :: "pg \<Rightarrow> pg_call \<Rightarrow> db \<Rightarrow> ledger_entry list \<Rightarrow> go_error + db" where
  "Append P c db entries =
     map_error (Wrapped ''append ledger entries'')
       (exec c StmtAppendLedger (sql_insert_ledger P c db entries))"

definition FindByEmail :: "pg \<Rightarrow> pg_call \<Rightarrow> db \<Rightarrow> string \<Rightarrow> go_error + user" where
  "FindByEmail P c db email =
     (case exec c StmtFindByEmail (sql_find_by_email P db email) of
        Inl e \<Rightarrow> if errors_Is e ErrNoRows then Inl ErrNotFound else Inl (Wrapped ''find user'' e)
      | Inr user \<Rightarrow> Inr user)"

subsection \<open>Transactions\<close>

text \<open>
  \<^verbatim>\<open>pgx.BeginTxFunc\<close> begins a transaction, runs the function, rolls back when it returns an
  error, dropping what the function has written, and commits otherwise; the error of a failed
  commit is returned to the caller.
\<close>

definition Store_WithinTx ::
  "pg_call \<Rightarrow> (db \<Rightarrow> db \<times> (go_error + 'r)) \<Rightarrow> db \<Rightarrow> db \<times> (go_error + 'r)" where
  "Store_WithinTx c fn db =
     (case exec c StmtBegin (Inr ()) of
        Inl e \<Rightarrow> (db, Inl e)
      | Inr _ \<Rightarrow>
          (case fn db of
             (_, Inl e) \<Rightarrow> (db, Inl e)
           | (db', Inr x) \<Rightarrow>
               (case call_commit c of
                  Committed \<Rightarrow> (db', Inr x)
                | CommitRefused m \<Rightarrow> (db, Inl (DbError m))
                | CommitUnacknowledged m \<Rightarrow> (db', Inl (DbError m)))))"

text \<open>
  The repository objects, over the connection pool or over a transaction: both are a \<^verbatim>\<open>querier\<close>
  and run the same statements.
\<close>

definition NewAccountRepository :: "pg \<Rightarrow> pg_call \<Rightarrow> db account_repository" where
  "NewAccountRepository P c =
     \<lparr>ar_LockForTransfer = LockForTransfer P c, ar_SaveBalances = SaveBalances c,
      ar_FindOwned = FindOwned c, ar_ListByUser = ListByUser P c\<rparr>"

definition NewTransferRepository :: "pg \<Rightarrow> pg_call \<Rightarrow> db transfer_repository" where
  "NewTransferRepository P c = \<lparr>xr_CreateIdempotent = CreateIdempotent P c, xr_FindByID = FindByID P c\<rparr>"

definition LedgerRepository :: "pg \<Rightarrow> pg_call \<Rightarrow> db ledger_repository" where
  "LedgerRepository P c = \<lparr>gr_Append = Append P c\<rparr>"

definition NewUserRepository :: "pg \<Rightarrow> pg_call \<Rightarrow> db user_repository" where
  "NewUserRepository P c = \<lparr>ur_FindByEmail = FindByEmail P c\<rparr>"

lemma repository_methods [simp]:
  "ar_LockForTransfer (NewAccountRepository P c) = LockForTransfer P c"
  "ar_SaveBalances (NewAccountRepository P c) = SaveBalances c"
  "ar_FindOwned (NewAccountRepository P c) = FindOwned c"
  "ar_ListByUser (NewAccountRepository P c) = ListByUser P c"
  "xr_CreateIdempotent (NewTransferRepository P c) = CreateIdempotent P c"
  "xr_FindByID (NewTransferRepository P c) = FindByID P c"
  "gr_Append (LedgerRepository P c) = Append P c"
  "ur_FindByEmail (NewUserRepository P c) = FindByEmail P c"
  by (simp_all add: NewAccountRepository_def NewTransferRepository_def LedgerRepository_def NewUserRepository_def)

definition txRepositories :: "pg \<Rightarrow> pg_call \<Rightarrow> db tx" where
  "txRepositories P c =
     \<lparr>tx_Accounts = NewAccountRepository P c, tx_Transfers = NewTransferRepository P c,
      tx_Ledger = LedgerRepository P c\<rparr>"

definition NewStore :: "pg \<Rightarrow> pg_call \<Rightarrow> db tx_manager" where
  "NewStore P c = \<lparr>WithinTx = (\<lambda>fn. Store_WithinTx c (fn (txRepositories P c)))\<rparr>"

text \<open>The transfer service as \<^verbatim>\<open>cmd/api/main.go\<close> builds it.\<close>

definition pg_transfer_service :: "pg \<Rightarrow> pg_call \<Rightarrow> db transfer_service" where
  "pg_transfer_service P c = NewTransferService (NewStore P c) (NewTransferRepository P c)"

lemma pg_transfer_service_sel [simp]:
  "svc_store (pg_transfer_service P c) = NewStore P c" "svc_reads (pg_transfer_service P c) = NewTransferRepository P c"
  by (simp_all add: pg_transfer_service_def NewTransferService_def)

interpretation pg_store: tx_manager_contract "NewStore P c" "txRepositories P c" for P c
  by unfold_locales
    (auto simp: NewStore_def Store_WithinTx_def exec_def split: option.splits sum.splits
      prod.splits commit_outcome.splits)

subsection \<open>The invariant of the database\<close>

definition request_of_row :: "transfers_row \<Rightarrow> create_transfer" where
  "request_of_row t =
     \<lparr>req_from_account_id = tw_from_account_id t, req_to_account_id = tw_to_account_id t,
      req_amount = tw_amount t, req_currency = tw_currency t, req_description = tw_description t\<rparr>"

definition row_key :: "transfers_row \<Rightarrow> transfer_key" where
  "row_key t = (tw_user_id t, tw_idempotency_key t)"

definition entry_of_row :: "pg \<Rightarrow> ledger_row \<Rightarrow> ledger_entry" where
  "entry_of_row P l =
     \<lparr>le_transfer_id = pg_uuid_text P (lw_transfer_id l), le_account_id = lw_account_id l,
      le_amount = lw_amount l, le_balance_after = lw_balance_after l\<rparr>"

definition db_ok :: "db \<Rightarrow> bool" where
  "db_ok db \<longleftrightarrow>
     distinct (map acc_id (db_accounts db)) \<and> list_all accounts_check (db_accounts db) \<and>
     distinct (map tw_id (db_transfers db)) \<and> distinct (map row_key (db_transfers db)) \<and>
     list_all (\<lambda>t. unmarshal_create_transfer (tw_original_request t) = Inr (request_of_row t))
       (db_transfers db)"

definition pg_inv :: "pg \<Rightarrow> db \<Rightarrow> bool" where
  "pg_inv P db \<longleftrightarrow> pg_documented P \<and> db_ok db"

definition account_at :: "db \<Rightarrow> string \<Rightarrow> account option" where
  "account_at db i = List.find (\<lambda>a. acc_id a = i) (db_accounts db)"

definition transfer_at :: "pg \<Rightarrow> db \<Rightarrow> transfer_key \<Rightarrow> stored_transfer option" where
  "transfer_at P db k =
     map_option (\<lambda>t. (transfer_of_row P t, request_of_row t))
       (List.find (\<lambda>t. row_key t = k) (db_transfers db))"

definition db_bank :: "pg \<Rightarrow> db \<Rightarrow> bank" where
  "db_bank P db =
     \<lparr>bk_accounts = account_at db, bk_transfers = transfer_at P db,
      bk_ledger = map (entry_of_row P) (db_ledger db)\<rparr>"

definition key_of :: "pg \<Rightarrow> string \<Rightarrow> uuid option" where
  "key_of P raw = (case parseKey P raw of Inl _ \<Rightarrow> None | Inr k \<Rightarrow> Some k)"

lemma db_bank_simps [simp]:
  "bk_accounts (db_bank P db) = account_at db" "bk_transfers (db_bank P db) = transfer_at P db"
  "bk_ledger (db_bank P db) = map (entry_of_row P) (db_ledger db)"
  by (simp_all add: db_bank_def)

lemma account_at_id: "account_at db i = Some a \<Longrightarrow> acc_id a = i \<and> a \<in> set (db_accounts db)"
  by (auto simp: account_at_def find_Some_iff)

lemma account_at_iff:
  "db_ok db \<Longrightarrow> account_at db i = Some a \<longleftrightarrow> a \<in> set (db_accounts db) \<and> acc_id a = i"
  using find_key_distinct [of acc_id "db_accounts db" a]
  by (auto simp: db_ok_def account_at_def find_Some_iff)

lemma account_at_member: "db_ok db \<Longrightarrow> a \<in> set (db_accounts db) \<Longrightarrow> account_at db (acc_id a) = Some a"
  by (simp add: account_at_iff)

lemma account_at_None: "account_at db i = None \<longleftrightarrow> i \<notin> acc_id ` set (db_accounts db)"
  by (auto simp: account_at_def find_None_iff)

subsection \<open>LockForTransfer\<close>

lemma fold_upd_other:
  "i \<notin> acc_id ` set as \<Longrightarrow> fold (\<lambda>a m. m(acc_id a \<mapsto> a)) as m i = m i"
  by (induction as arbitrary: m) auto

lemma fold_upd_member:
  "distinct (map acc_id as) \<Longrightarrow> a \<in> set as \<Longrightarrow>
   fold (\<lambda>a m. m(acc_id a \<mapsto> a)) as m (acc_id a) = Some a"
  by (induction as arbitrary: m) (auto simp: fold_upd_other image_iff)

lemma LockForTransfer_eq:
  assumes ok: "db_ok db" and lock: "LockForTransfer P c db ids = Inr m"
  shows "m i = (if i \<in> set ids then account_at db i else None)"
proof -
  define rows where "rows = sort_by (pg_collate_le P) acc_id
    (filter (\<lambda>a. acc_id a \<in> set ids) (db_accounts db))"
  have m: "m = fold (\<lambda>a m. m(acc_id a \<mapsto> a)) rows Map.empty"
    using lock by (auto simp: LockForTransfer_def Let_def sql_lock_accounts_def rows_def
      split: sum.splits if_splits)
  have dist: "distinct (map acc_id rows)"
    using ok by (simp add: rows_def db_ok_def distinct_map_filter)
  show ?thesis
  proof (cases "\<exists>a \<in> set rows. acc_id a = i")
    case True
    then obtain a where a: "a \<in> set rows" "acc_id a = i" by blast
    with fold_upd_member [OF dist a(1)] have "m i = Some a" by (simp add: m)
    moreover have "account_at db i = Some a" "i \<in> set ids"
      using a ok by (auto simp: rows_def account_at_iff)
    ultimately show ?thesis by simp
  next
    case False
    then have "m i = None" by (subst m, subst fold_upd_other) auto
    moreover from False have "account_at db i = None" if "i \<in> set ids"
      using that by (auto simp: rows_def account_at_None)
    ultimately show ?thesis by simp
  qed
qed

subsection \<open>SaveBalances\<close>

lemma SaveBalances_eq:
  assumes "SaveBalances c db as = Inr db'"
  shows "db' = db\<lparr>db_accounts := map (\<lambda>a. case map_of (zip (map acc_id as) (map acc_balance as)) (acc_id a) of
      None \<Rightarrow> a | Some n \<Rightarrow> a\<lparr>acc_balance := n, acc_updated_at := call_now c\<rparr>) (db_accounts db)\<rparr>"
    and "list_all (\<lambda>a. 0 \<le> sint (acc_balance a)) (db_accounts db')"
  using assms
  by (auto simp: SaveBalances_def sql_update_balances_def Let_def split: sum.splits if_splits)

lemma SaveBalances_account_at:
  assumes "SaveBalances c db as = Inr db'"
  shows "account_at db' = save_accounts (call_now c) as (account_at db)"
proof
  fix i
  let ?v = "map_of (zip (map acc_id as) (map acc_balance as))"
  let ?g = "\<lambda>a. case ?v (acc_id a) of None \<Rightarrow> a
    | Some n \<Rightarrow> a\<lparr>acc_balance := n, acc_updated_at := call_now c\<rparr>"
  have v: "?v = map_of (map (\<lambda>a. (acc_id a, acc_balance a)) as)"
    by (simp add: zip_map_same)
  have rows: "db_accounts db' = map ?g (db_accounts db)"
    by (simp add: SaveBalances_eq(1) [OF assms])
  have "account_at db' i = map_option ?g (account_at db i)"
    unfolding account_at_def rows by (rule find_map_same_key) (simp split: option.split)
  then show "account_at db' i = save_accounts (call_now c) as (account_at db) i"
    by (auto simp: save_accounts_def v dest: account_at_id split: option.splits)
qed

lemma SaveBalances_ok:
  assumes ok: "db_ok db" and save: "SaveBalances c db as = Inr db'"
  shows "db_ok db'"
proof -
  note eq = SaveBalances_eq(1) [OF save]
  have ids: "map acc_id (db_accounts db') = map acc_id (db_accounts db)"
    by (simp add: eq split: option.split)
  have "accounts_check a'" if a': "a' \<in> set (db_accounts db')" for a'
  proof -
    from a' obtain a where a: "a \<in> set (db_accounts db)" and
      same: "acc_id a' = acc_id a" "acc_user_id a' = acc_user_id a" "acc_currency a' = acc_currency a"
      by (auto simp: eq split: option.splits)
    moreover have "0 \<le> sint (acc_balance a')"
      using SaveBalances_eq(2) [OF save] a' by (simp add: list_all_iff)
    ultimately show ?thesis using ok by (auto simp: db_ok_def accounts_check_def list_all_iff)
  qed
  moreover have "db_transfers db' = db_transfers db" by (simp add: eq)
  ultimately show ?thesis using ok ids by (simp add: db_ok_def list_all_iff)
qed

subsection \<open>CreateIdempotent\<close>

lemma key_of_Some: "key_of P raw = Some k \<longleftrightarrow> parseKey P raw = Inr k"
  by (auto simp: key_of_def split: sum.splits)

lemma parseKey_Inr: "parseKey P raw = Inr k \<longleftrightarrow> pg_uuid_scan P raw = Some k \<and> k \<noteq> 0"
  by (auto simp: parseKey_def split: option.splits if_splits)

lemma list_ex_row_key:
  "list_ex (\<lambda>t'. tw_user_id t' = tw_user_id t \<and> tw_idempotency_key t' = tw_idempotency_key t) ts
    \<longleftrightarrow> row_key t \<in> row_key ` set ts"
  by (auto simp: list_ex_iff row_key_def image_iff) metis

lemma sql_insert_transfer_Inr:
  "sql_insert_transfer db t = Inr (db', t') \<longleftrightarrow>
     list_all pg_text (transfers_texts t) \<and> transfers_check t \<and>
     row_key t \<notin> row_key ` set (db_transfers db) \<and> tw_id t \<notin> tw_id ` set (db_transfers db) \<and>
     tw_from_account_id t \<in> acc_id ` set (db_accounts db) \<and>
     tw_to_account_id t \<in> acc_id ` set (db_accounts db) \<and>
     db' = db\<lparr>db_transfers := db_transfers db @ [t]\<rparr> \<and> t' = t"
  by (auto simp: sql_insert_transfer_def list_ex_key list_ex_row_key)

lemma transfers_values_request [simp]: "request_of_row (transfers_values P c t key payload) = nt_request t"
  by (simp add: request_of_row_def transfers_values_def)

lemma transfers_values_key [simp]: "row_key (transfers_values P c t key payload) = (nt_user_id t, key)"
  by (simp add: row_key_def transfers_values_def)

text \<open>What was stored as the original request decodes to the request.\<close>

lemma transfers_values_decodes:
  assumes doc: "pg_documented P"
    and texts: "list_all pg_text (transfers_texts (transfers_values P c t key payload))"
    and payload: "payload = marshal_create_transfer (nt_request t)"
  shows "unmarshal_create_transfer (tw_original_request (transfers_values P c t key payload))
    = Inr (nt_request t)"
proof -
  have "list_all pg_text [req_from_account_id (nt_request t), req_to_account_id (nt_request t),
      req_currency (nt_request t), req_description (nt_request t)]"
    using texts by (simp add: transfers_texts_def transfers_values_def)
  with doc show ?thesis
    by (simp add: transfers_values_def payload pg_documented_def stored_members_decode)
qed

text \<open>\<open>CreateIdempotent\<close> in its two successful forms, in terms of rows.\<close>

lemma find_existing_Inr:
  "find_existing P c db t key = Inr (tr, created) \<longleftrightarrow>
     call_fault c StmtFindExisting = None \<and> \<not> created \<and>
     (\<exists>row. sql_transfer_by_key db (nt_user_id t) key = Inr row \<and>
        scanTransfer P row = Inr (tr, nt_request t))"
  by (auto simp: find_existing_def replay_def result_simps exec_no_fault split: sum.splits prod.splits)

lemma insert_new_Inr:
  assumes "insert_new P c db t key = Inr (db', tr)"
  shows "sql_insert_transfer db (transfers_values P c t key (marshal_create_transfer (nt_request t)))
      = Inr (db', transfers_values P c t key (marshal_create_transfer (nt_request t)))"
    and "tr = transfer_of_row P (transfers_values P c t key (marshal_create_transfer (nt_request t)))"
  using assms
  by (auto simp: insert_new_def Let_def result_simps scanTransfer_def sql_insert_transfer_Inr
      split: sum.splits prod.splits)

lemma CreateIdempotent_Inr:
  "CreateIdempotent P c db t = Inr (db', tr, created) \<longleftrightarrow>
     (\<exists>key. parseKey P (nt_idempotency_key t) = Inr key \<and>
        (created \<and> insert_new P c db t key = Inr (db', tr) \<or>
         \<not> created \<and> db' = db \<and> find_existing P c db t key = Inr (tr, False) \<and>
           (\<exists>e. insert_new P c db t key = Inl e \<and> errors_Is e ErrNoRows)))"
  by (cases "parseKey P (nt_idempotency_key t)";
      cases "insert_new P c db t (projr (parseKey P (nt_idempotency_key t)))")
    (auto simp: CreateIdempotent_def result_simps find_existing_Inr split: prod.splits)

subsection \<open>The repositories keep their contract\<close>

lemma uuid_text_inj: "uuid_round_trip P \<Longrightarrow> pg_uuid_text P u = pg_uuid_text P v \<longleftrightarrow> u = v"
  unfolding uuid_round_trip_def by (metis option.inject)

lemma transfer_at_Some:
  "db_ok db \<Longrightarrow> transfer_at P db k = Some x \<longleftrightarrow>
     (\<exists>t \<in> set (db_transfers db). row_key t = k \<and> x = (transfer_of_row P t, request_of_row t))"
  using find_key_distinct [of row_key "db_transfers db"]
  by (auto simp: transfer_at_def db_ok_def find_Some_iff) metis+

lemma transfer_at_None: "transfer_at P db k = None \<longleftrightarrow> k \<notin> row_key ` set (db_transfers db)"
  by (auto simp: transfer_at_def find_None_iff)

lemma transfer_ids_db:
  assumes "db_ok db"
  shows "transfer_ids (db_bank P db) = (pg_uuid_text P \<circ> tw_id) ` set (db_transfers db)"
proof -
  have "ran (transfer_at P db) = (\<lambda>t. (transfer_of_row P t, request_of_row t)) ` set (db_transfers db)"
    by (auto simp: ran_def transfer_at_Some [OF assms] simp del: split_paired_Ex)
  then show ?thesis
    by (simp add: transfer_ids_def image_image transfer_of_row_def)
qed

lemma CreateIdempotent_new:
  assumes inv: "pg_inv P db" and new: "CreateIdempotent P c db d = Inr (db', tr, True)"
  shows "pg_inv P db' \<and> tr_id tr \<notin> transfer_ids (db_bank P db) \<and>
    records (nt_request d) (nt_status d) (nt_failure_reason d) tr \<and>
    (\<exists>k. key_of P (nt_idempotency_key d) = Some k \<and>
      bk_transfers (db_bank P db) (nt_user_id d, k) = None \<and>
      db_bank P db' = store_transfer (nt_user_id d, k) tr (nt_request d) (db_bank P db))"
proof -
  from inv have doc: "pg_documented P" and ok: "db_ok db" by (simp_all add: pg_inv_def)
  from new obtain key where key: "parseKey P (nt_idempotency_key d) = Inr key"
    and ins: "insert_new P c db d key = Inr (db', tr)" by (auto simp: CreateIdempotent_Inr)
  define row where "row = transfers_values P c d key (marshal_create_transfer (nt_request d))"
  have row: "row_key row = (nt_user_id d, key)" "request_of_row row = nt_request d"
    by (simp_all add: row_def)
  have tr: "tr = transfer_of_row P row" and sql: "sql_insert_transfer db row = Inr (db', row)"
    using insert_new_Inr [OF ins] by (simp_all add: row_def)
  then have texts: "list_all pg_text (transfers_texts row)"
    and fresh: "row_key row \<notin> row_key ` set (db_transfers db)" "tw_id row \<notin> tw_id ` set (db_transfers db)"
    and db': "db' = db\<lparr>db_transfers := db_transfers db @ [row]\<rparr>"
    by (simp_all add: sql_insert_transfer_Inr)
  have dec: "unmarshal_create_transfer (tw_original_request row) = Inr (request_of_row row)"
    using transfers_values_decodes [OF doc] texts row by (simp add: row_def)
  have "db_ok db'" using ok fresh dec by (simp add: db_ok_def db')
  moreover have "tr_id tr \<notin> transfer_ids (db_bank P db)"
    using doc fresh(2)
    by (auto simp: transfer_ids_db [OF ok] tr transfer_of_row_def pg_documented_def uuid_text_inj image_iff)
  moreover have "records (nt_request d) (nt_status d) (nt_failure_reason d) tr"
    by (simp add: tr row_def transfer_of_row_def transfers_values_def records_def)
  moreover have "transfer_at P db' = (transfer_at P db)((nt_user_id d, key) \<mapsto> (tr, nt_request d))"
  proof
    fix k
    show "transfer_at P db' k = ((transfer_at P db)((nt_user_id d, key) \<mapsto> (tr, nt_request d))) k"
      using fresh(1) transfer_at_None [of P db "row_key row"]
      by (auto simp: transfer_at_def db' find_append row tr split: option.split)
  qed
  moreover have "account_at db' = account_at db" by (simp add: account_at_def db' fun_eq_iff)
  ultimately show ?thesis
    using doc key fresh(1) row
    by (auto simp: pg_inv_def key_of_Some transfer_at_None db_bank_def store_transfer_def db')
qed

lemma CreateIdempotent_old:
  assumes inv: "pg_inv P db" and old: "CreateIdempotent P c db d = Inr (db', tr, False)"
  shows "db' = db \<and> (\<exists>k. key_of P (nt_idempotency_key d) = Some k \<and>
    bk_transfers (db_bank P db) (nt_user_id d, k) = Some (tr, nt_request d))"
proof -
  from inv have ok: "db_ok db" by (simp add: pg_inv_def)
  from old obtain key row where key: "parseKey P (nt_idempotency_key d) = Inr key" and "db' = db"
    and sel: "sql_transfer_by_key db (nt_user_id d) key = Inr row"
    and scan: "scanTransfer P row = Inr (tr, nt_request d)"
    by (auto simp: CreateIdempotent_Inr find_existing_Inr)
  from sel have "row \<in> set (filter (\<lambda>t. tw_user_id t = nt_user_id d \<and> tw_idempotency_key t = key) (db_transfers db))"
    by (auto simp: sql_transfer_by_key_def split: if_splits dest!: first_row_Inr)
  then have row: "row \<in> set (db_transfers db)" "row_key row = (nt_user_id d, key)"
    by (auto simp: row_key_def)
  with ok scan have "tr = transfer_of_row P row" "nt_request d = request_of_row row"
    by (auto simp: scanTransfer_def db_ok_def list_all_iff)
  with row \<open>db' = db\<close> key show ?thesis
    by (auto simp: key_of_Some transfer_at_Some [OF ok])
qed

lemma Append_rows:
  assumes inv: "pg_inv P db" and app: "Append P c db es = Inr db'"
    and ids: "\<forall>e \<in> set es. le_transfer_id e \<in> transfer_ids (db_bank P db)"
  shows "pg_inv P db' \<and> db_bank P db' = (db_bank P db)\<lparr>bk_ledger := bk_ledger (db_bank P db) @ es\<rparr>"
proof -
  from inv have rt: "uuid_round_trip P" and ok: "db_ok db" by (simp_all add: pg_inv_def pg_documented_def)
  from app obtain rows where rows: "map (ledger_value P c) es = map Some rows"
    and db': "db' = db\<lparr>db_ledger := db_ledger db @ rows\<rparr>"
    by (auto simp: Append_def sql_insert_ledger_def those_eq_Some split: option.splits if_splits)
  have entry: "map_option (entry_of_row P) (ledger_value P c e) = Some e" if "e \<in> set es" for e
    using that ids rt
    by (auto simp: transfer_ids_db [OF ok] ledger_value_def entry_of_row_def uuid_round_trip_def)
  have "map Some (map (entry_of_row P) rows) = map (map_option (entry_of_row P)) (map Some rows)"
    by simp
  also have "\<dots> = map Some es"
    unfolding rows [symmetric] using entry by simp
  finally have "map (entry_of_row P) rows = es"
    by (metis inj_map_eq_map inj_Some)
  moreover have "account_at db' = account_at db" "transfer_at P db' = transfer_at P db" "db_ok db'"
    using ok by (simp_all add: account_at_def transfer_at_def db_ok_def db' fun_eq_iff)
  ultimately show ?thesis
    using inv by (simp add: pg_inv_def db_bank_def db')
qed

interpretation pg_repositories: tx_repositories "txRepositories P c" "pg_inv P" "db_bank P" "key_of P"
  for P c
proof unfold_locales
  fix s ids m i
  assume "pg_inv P s" "tx_LockForTransfer (txRepositories P c) s ids = Inr m" "i \<in> set ids"
  then show "m i = bk_accounts (db_bank P s) i"
    using LockForTransfer_eq [of s P c ids m i] by (simp add: txRepositories_def pg_inv_def)
next
  fix s as s'
  assume "pg_inv P s" "tx_SaveBalances (txRepositories P c) s as = Inr s'"
  then have save: "SaveBalances c s as = Inr s'" and ok: "db_ok s" and "pg_documented P"
    by (simp_all add: txRepositories_def pg_inv_def)
  with SaveBalances_ok [OF ok save] SaveBalances_account_at [OF save] SaveBalances_eq(1) [OF save]
  show "pg_inv P s' \<and> (\<exists>t. db_bank P s' =
      (db_bank P s)\<lparr>bk_accounts := save_accounts t as (bk_accounts (db_bank P s))\<rparr>)"
    by (auto simp: pg_inv_def db_bank_def transfer_at_def fun_eq_iff intro!: exI [of _ "call_now c"])
qed (auto simp: txRepositories_def dest: account_at_id CreateIdempotent_new CreateIdempotent_old Append_rows)

interpretation pg_backend: transfer_backend "txRepositories P c" "pg_inv P" "db_bank P" "key_of P" "pg_transfer_service P c"
  for P c
  unfolding transfer_backend_def pg_transfer_service_sel
  by (intro conjI pg_repositories.tx_repositories_axioms pg_store.tx_manager_contract_axioms)

end
