(* ===== verification/Transfer_History.thy ===== *)
theory Transfer_History
  imports Repositories
begin

text \<open>
  The transfer service wired to PostgreSQL as \<^verbatim>\<open>cmd/api/main.go\<close> does, and what any
  sequence of calls does to the database: each call may be by any user, may fail at any
  statement and may lose its commit. The lemmas carry the invariants of the abstract bank
  over to the tables.
\<close>

definition service_Create ::
  "pg \<Rightarrow> pg_call \<Rightarrow> string \<Rightarrow> string \<Rightarrow> create_transfer \<Rightarrow> db \<Rightarrow> db \<times> (go_error + (transfer \<times> bool))" where
  "service_Create P c = Create (pg_transfer_service P c)"

definition service_Get ::
  "pg \<Rightarrow> pg_call \<Rightarrow> db \<Rightarrow> string \<Rightarrow> string \<Rightarrow> go_error + transfer" where
  "service_Get P c = Transfer_Get (pg_transfer_service P c)"

type_synonym request_call = "pg_call \<times> string \<times> string \<times> create_transfer"

primrec run_calls :: "pg \<Rightarrow> request_call list \<Rightarrow> db \<Rightarrow> db" where
  "run_calls P [] db = db"
| "run_calls P (x # xs) db =
     run_calls P xs (case x of (c, u, key, r) \<Rightarrow> fst (service_Create P c u key r db))"

lemma run_calls_append: "run_calls P (xs @ ys) db = run_calls P ys (run_calls P xs db)"
  by (induction xs arbitrary: db) simp_all

lemmas service_refines = pg_backend.Create_refines [folded service_Create_def]
lemmas service_invar = pg_backend.Create_invar [folded service_Create_def]
lemmas service_run = pg_backend.Create_run [folded service_Create_def]
lemmas service_success = pg_backend.Create_success [folded service_Create_def]

lemma run_calls_inv: "pg_inv P db \<Longrightarrow> pg_inv P (run_calls P xs db)"
  by (induction xs arbitrary: db) (auto split: prod.split simp: service_invar)

lemma run_calls_bank:
  "pg_inv P db \<Longrightarrow> bank_run (db_bank P db) (db_bank P (run_calls P xs db))"
proof (induction xs arbitrary: db)
  case (Cons x xs)
  obtain c u key r where x: "x = (c, u, key, r)" by (cases x) auto
  let ?db = "fst (service_Create P c u key r db)"
  have "bank_run (db_bank P db) (db_bank P ?db)"
    using Cons.prems by (rule service_run)
  moreover have "bank_run (db_bank P ?db) (db_bank P (run_calls P xs ?db))"
    using Cons.prems by (intro Cons.IH service_invar)
  ultimately show ?case by (simp add: x bank_run_trans)
qed (simp add: bank_run.run_refl)

subsection \<open>Sums over the accounts table\<close>

definition currency_sum :: "string \<Rightarrow> db \<Rightarrow> int" where
  "currency_sum cur db =
     (\<Sum>a \<leftarrow> filter (\<lambda>a. acc_currency a = cur) (db_accounts db). sint (acc_balance a))"

definition ledger_total :: "string \<Rightarrow> db \<Rightarrow> int" where
  "ledger_total i db = (\<Sum>l \<leftarrow> filter (\<lambda>l. lw_account_id l = i) (db_ledger db). sint (lw_amount l))"

lemma finite_accounts: "finite (dom (account_at db))"
proof -
  have "dom (account_at db) \<subseteq> acc_id ` set (db_accounts db)"
    by (auto dest: account_at_id)
  then show ?thesis by (rule finite_subset) simp
qed

lemma currency_sum_total:
  assumes ok: "db_ok db"
  shows "currency_total cur (db_bank P db) = currency_sum cur db"
proof -
  let ?as = "filter (\<lambda>a. acc_currency a = cur) (db_accounts db)"
  have dist: "distinct (map acc_id ?as)"
    using ok by (simp add: db_ok_def distinct_map_filter)
  have ids: "{i. \<exists>a. account_at db i = Some a \<and> acc_currency a = cur} = set (map acc_id ?as)"
    using account_at_iff [OF ok] by auto
  have "currency_total cur (db_bank P db) =
      (\<Sum>i \<leftarrow> map acc_id ?as. sint (acc_balance (the (account_at db i))))"
    unfolding currency_total_def db_bank_simps ids using dist by (simp only: sum_list_distinct_conv_sum_set)
  also have "\<dots> = currency_sum cur db"
    unfolding currency_sum_def map_map
    by (rule arg_cong [where f = sum_list], rule map_cong) (simp_all add: account_at_member [OF ok])
  finally show ?thesis .
qed

lemma ledger_total_sum: "ledger_sum i (bk_ledger (db_bank P db)) = ledger_total i db"
  by (simp add: ledger_sum_def ledger_total_def filter_map o_def entry_of_row_def)

lemma run_calls_account:
  assumes inv: "pg_inv P db" and a: "account_at db i = Some a"
  shows "\<exists>a'. account_at (run_calls P xs db) i = Some a' \<and> acc_currency a' = acc_currency a \<and>
    acc_user_id a' = acc_user_id a \<and>
    sint (acc_balance a') =
      sint (acc_balance a) + ledger_total i (run_calls P xs db) - ledger_total i db"
  using bank_run_reconciles [OF run_calls_bank [OF inv, of xs], of i a] a
  by (simp add: ledger_total_sum [of i P, simplified])

lemma run_calls_currency_sum:
  assumes inv: "pg_inv P db"
  shows "currency_sum cur (run_calls P xs db) = currency_sum cur db"
  using bank_run_total [OF run_calls_bank [OF inv, of xs], of cur] run_calls_inv [OF inv, of xs] inv
  by (simp add: finite_accounts currency_sum_total pg_inv_def)

lemma run_calls_transfers:
  assumes "pg_inv P db" and "transfer_at P db k = Some x"
  shows "transfer_at P (run_calls P xs db) k = Some x"
  using bank_run_transfers_mono [OF run_calls_bank [OF assms(1), of xs]] assms(2)
  unfolding map_le_def db_bank_simps by (metis domI)

subsection \<open>Transfers and their ledger rows\<close>

text \<open>
  The rows of \<^verbatim>\<open>ledger_entries\<close> that belong to a transfer: one debit of the source and one
  credit of the destination for a completed transfer, none for any other; and no ledger row
  without its transfer.
\<close>

definition transfer_entries :: "db \<Rightarrow> transfers_row \<Rightarrow> (string \<times> i64) list" where
  "transfer_entries db t =
     map (\<lambda>l. (lw_account_id l, lw_amount l))
       (filter (\<lambda>l. lw_transfer_id l = tw_id t) (db_ledger db))"

definition ledger_matches :: "db \<Rightarrow> bool" where
  "ledger_matches db \<longleftrightarrow>
     list_all (\<lambda>t. transfer_entries db t =
         (if tw_status t = TransferStatusCompleted
          then [(tw_from_account_id t, - tw_amount t), (tw_to_account_id t, tw_amount t)] else []))
       (db_transfers db) \<and>
     list_all (\<lambda>l. list_ex (\<lambda>t. tw_id t = lw_transfer_id l) (db_transfers db)) (db_ledger db)"

lemma entries_of_row:
  assumes "uuid_round_trip P"
  shows "map (\<lambda>e. (le_account_id e, le_amount e))
      (entries_of (tr_id (transfer_of_row P t)) (bk_ledger (db_bank P db))) = transfer_entries db t"
  by (simp add: entries_of_def transfer_entries_def transfer_of_row_def entry_of_row_def filter_map
      o_def uuid_text_inj [OF assms])

lemma pair_of_zip:
  "pair_of tr es \<longleftrightarrow> map (\<lambda>e. (le_account_id e, le_amount e)) es =
     [(tr_from_account_id tr, - tr_amount tr), (tr_to_account_id tr, tr_amount tr)]"
  by (auto simp: pair_of_def map_eq_Cons_conv)

lemma bank_once_row:
  assumes rt: "uuid_round_trip P"
  shows "(if tr_status (transfer_of_row P t) = TransferStatusCompleted
      then pair_of (transfer_of_row P t) (entries_of (tr_id (transfer_of_row P t)) (bk_ledger (db_bank P db)))
      else entries_of (tr_id (transfer_of_row P t)) (bk_ledger (db_bank P db)) = []) \<longleftrightarrow>
    transfer_entries db t =
      (if tw_status t = TransferStatusCompleted
       then [(tw_from_account_id t, - tw_amount t), (tw_to_account_id t, tw_amount t)] else [])"
  unfolding entries_of_row [OF rt, symmetric] pair_of_zip
  by (simp add: transfer_of_row_def)

lemma bank_once_db:
  assumes inv: "pg_inv P db"
  shows "bank_once (db_bank P db) \<longleftrightarrow> ledger_matches db"
proof -
  have ok: "db_ok db" and rt: "uuid_round_trip P"
    using inv by (simp_all add: pg_inv_def pg_documented_def)
  have stored: "(\<forall>k tr r. bk_transfers (db_bank P db) k = Some (tr, r) \<longrightarrow> Q tr) \<longleftrightarrow>
      (\<forall>t \<in> set (db_transfers db). Q (transfer_of_row P t))" for Q
    unfolding db_bank_simps transfer_at_Some [OF ok] by blast
  have unique: "\<forall>k k' tr tr' r r'. bk_transfers (db_bank P db) k = Some (tr, r) \<and>
      bk_transfers (db_bank P db) k' = Some (tr', r') \<and> tr_id tr = tr_id tr' \<longrightarrow> k = k'"
    using ok by (auto simp: transfer_at_Some [OF ok] transfer_of_row_def uuid_text_inj [OF rt]
        db_ok_def distinct_map inj_on_def simp del: split_paired_All)
  have "(\<forall>e \<in> set (bk_ledger (db_bank P db)). le_transfer_id e \<in> transfer_ids (db_bank P db)) \<longleftrightarrow>
      list_all (\<lambda>l. list_ex (\<lambda>t. tw_id t = lw_transfer_id l) (db_transfers db)) (db_ledger db)"
    by (auto simp: transfer_ids_db [OF ok] list_all_iff list_ex_iff entry_of_row_def
        uuid_text_inj [OF rt] image_iff) metis+
  with unique show ?thesis
    unfolding bank_once_def stored bank_once_row [OF rt] ledger_matches_def list_all_iff by blast
qed

lemma run_calls_ledger_matches:
  assumes "pg_inv P db" and "ledger_matches db"
  shows "ledger_matches (run_calls P xs db)"
  using assms bank_run_once [OF run_calls_bank [OF assms(1), of xs]] run_calls_inv [OF assms(1), of xs]
  by (simp add: bank_once_db)

subsection \<open>Single calls\<close>

text \<open>A call that succeeds has stored its transfer, or found it stored.\<close>

lemma service_stored:
  assumes inv: "pg_inv P db" and ok: "service_Create P c u key r db = (db', Inr (tr, created))"
  shows "\<exists>k. key_of P key = Some k \<and> transfer_at P db' (u, k) = Some (tr, r) \<and>
    (created \<longleftrightarrow> transfer_at P db (u, k) = None)"
proof -
  from service_success [OF inv ok] obtain k oc where "key_of P key = Some k"
    and step: "bank_step u k r (db_bank P db) oc (db_bank P db')"
    and "tr = outcome_transfer oc" "created = outcome_created oc" by blast
  with bank_step_stored [OF step] show ?thesis by auto
qed

text \<open>
  The same key again: if the call succeeds it answers from the store, the request was the
  same, and the database is untouched.
\<close>

lemma service_same_key:
  assumes inv: "pg_inv P db" and key: "key_of P key = Some k"
    and stored: "transfer_at P db (u, k) = Some (tr, r)"
    and again: "service_Create P c u key r' db = (db', res)"
  shows "db' = db" and "res = Inr (tr', created) \<Longrightarrow> r' = r \<and> tr' = tr \<and> \<not> created"
proof -
  have "db' = db \<and> (\<forall>x. res = Inr x \<longrightarrow> r' = r \<and> x = (tr, False))"
    using service_refines [OF inv again]
  proof (elim conjE disjE exE)
    fix k' oc
    assume "key_of P key = Some k'" and step: "bank_step u k' r' (db_bank P db) oc (db_bank P db')"
      and "\<not> outcome_created oc \<longrightarrow> db' = db"
      and "res = Inr (outcome_transfer oc, outcome_created oc)"
    with key bank_step_same_key [OF step] stored show ?thesis by auto
  next
    fix k' oc e
    assume "key_of P key = Some k'" and step: "bank_step u k' r' (db_bank P db) oc (db_bank P db')"
      and "\<not> outcome_created oc \<longrightarrow> db' = db" and "res = Inl e"
    with key bank_step_same_key [OF step] stored show ?thesis by auto
  qed auto
  then show "db' = db" and "res = Inr (tr', created) \<Longrightarrow> r' = r \<and> tr' = tr \<and> \<not> created"
    by auto
qed

text \<open>A created transfer was one of the two creating steps, told apart by its status.\<close>

lemma service_created:
  assumes inv: "pg_inv P db" and ok: "service_Create P c u key r db = (db', Inr (tr, True))"
  shows "(\<exists>src dst src' dst' t. admissible u r (db_bank P db) src dst \<and>
      Debit src (req_amount r) = Inr src' \<and> Credit dst (req_amount r) = Inr dst' \<and>
      records r TransferStatusCompleted FailureReasonNone tr \<and>
      account_at db' = (account_at db)(req_from_account_id r \<mapsto> src'\<lparr>acc_updated_at := t\<rparr>,
        req_to_account_id r \<mapsto> dst'\<lparr>acc_updated_at := t\<rparr>) \<and>
      bk_ledger (db_bank P db') = bk_ledger (db_bank P db) @ ledger_pair r tr src' dst') \<or>
    (\<exists>src dst. admissible u r (db_bank P db) src dst \<and>
      Debit src (req_amount r) = Inl ErrInsufficientFunds \<and>
      records r TransferStatusFailed FailureReasonInsufficientFunds tr \<and>
      account_at db' = account_at db \<and> bk_ledger (db_bank P db') = bk_ledger (db_bank P db))"
proof -
  from service_success [OF inv ok] obtain k oc where
    step: "bank_step u k r (db_bank P db) oc (db_bank P db')"
    and oc: "tr = outcome_transfer oc" "outcome_created oc" by auto
  from step show ?thesis
  proof cases
    case (moved src dst src' dst' tr' t)
    then show ?thesis using oc
      by (intro disjI1 exI [of _ src] exI [of _ dst] exI [of _ src'] exI [of _ dst'] exI [of _ t])
        (simp add: db_bank_def bank.equality)
  next
    case (declined src dst tr')
    then show ?thesis using oc
      by (intro disjI2 exI [of _ src] exI [of _ dst]) (simp add: db_bank_def bank.equality)
  qed (use oc in simp)
qed

text \<open>An error leaves the database alone unless a commit took effect without its answer.\<close>

lemma service_error:
  assumes err: "service_Create P c u key r db = (db', Inl e)"
    and ack: "\<And>m. call_commit c \<noteq> CommitUnacknowledged m"
  shows "db' = db"
  using err ack
  by (auto simp: service_Create_def Create_def NewStore_def Store_WithinTx_def exec_def
      split: if_splits sum.splits prod.splits option.splits commit_outcome.splits)

text \<open>What a request needed of its accounts to be answered, they still have after any other calls.\<close>

lemma service_admissible:
  assumes inv: "pg_inv P db" and ok: "service_Create P c u key r db = (db1, Inr x)"
  shows "\<exists>src dst. admissible u r (db_bank P (run_calls P calls db1)) src dst"
proof -
  from service_success [OF inv, of c u key r db1 "fst x" "snd x"] ok obtain k oc where
    "bank_step u k r (db_bank P db) oc (db_bank P db1)" by auto
  then obtain src dst where adm: "admissible u r (db_bank P db) src dst" by cases blast+
  have "run_calls P calls db1 = run_calls P ((c, u, key, r) # calls) db" using ok by simp
  with adm run_calls_account [OF inv, of "req_from_account_id r" src "(c, u, key, r) # calls"]
    run_calls_account [OF inv, of "req_to_account_id r" dst "(c, u, key, r) # calls"]
  show ?thesis by (auto simp: admissible_def)
qed

text \<open>Which answers mean that nothing was written: errors with a known end of the transaction, and replays.\<close>

definition without_effect :: "pg_call \<Rightarrow> go_error + (transfer \<times> bool) \<Rightarrow> bool" where
  "without_effect c res =
     (case res of
        Inl _ \<Rightarrow> (case call_commit c of CommitUnacknowledged _ \<Rightarrow> False | _ \<Rightarrow> True)
      | Inr (_, created) \<Rightarrow> \<not> created)"

lemma service_replay_keeps:
  assumes inv: "pg_inv P db" and res: "service_Create P c u key r db = (db', Inr (tr, False))"
  shows "db' = db"
proof -
  from service_stored [OF inv res] obtain k x where "key_of P key = Some k" "transfer_at P db (u, k) = Some x" by auto
  then show ?thesis using service_same_key(1) [OF inv _ _ res] by (cases x) blast
qed

lemma service_without_effect:
  assumes "pg_inv P db" and "without_effect c (snd (service_Create P c u key r db))"
  shows "fst (service_Create P c u key r db) = db"
proof (cases "service_Create P c u key r db")
  case (Pair db' res)
  show ?thesis
  proof (cases res)
    case (Inl e)
    with Pair assms(2) have "db' = db"
      by (intro service_error) (auto simp: without_effect_def split: commit_outcome.splits)
    with Pair show ?thesis by simp
  next
    case (Inr x)
    with Pair assms service_replay_keeps show ?thesis by (cases x) (auto simp: without_effect_def)
  qed
qed

text \<open>A call that changed the database but answered an error has stored its transfer.\<close>

lemma service_lost_answer:
  assumes inv: "pg_inv P db" and err: "service_Create P c u key r db = (db', Inl e)" and "db' \<noteq> db"
  shows "\<exists>k tr. key_of P key = Some k \<and> transfer_at P db' (u, k) = Some (tr, r)"
proof -
  from service_refines [OF inv err] assms(3) obtain k oc where "key_of P key = Some k"
    and step: "bank_step u k r (db_bank P db) oc (db_bank P db')" by auto
  with bank_step_stored [OF step] show ?thesis by auto
qed

text \<open>Only the owner's own request takes money from an account.\<close>

lemma service_debits:
  assumes inv: "pg_inv P db" and call: "service_Create P c u key r db = (db', res)"
    and a: "account_at db i = Some a" and a': "account_at db' i = Some a'"
    and less: "sint (acc_balance a') < sint (acc_balance a)"
  shows "acc_user_id a = u \<and> i = req_from_account_id r \<and>
    sint (acc_balance a') = sint (acc_balance a) - sint (req_amount r)"
proof -
  have "db' \<noteq> db" using a a' less by auto
  with service_refines [OF inv call] obtain k oc where
    step: "bank_step u k r (db_bank P db) oc (db_bank P db')"
    and new: "outcome_created oc" by auto
  from step show ?thesis
  proof cases
    case (moved src dst src' dst' tr t)
    have "account_at db' = (account_at db)(req_from_account_id r \<mapsto> src'\<lparr>acc_updated_at := t\<rparr>,
        req_to_account_id r \<mapsto> dst'\<lparr>acc_updated_at := t\<rparr>)"
      using moved(8) by (simp add: db_bank_def)
    moreover have "0 < sint (req_amount r)" using moved(2) by (simp add: admissible_def valid_request_def)
    ultimately show ?thesis
      using moved_balances [OF moved(3,4)] moved(2) a a' less
      by (auto simp: admissible_def split: if_splits)
  qed (use a a' less in \<open>auto simp: db_bank_def\<close>)
qed

subsection \<open>Reading a transfer\<close>

text \<open>\<^verbatim>\<open>pgtype.UUID.Scan\<close> reads back the text form of a UUID.\<close>

definition uuid_scan_round_trip :: "pg \<Rightarrow> bool" where
  "uuid_scan_round_trip P \<longleftrightarrow> (\<forall>u. pg_uuid_scan P (pg_uuid_text P u) = Some u)"

lemma FindByID_Inr:
  assumes ok: "db_ok db"
  shows "FindByID P c db u tid = Inr tr \<longleftrightarrow>
    call_fault c StmtFindTransfer = None \<and> pg_text u \<and>
    (\<exists>i. pg_uuid_scan P tid = Some i \<and>
      (\<exists>t \<in> set (db_transfers db). tw_id t = i \<and> tw_user_id t = u \<and> tr = transfer_of_row P t))"
proof -
  have one: "sql_transfer_by_id db i u = Inr t \<longleftrightarrow>
      pg_text u \<and> t \<in> set (db_transfers db) \<and> tw_id t = i \<and> tw_user_id t = u" for i t
  proof
    assume "sql_transfer_by_id db i u = Inr t"
    then show "pg_text u \<and> t \<in> set (db_transfers db) \<and> tw_id t = i \<and> tw_user_id t = u"
      by (auto simp: sql_transfer_by_id_def split: if_splits dest!: first_row_Inr)
  next
    assume t: "pg_text u \<and> t \<in> set (db_transfers db) \<and> tw_id t = i \<and> tw_user_id t = u"
    then have "filter (\<lambda>t. tw_id t = i) (db_transfers db) = [t]"
      using ok filter_key_distinct [of tw_id "db_transfers db" t] by (simp add: db_ok_def)
    then have "filter (\<lambda>t. tw_user_id t = u) (filter (\<lambda>t. tw_id t = i) (db_transfers db)) = [t]"
      using t by simp
    then have "filter (\<lambda>t. tw_id t = i \<and> tw_user_id t = u) (db_transfers db) = [t]"
      by (simp add: conj_commute)
    with t show "sql_transfer_by_id db i u = Inr t"
      by (simp add: sql_transfer_by_id_def first_row_def)
  qed
  have scan: "scanTransfer P t = Inr (transfer_of_row P t, request_of_row t)"
    if "t \<in> set (db_transfers db)" for t
    using ok that by (simp add: scanTransfer_def db_ok_def list_all_iff)
  have "FindByID P c db u tid = Inr tr \<longleftrightarrow> call_fault c StmtFindTransfer = None \<and>
      (\<exists>i t r. pg_uuid_scan P tid = Some i \<and> sql_transfer_by_id db i u = Inr t \<and>
        scanTransfer P t = Inr (tr, r))"
    by (auto simp: FindByID_def result_simps exec_no_fault split: option.splits sum.splits
        prod.splits if_splits)
  then show ?thesis unfolding one using scan by auto
qed

lemma FindByID_Inl:
  assumes ok: "db_ok db" and c: "call_fault c StmtFindTransfer = None" and u: "pg_text u"
    and "FindByID P c db u tid = Inl e"
  shows "e = ErrNotFound"
proof (cases "pg_uuid_scan P tid")
  case (Some i)
  show ?thesis
  proof (cases "filter (\<lambda>t. tw_id t = i \<and> tw_user_id t = u) (db_transfers db)")
    case Nil
    with Some assms show ?thesis
      by (simp add: FindByID_def exec_no_fault sql_transfer_by_id_def first_row_def)
  next
    case (Cons t ts)
    then have "t \<in> set (db_transfers db)" by (auto simp: filter_eq_Cons_iff)
    with ok have "scanTransfer P t = Inr (transfer_of_row P t, request_of_row t)"
      by (simp add: scanTransfer_def db_ok_def list_all_iff)
    with Some Cons assms show ?thesis
      by (simp add: FindByID_def exec_no_fault sql_transfer_by_id_def first_row_def)
  qed
qed (use assms in \<open>simp add: FindByID_def\<close>)

lemma service_Get_Inr: "service_Get P c db u tid = Inr tr \<longleftrightarrow> FindByID P c db u tid = Inr tr"
  by (simp add: service_Get_def Transfer_Get_def split: sum.split)

lemma service_Get_Inl:
  assumes "db_ok db" and "call_fault c StmtFindTransfer = None" and "pg_text u"
    and "service_Get P c db u tid = Inl e"
  shows "e = ErrTransferNotFound"
  using assms FindByID_Inl [OF assms(1-3), of P tid]
  by (auto simp: service_Get_def Transfer_Get_def split: sum.splits if_splits)

end
