(* ===== verification/Tx_Machine.thy ===== *)
theory Tx_Machine
  imports Transfer_History
begin

text \<open>
  Concurrent calls of the transfer service. Each call runs the statements of \<open>Create\<close> one at a
  time; between two of its statements other calls may run theirs. The theory gives the
  interleaving semantics: what one statement does (\<open>advance\<close>, in terms of the repository
  operations), when PostgreSQL makes it wait (\<open>blocked\<close>: a row lock held by another
  transaction, or a key that another transaction has inserted and not yet committed), and the
  step relation of the whole system.

  Transactions are READ COMMITTED: a statement sees the committed database and the
  transaction's own row versions. \<^verbatim>\<open>SELECT ... ORDER BY id FOR UPDATE\<close> locks its rows one after
  the other in that order and returns their latest committed versions. The foreign keys of the
  inserted rows point to accounts that the transaction has locked itself. The insert of a
  transfer and the lookup of the row that made it do nothing are one step: rows of transfers
  are never changed or deleted, so no commit in between can make a difference.
\<close>

subsection \<open>The statements of a call\<close>

text \<open>The part of \<^verbatim>\<open>Create\<close> between the lock and the insert: it touches no store.\<close>

type_synonym decision = "transfer_status \<times> failure_reason \<times> account \<times> account"

definition decide :: "string \<Rightarrow> create_transfer \<Rightarrow> (string \<rightharpoonup> account) \<Rightarrow> go_error + decision" where
  "decide u r accounts =
     (case accounts (req_from_account_id r) of
        None \<Rightarrow> Inl ErrForbidden
      | Some source \<Rightarrow>
          if acc_user_id source \<noteq> u then Inl ErrForbidden
          else (case accounts (req_to_account_id r) of
              None \<Rightarrow> Inl ErrDestinationNotFound
            | Some destination \<Rightarrow>
                if acc_currency source \<noteq> req_currency r \<or> acc_currency destination \<noteq> req_currency r
                then Inl ErrCurrencyMismatch
                else settle source destination (req_amount r)))"

definition dec_draft :: "string \<Rightarrow> string \<Rightarrow> create_transfer \<Rightarrow> decision \<Rightarrow> new_transfer" where
  "dec_draft u key r dec = (case dec of (st, reason, _, _) \<Rightarrow> draft u key r st reason)"

definition dec_accounts :: "decision \<Rightarrow> account list" where
  "dec_accounts dec = (case dec of (_, _, src, dst) \<Rightarrow> [src, dst])"

definition dec_entries :: "create_transfer \<Rightarrow> transfer \<Rightarrow> decision \<Rightarrow> ledger_entry list" where
  "dec_entries r tr dec = (case dec of (_, _, src, dst) \<Rightarrow> entry_pair r tr src dst)"

definition moves :: "transfer \<Rightarrow> bool \<Rightarrow> bool" where
  "moves tr created \<longleftrightarrow> created \<and> tr_status tr = TransferStatusCompleted"

text \<open>The transaction of \<open>Create\<close>, statement by statement.\<close>

lemma create_tx_statements:
  "create_tx tx u key r s =
     step_in s (tx_LockForTransfer tx s [req_from_account_id r, req_to_account_id r]) (\<lambda>accounts.
     step_in s (decide u r accounts) (\<lambda>dec.
     step_in s (tx_CreateIdempotent tx s (dec_draft u key r dec)) (\<lambda>(s, result, created).
       if \<not> moves result created then (s, Inr (result, created))
       else step_in s (tx_SaveBalances tx s (dec_accounts dec)) (\<lambda>s.
         step_in s (tx_Append tx s (dec_entries r result dec)) (\<lambda>s. (s, Inr (result, created)))))))"
proof -
  have checks: "(case m (req_from_account_id r) of
         None \<Rightarrow> (s, Inl ErrForbidden)
       | Some source \<Rightarrow>
       (if acc_user_id source \<noteq> u then (s, Inl ErrForbidden)
       else (case m (req_to_account_id r) of
         None \<Rightarrow> (s, Inl ErrDestinationNotFound)
       | Some destination \<Rightarrow>
       (if acc_currency source \<noteq> req_currency r \<or> acc_currency destination \<noteq> req_currency r
       then (s, Inl ErrCurrencyMismatch)
       else step_in s (settle source destination (req_amount r)) k)))) = step_in s (decide u r m) k" for m k
    by (simp add: decide_def split: option.split)
  have moved: "(\<not> created \<or> tr_status tr \<noteq> TransferStatusCompleted) \<longleftrightarrow> \<not> moves tr created" for tr created
    by (simp add: moves_def)
  show ?thesis
    unfolding create_tx_def checks moved
    by (intro arg_cong2 [where f = "step_in s"] refl ext)
      (clarsimp simp: dec_draft_def dec_accounts_def dec_entries_def cong: if_cong)
qed

subsection \<open>Row versions of a transaction\<close>

text \<open>
  The writes of an open transaction: its versions of the rows it has locked, and the rows it
  has inserted. \<open>delta_of L db view\<close> collects them from the database as the transaction sees
  it, \<open>apply_delta\<close> puts them on top of a committed database: this is both what the next
  statement sees and what a commit leaves behind.
\<close>

record delta =
  dl_accounts :: "account list"
  dl_transfers :: "transfers_row list"
  dl_ledger :: "ledger_row list"

definition merge_account :: "account list \<Rightarrow> account \<Rightarrow> account" where
  "merge_account as a = (case List.find (\<lambda>b. acc_id b = acc_id a) as of None \<Rightarrow> a | Some b \<Rightarrow> b)"

definition apply_delta :: "delta \<Rightarrow> db \<Rightarrow> db" where
  "apply_delta d db =
     db\<lparr>db_accounts := map (merge_account (dl_accounts d)) (db_accounts db),
        db_transfers := db_transfers db @ dl_transfers d, db_ledger := db_ledger db @ dl_ledger d\<rparr>"

definition delta_of :: "string list \<Rightarrow> db \<Rightarrow> db \<Rightarrow> delta" where
  "delta_of L db view =
     \<lparr>dl_accounts = filter (\<lambda>a. acc_id a \<in> set L) (db_accounts view),
      dl_transfers = drop (length (db_transfers db)) (db_transfers view),
      dl_ledger = drop (length (db_ledger db)) (db_ledger view)\<rparr>"

subsection \<open>One statement of one call\<close>

datatype tx_state =
    Idle
  | Locking "string list" "string list"
  | Locked decision
  | Inserted decision transfer bool delta
  | Saved decision transfer delta
  | Written transfer bool delta
  | Finished "go_error + (transfer \<times> bool)"

definition account_ids :: "create_transfer \<Rightarrow> string list" where
  "account_ids r = [req_from_account_id r, req_to_account_id r]"

text \<open>The rows that the lock statement finds, in the order in which it locks them.\<close>

definition lock_list :: "pg \<Rightarrow> db \<Rightarrow> create_transfer \<Rightarrow> string list" where
  "lock_list P db r =
     map acc_id (sort_by (pg_collate_le P) acc_id (filter (\<lambda>a. acc_id a \<in> set (account_ids r)) (db_accounts db)))"

definition fail :: "go_error \<Rightarrow> tx_state" where
  "fail e = Finished (Inl (Wrapped ''create transfer'' e))"

definition finish :: "pg_call \<Rightarrow> db \<Rightarrow> delta \<Rightarrow> transfer \<Rightarrow> bool \<Rightarrow> db \<times> tx_state" where
  "finish c db d tr created =
     (case call_commit c of
        Committed \<Rightarrow> (apply_delta d db, Finished (Inr (tr, created)))
      | CommitRefused m \<Rightarrow> (db, fail (DbError m))
      | CommitUnacknowledged m \<Rightarrow> (apply_delta d db, fail (DbError m)))"

definition advance :: "pg \<Rightarrow> request_call \<Rightarrow> db \<Rightarrow> tx_state \<Rightarrow> db \<times> tx_state" where
  "advance P call db st =
     (case call of (c, u, key, r) \<Rightarrow>
      (case st of
         Idle \<Rightarrow>
           if TrimSpace u = '''' then (db, Finished (Inl ErrForbidden))
           else (case CreateTransfer_Validate r of
               Inl e \<Rightarrow> (db, Finished (Inl e))
             | Inr _ \<Rightarrow>
                 (case exec c StmtBegin (Inr ()) of
                    Inl e \<Rightarrow> (db, fail e)
                  | Inr _ \<Rightarrow> (db, Locking [] (lock_list P db r))))
       | Locking held (i # todo) \<Rightarrow>
           (case exec c StmtLockAccounts (Inr ()) of
              Inl e \<Rightarrow> (db, fail (Wrapped ''lock accounts'' e))
            | Inr _ \<Rightarrow> (db, Locking (held @ [i]) todo))
       | Locking held [] \<Rightarrow>
           (case and_then (LockForTransfer P c db (account_ids r)) (decide u r) of
              Inl e \<Rightarrow> (db, fail e)
            | Inr dec \<Rightarrow> (db, Locked dec))
       | Locked dec \<Rightarrow>
           (case CreateIdempotent P c db (dec_draft u key r dec) of
              Inl e \<Rightarrow> (db, fail e)
            | Inr (view, tr, created) \<Rightarrow> (db, Inserted dec tr created (delta_of (account_ids r) db view)))
       | Inserted dec tr created d \<Rightarrow>
           if \<not> moves tr created then (db, Written tr created d)
           else (case SaveBalances c (apply_delta d db) (dec_accounts dec) of
               Inl e \<Rightarrow> (db, fail e)
             | Inr view \<Rightarrow> (db, Saved dec tr (delta_of (account_ids r) db view)))
       | Saved dec tr d \<Rightarrow>
           (case Append P c (apply_delta d db) (dec_entries r tr dec) of
              Inl e \<Rightarrow> (db, fail e)
            | Inr view \<Rightarrow> (db, Written tr True (delta_of (account_ids r) db view)))
       | Written tr created d \<Rightarrow> finish c db d tr created
       | Finished res \<Rightarrow> (db, Finished res)))"

subsection \<open>Waiting\<close>

fun locks :: "create_transfer \<Rightarrow> tx_state \<Rightarrow> string set" where
  "locks r Idle = {}"
| "locks r (Finished _) = {}"
| "locks r (Locking held _) = set held"
| "locks r _ = set (account_ids r)"

fun pending_rows :: "tx_state \<Rightarrow> transfers_row list" where
  "pending_rows (Inserted _ _ _ d) = dl_transfers d"
| "pending_rows (Saved _ _ d) = dl_transfers d"
| "pending_rows (Written _ _ d) = dl_transfers d"
| "pending_rows _ = []"

text \<open>
  A call waits for a row that another one has locked. An insert waits for another transaction
  to end whose uncommitted transfer has the same key or identifier; it does not wait when the
  row is refused at once or when a committed row already holds the key. A statement whose
  connection fails ends its transaction even while it waits.
\<close>

definition new_row :: "pg \<Rightarrow> pg_call \<Rightarrow> new_transfer \<Rightarrow> transfers_row" where
  "new_row P c t = transfers_values P c t (projr (parseKey P (nt_idempotency_key t)))
     (marshal_create_transfer (nt_request t))"

definition waits_for_row :: "request_call list \<Rightarrow> tx_state list \<Rightarrow> nat \<Rightarrow> string \<Rightarrow> bool" where
  "waits_for_row calls txs n i \<longleftrightarrow>
     list_ex (\<lambda>m. m \<noteq> n \<and> i \<in> locks (snd (snd (snd (calls ! m)))) (txs ! m)) [0..<length txs]"

definition waits_for_key :: "pg \<Rightarrow> request_call list \<Rightarrow> db \<Rightarrow> tx_state list \<Rightarrow> nat \<Rightarrow> decision \<Rightarrow> bool" where
  "waits_for_key P calls db txs n dec \<longleftrightarrow>
     (case calls ! n of (c, u, key, r) \<Rightarrow>
        let row = new_row P c (dec_draft u key r dec) in
        key_of P key \<noteq> None \<and> list_all pg_text (transfers_texts row) \<and> transfers_check row \<and>
        list_all (\<lambda>t. row_key t \<noteq> row_key row) (db_transfers db) \<and>
        list_ex (\<lambda>m. m \<noteq> n \<and> list_ex (\<lambda>t. row_key t = row_key row \<or> tw_id t = tw_id row)
          (pending_rows (txs ! m))) [0..<length txs])"

definition blocked :: "pg \<Rightarrow> request_call list \<Rightarrow> db \<Rightarrow> tx_state list \<Rightarrow> nat \<Rightarrow> bool" where
  "blocked P calls db txs n =
     (case txs ! n of
        Locking held (i # todo) \<Rightarrow>
          call_fault (fst (calls ! n)) StmtLockAccounts = None \<and> waits_for_row calls txs n i
      | Locked dec \<Rightarrow>
          call_fault (fst (calls ! n)) StmtInsertTransfer = None \<and> waits_for_key P calls db txs n dec
      | _ \<Rightarrow> False)"

subsection \<open>The system\<close>

record system =
  sy_db :: db
  sy_txs :: "tx_state list"

definition finished :: "tx_state \<Rightarrow> bool" where
  "finished st \<longleftrightarrow> (case st of Finished _ \<Rightarrow> True | _ \<Rightarrow> False)"

inductive step :: "pg \<Rightarrow> request_call list \<Rightarrow> nat \<Rightarrow> system \<Rightarrow> system \<Rightarrow> bool" for P calls where
  run_statement:
  "n < length (sy_txs s) \<Longrightarrow> \<not> finished (sy_txs s ! n) \<Longrightarrow> \<not> blocked P calls (sy_db s) (sy_txs s) n \<Longrightarrow>
   advance P (calls ! n) (sy_db s) (sy_txs s ! n) = (db', st') \<Longrightarrow>
   step P calls n s \<lparr>sy_db = db', sy_txs = (sy_txs s)[n := st']\<rparr>"

inductive_simps step_iff: "step P calls n s s'"

definition start_system :: "request_call list \<Rightarrow> db \<Rightarrow> system" where
  "start_system calls db = \<lparr>sy_db = db, sy_txs = map (\<lambda>_. Idle) calls\<rparr>"

text \<open>Runs are recorded with the schedule: which call ran a statement.\<close>

inductive runs :: "pg \<Rightarrow> request_call list \<Rightarrow> db \<Rightarrow> nat list \<Rightarrow> system \<Rightarrow> bool" for P calls db where
  begin_runs: "runs P calls db [] (start_system calls db)"
| more_runs: "runs P calls db ns s \<Longrightarrow> step P calls n s s' \<Longrightarrow> runs P calls db (ns @ [n]) s'"

end
