(* ===== verification/Tx_Serial.thy ===== *)
theory Tx_Serial
  imports Tx_Machine
begin

text \<open>
  Every interleaving of calls is equivalent to running them one after the other, in the order
  in which they finish. The argument: while a transaction holds its row locks, commits of
  other transactions leave its accounts alone, and while its insert is pending nobody else
  can insert its key; so at every moment the statements it has run so far would have the same
  results if they ran on the database as it is now.
\<close>

subsection \<open>Effects of statements\<close>

text \<open>
  \<open>eff f ts ls db\<close>: accounts changed by \<open>f\<close>, transfers and ledger rows appended. A change is
  local to \<open>L\<close> when it keeps identifiers and touches only accounts of \<open>L\<close>.
\<close>

definition eff :: "(account \<Rightarrow> account) \<Rightarrow> transfers_row list \<Rightarrow> ledger_row list \<Rightarrow> db \<Rightarrow> db" where
  "eff f ts ls db =
     db\<lparr>db_accounts := map f (db_accounts db), db_transfers := db_transfers db @ ts,
        db_ledger := db_ledger db @ ls\<rparr>"

definition local_to :: "string list \<Rightarrow> (account \<Rightarrow> account) \<Rightarrow> bool" where
  "local_to L f \<longleftrightarrow> (\<forall>a. acc_id (f a) = acc_id a \<and> (acc_id a \<notin> set L \<longrightarrow> f a = a))"

lemma eff_sel [simp]:
  "db_accounts (eff f ts ls db) = map f (db_accounts db)"
  "db_transfers (eff f ts ls db) = db_transfers db @ ts" "db_ledger (eff f ts ls db) = db_ledger db @ ls"
  "db_users (eff f ts ls db) = db_users db"
  by (simp_all add: eff_def)

lemma eff_eq_iff: "db' = eff f ts ls db \<longleftrightarrow>
    db_accounts db' = map f (db_accounts db) \<and> db_transfers db' = db_transfers db @ ts \<and>
    db_ledger db' = db_ledger db @ ls \<and> db_users db' = db_users db"
  by (auto simp: eff_def)

lemma eff_id [simp]: "eff id [] [] db = db"
  by (simp add: eff_def)

lemma local_id [simp]: "local_to L id"
  by (simp add: local_to_def)

lemma merge_account_id [simp]: "acc_id (merge_account as a) = acc_id a"
  by (auto simp: merge_account_def find_Some_iff split: option.split)

lemma apply_delta_eff: "apply_delta d db = eff (merge_account (dl_accounts d)) (dl_transfers d) (dl_ledger d) db"
  by (simp add: apply_delta_def eff_def)

definition delta_on :: "string list \<Rightarrow> delta \<Rightarrow> bool" where
  "delta_on L d \<longleftrightarrow> acc_id ` set (dl_accounts d) \<subseteq> set L"

lemma merge_local: "delta_on L d \<Longrightarrow> local_to L (merge_account (dl_accounts d))"
  by (auto simp: local_to_def merge_account_def delta_on_def find_Some_iff dest!: nth_mem split: option.split)

lemma delta_of_eff:
  assumes ids: "distinct (map acc_id (db_accounts db))" and f: "local_to L f"
  shows "apply_delta (delta_of L db (eff f ts ls db)) db = eff f ts ls db"
    and "delta_on L (delta_of L db (eff f ts ls db))"
    and "dl_transfers (delta_of L db (eff f ts ls db)) = ts"
proof -
  have id: "acc_id (f a) = acc_id a" for a using f by (simp add: local_to_def)
  let ?as = "filter (\<lambda>a. acc_id a \<in> set L) (map f (db_accounts db))"
  have "merge_account ?as a = f a" if a: "a \<in> set (db_accounts db)" for a
  proof (cases "acc_id a \<in> set L")
    case True
    then have "f a \<in> set ?as" using a id by auto
    moreover have "distinct (map acc_id ?as)"
      using ids id by (simp add: distinct_map_filter comp_def)
    ultimately have "List.find (\<lambda>b. acc_id b = acc_id (f a)) ?as = Some (f a)"
      by (intro find_key_distinct)
    then show ?thesis by (simp add: merge_account_def id)
  next
    case False
    then have "List.find (\<lambda>b. acc_id b = acc_id a) ?as = None" using id by (auto simp: find_None_iff)
    then show ?thesis using f False by (simp add: merge_account_def local_to_def)
  qed
  then show "apply_delta (delta_of L db (eff f ts ls db)) db = eff f ts ls db"
    by (simp add: apply_delta_def delta_of_def eff_def)
  show "delta_on L (delta_of L db (eff f ts ls db))" by (auto simp: delta_on_def delta_of_def)
  show "dl_transfers (delta_of L db (eff f ts ls db)) = ts" by (simp add: delta_of_def)
qed

subsection \<open>Commits of others\<close>

text \<open>
  \<open>undisturbed L K db db2\<close>: what the commit of another transaction can do to the database as
  far as a transaction is concerned that has locked \<open>L\<close>; \<open>K\<close> are the pending transfers.
\<close>

definition undisturbed :: "string list \<Rightarrow> transfers_row list \<Rightarrow> db \<Rightarrow> db \<Rightarrow> bool" where
  "undisturbed L K db db2 \<longleftrightarrow>
     db_ok db \<and> db_ok db2 \<and> map acc_id (db_accounts db2) = map acc_id (db_accounts db) \<and>
     (\<forall>i \<in> set L. account_at db2 i = account_at db i) \<and>
     (\<exists>ts. db_transfers db2 = db_transfers db @ ts \<and>
        (\<forall>t \<in> set ts. row_key t \<notin> row_key ` set K \<and> tw_id t \<notin> tw_id ` set K))"

lemma undisturbed_ids: "undisturbed L K db db2 \<Longrightarrow> acc_id ` set (db_accounts db2) = acc_id ` set (db_accounts db)"
  unfolding undisturbed_def by (metis set_map)

lemma undisturbed_row:
  assumes "undisturbed L K db db2" and "a \<in> set (db_accounts db2)" and "acc_id a \<in> set L"
  shows "a \<in> set (db_accounts db)"
proof -
  have "account_at db2 (acc_id a) = Some a"
    using assms(1,2) account_at_member by (simp add: undisturbed_def)
  with assms(1,3) have "account_at db (acc_id a) = Some a" by (simp add: undisturbed_def)
  then show ?thesis using account_at_id by blast
qed

text \<open>A transaction's writes mean the same on top of the new database.\<close>

lemma delta_undisturbed:
  assumes u: "undisturbed L K db db2" and d: "delta_on L d" and f: "local_to L f"
    and eq: "apply_delta d db = eff f ts ls db"
  shows "apply_delta d db2 = eff f ts ls db2"
proof -
  note eqs = eq [unfolded eff_eq_iff]
  have tl: "dl_transfers d = ts" "dl_ledger d = ls"
    using eqs by (simp_all add: apply_delta_def)
  have rows: "map (merge_account (dl_accounts d)) (db_accounts db) = map f (db_accounts db)"
    using eqs by (simp add: apply_delta_def)
  have "merge_account (dl_accounts d) a = f a" if a: "a \<in> set (db_accounts db2)" for a
  proof (cases "acc_id a \<in> set L")
    case True
    from undisturbed_row [OF u a True] rows show ?thesis by (auto simp: map_eq_conv)
  next
    case False
    with f merge_local [OF d] show ?thesis by (simp add: local_to_def)
  qed
  then show ?thesis by (simp add: apply_delta_def eff_def tl)
qed

subsection \<open>Statements repeat\<close>

text \<open>
  For each statement: the effect it has, and that it has the same result and the same effect
  on the database after undisturbing commits.
\<close>

lemma lock_repeats:
  assumes u: "undisturbed (account_ids r) K db db2" and lock: "LockForTransfer P c db (account_ids r) = Inr m"
  shows "LockForTransfer P c db2 (account_ids r) = Inr m"
proof -
  from lock obtain m2 where lock2: "LockForTransfer P c db2 (account_ids r) = Inr m2"
    by (auto simp: LockForTransfer_def Let_def sql_lock_accounts_def exec_def split: sum.splits if_splits option.splits)
  have ok: "db_ok db" "db_ok db2" using u by (simp_all add: undisturbed_def)
  have "m2 i = m i" for i
    unfolding LockForTransfer_eq [OF ok(1) lock] LockForTransfer_eq [OF ok(2) lock2]
    using u by (simp add: undisturbed_def)
  with lock2 show ?thesis by (metis ext)
qed

lemma insert_new_iff:
  "insert_new P c db t key = Inr (db', tr) \<longleftrightarrow>
     call_fault c StmtInsertTransfer = None \<and>
     sql_insert_transfer db (transfers_values P c t key (marshal_create_transfer (nt_request t))) =
       Inr (db', transfers_values P c t key (marshal_create_transfer (nt_request t))) \<and>
     (\<exists>q. scanTransfer P (transfers_values P c t key (marshal_create_transfer (nt_request t))) = Inr (tr, q))"
  by (auto simp: insert_new_def Let_def result_simps sql_insert_transfer_Inr split: prod.splits)

lemma create_effect:
  assumes "CreateIdempotent P c db t = Inr (view, tr, created)"
  shows "view = eff id (if created then [new_row P c t] else []) [] db"
    and "created \<Longrightarrow> row_key (new_row P c t) \<notin> row_key ` set (db_transfers db) \<and>
      tw_id (new_row P c t) \<notin> tw_id ` set (db_transfers db)"
  using assms
  by (auto simp: CreateIdempotent_Inr insert_new_iff sql_insert_transfer_Inr new_row_def eff_def)

lemma insert_conflict:
  assumes "insert_new P c db t key = Inl e" and "errors_Is e ErrNoRows"
    and "find_existing P c db t key = Inr (tr, False)" and "set (db_transfers db) \<subseteq> set (db_transfers db2)"
  shows "insert_new P c db2 t key = Inl ErrNoRows"
proof -
  let ?row = "transfers_values P c t key (marshal_create_transfer (nt_request t))"
  from assms(3) obtain row where "sql_transfer_by_key db (nt_user_id t) key = Inr row"
    by (auto simp: find_existing_Inr)
  then have "row \<in> set (db_transfers db)" "row_key row = row_key ?row"
    by (auto simp: sql_transfer_by_key_def row_key_def transfers_values_def dest!: first_row_Inr split: if_splits)
  then have taken: "row_key ?row \<in> row_key ` set (db_transfers db)" "row_key ?row \<in> row_key ` set (db_transfers db2)"
    using assms(4) by (metis image_eqI subsetD)+
  have "call_fault c StmtInsertTransfer = None" "list_all pg_text (transfers_texts ?row)" "transfers_check ?row"
    using assms(1,2) taken(1)
    by (auto simp: insert_new_def Let_def result_simps sql_insert_transfer_def list_ex_row_key exec_def violation_def
        split: if_splits option.splits)
  with taken(2) show ?thesis
    by (simp add: insert_new_def Let_def sql_insert_transfer_def list_ex_row_key exec_no_fault)
qed

lemma find_existing_repeats:
  assumes "find_existing P c db t key = Inr (tr, False)" and "db_transfers db2 = db_transfers db @ ts"
  shows "find_existing P c db2 t key = Inr (tr, False)"
  using assms
  by (fastforce simp: find_existing_Inr sql_transfer_by_key_def first_row_def split: if_splits list.splits)

lemma create_repeats:
  assumes u: "undisturbed L (if created then [new_row P c t] else []) db db2"
    and cr: "CreateIdempotent P c db t = Inr (view, tr, created)"
  shows "CreateIdempotent P c db2 t = Inr (eff id (if created then [new_row P c t] else []) [] db2, tr, created)"
proof -
  from cr obtain key where key: "parseKey P (nt_idempotency_key t) = Inr key"
    and cases: "created \<and> insert_new P c db t key = Inr (view, tr) \<or>
         \<not> created \<and> view = db \<and> find_existing P c db t key = Inr (tr, False) \<and>
           (\<exists>e. insert_new P c db t key = Inl e \<and> errors_Is e ErrNoRows)"
    unfolding CreateIdempotent_Inr by blast
  from u obtain ts where ts: "db_transfers db2 = db_transfers db @ ts"
    "\<forall>t' \<in> set ts. created \<longrightarrow> row_key t' \<noteq> row_key (new_row P c t) \<and> tw_id t' \<noteq> tw_id (new_row P c t)"
    by (cases created) (auto simp: undisturbed_def)
  have row: "new_row P c t = transfers_values P c t key (marshal_create_transfer (nt_request t))"
    by (simp add: new_row_def key)
  show ?thesis
  proof (cases created)
    case True
    with cases have "insert_new P c db t key = Inr (view, tr)" by simp
    note old = this [unfolded insert_new_iff sql_insert_transfer_Inr row [symmetric]]
    have "row_key (new_row P c t) \<notin> row_key ` set ts" "tw_id (new_row P c t) \<notin> tw_id ` set ts"
      using ts(2) True by force+
    with old have "row_key (new_row P c t) \<notin> row_key ` set (db_transfers db2)"
      "tw_id (new_row P c t) \<notin> tw_id ` set (db_transfers db2)"
      by (simp_all add: ts(1) image_Un)
    with old have "insert_new P c db2 t key = Inr (eff id [new_row P c t] [] db2, tr)"
      unfolding insert_new_iff sql_insert_transfer_Inr row [symmetric]
      by (simp add: eff_def undisturbed_ids [OF u])
    with True key show ?thesis by (simp add: CreateIdempotent_Inr)
  next
    case False
    with cases obtain e where found: "find_existing P c db t key = Inr (tr, False)"
      and "insert_new P c db t key = Inl e" "errors_Is e ErrNoRows" by blast
    then have "insert_new P c db2 t key = Inl ErrNoRows"
      by (intro insert_conflict) (auto simp: ts(1))
    moreover have "find_existing P c db2 t key = Inr (tr, False)"
      using found ts(1) by (rule find_existing_repeats)
    ultimately have "CreateIdempotent P c db2 t = Inr (db2, tr, False)"
      using key by (simp add: CreateIdempotent_Inr)
    with False show ?thesis by simp
  qed
qed

definition new_balance :: "pg_call \<Rightarrow> account list \<Rightarrow> account \<Rightarrow> account" where
  "new_balance c as a =
     (case map_of (zip (map acc_id as) (map acc_balance as)) (acc_id a) of
        None \<Rightarrow> a | Some n \<Rightarrow> a\<lparr>acc_balance := n, acc_updated_at := call_now c\<rparr>)"

lemma new_balance_local: "set (map acc_id as) \<subseteq> set L \<Longrightarrow> local_to L (new_balance c as)"
  unfolding local_to_def new_balance_def
proof safe
  fix a assume as: "set (map acc_id as) \<subseteq> set L" and a: "acc_id a \<notin> set L"
  then have "acc_id a \<notin> set (map acc_id as)" by blast
  then have "acc_id a \<notin> fst ` set (zip (map acc_id as) (map acc_balance as))"
    by (simp add: map_fst_zip flip: set_map)
  then show "(case map_of (zip (map acc_id as) (map acc_balance as)) (acc_id a) of
      None \<Rightarrow> a | Some n \<Rightarrow> a\<lparr>acc_balance := n, acc_updated_at := call_now c\<rparr>) = a"
    by (simp add: map_of_eq_None_iff [THEN iffD2])
qed (auto split: option.split)

lemma save_effect:
  "SaveBalances c (eff id ts [] db) as = Inr view \<Longrightarrow> view = eff (new_balance c as) ts [] db"
  by (drule SaveBalances_eq(1)) (simp add: eff_def new_balance_def)

lemma SaveBalances_Inr:
  "SaveBalances c db as = Inr db' \<longleftrightarrow>
     call_fault c StmtSaveBalances = None \<and> list_all pg_text (map acc_id as) \<and>
     list_all (\<lambda>a. 0 \<le> sint (acc_balance (new_balance c as a))) (db_accounts db) \<and>
     length (filter (\<lambda>i. map_of (zip (map acc_id as) (map acc_balance as)) i \<noteq> None) (map acc_id (db_accounts db)))
       = length as \<and>
     db' = db\<lparr>db_accounts := map (new_balance c as) (db_accounts db)\<rparr>"
  by (auto simp: SaveBalances_def sql_update_balances_def new_balance_def Let_def exec_no_fault list.pred_map comp_def
      filter_map split: sum.splits if_splits)

lemma save_repeats:
  assumes u: "undisturbed L K db db2" and as: "set (map acc_id as) \<subseteq> set L"
    and save: "SaveBalances c (eff id ts [] db) as = Inr view"
  shows "SaveBalances c (eff id ts [] db2) as = Inr (eff (new_balance c as) ts [] db2)"
proof -
  have nonneg: "0 \<le> sint (acc_balance (new_balance c as a))" if a: "a \<in> set (db_accounts db2)" for a
  proof (cases "acc_id a \<in> set L")
    case True
    with undisturbed_row [OF u a] save show ?thesis by (simp add: SaveBalances_Inr list_all_iff)
  next
    case False
    with new_balance_local [OF as, of c] have "new_balance c as a = a" by (simp add: local_to_def)
    moreover have "accounts_check a" using u a by (simp add: undisturbed_def db_ok_def list_all_iff)
    ultimately show ?thesis by (simp add: accounts_check_def)
  qed
  have "map acc_id (db_accounts db2) = map acc_id (db_accounts db)" using u by (simp add: undisturbed_def)
  with save nonneg show ?thesis
    by (simp add: SaveBalances_Inr list_all_iff eff_def)
qed

lemma append_effect:
  "Append P c (eff f ts [] db) es = Inr view \<Longrightarrow> \<exists>ls. view = eff f ts ls db"
  by (auto simp: Append_def sql_insert_ledger_def eff_def split: option.splits if_splits)

lemma append_repeats:
  assumes u: "undisturbed L K db db2" and f: "local_to L f"
    and app: "Append P c (eff f ts [] db) es = Inr (eff f ts ls db)"
  shows "Append P c (eff f ts [] db2) es = Inr (eff f ts ls db2)"
proof -
  have ids: "acc_id ` f ` set (db_accounts db2) = acc_id ` f ` set (db_accounts db)"
    using undisturbed_ids [OF u] f by (simp add: image_image local_to_def)
  obtain ts2 where "db_transfers db2 = db_transfers db @ ts2" using u by (auto simp: undisturbed_def)
  moreover from app obtain rows where "those (map (ledger_value P c) es) = Some rows" "ls = rows"
    by (auto simp: Append_def sql_insert_ledger_def eff_eq_iff split: option.splits if_splits)
  ultimately show ?thesis
    using app ids
    by (auto simp: Append_def sql_insert_ledger_def eff_def list_ex_key image_Un exec_no_fault list_all_iff split: if_splits)
qed

end
