(* ===== verification/Tx_Invariant.thy ===== *)
theory Tx_Invariant
  imports Tx_Serial
begin

text \<open>
  The invariant of the concurrent system. For each transaction: the statements it has run so
  far have, on the committed database as it is now, the results they had when they ran. For
  two transactions: they hold no row lock in common and have no pending key or identifier in
  common. Every step keeps it, and a step that ends a call is exactly one call of the service
  on the committed database.
\<close>

subsection \<open>What a transaction has done so far\<close>

definition passed :: "request_call \<Rightarrow> bool" where
  "passed call \<longleftrightarrow> (case call of (c, u, key, r) \<Rightarrow>
     TrimSpace u \<noteq> '''' \<and> CreateTransfer_Validate r = Inr () \<and> call_fault c StmtBegin = None)"

definition decided :: "pg \<Rightarrow> db \<Rightarrow> request_call \<Rightarrow> decision \<Rightarrow> bool" where
  "decided P db call dec \<longleftrightarrow> passed call \<and> (case call of (c, u, key, r) \<Rightarrow>
     and_then (LockForTransfer P c db (account_ids r)) (decide u r) = Inr dec)"

definition new_rows :: "pg \<Rightarrow> request_call \<Rightarrow> decision \<Rightarrow> bool \<Rightarrow> transfers_row list" where
  "new_rows P call dec created = (case call of (c, u, key, r) \<Rightarrow>
     if created then [new_row P c (dec_draft u key r dec)] else [])"

definition inserted :: "pg \<Rightarrow> db \<Rightarrow> request_call \<Rightarrow> decision \<Rightarrow> transfer \<Rightarrow> bool \<Rightarrow> bool" where
  "inserted P db call dec tr created \<longleftrightarrow> decided P db call dec \<and> (case call of (c, u, key, r) \<Rightarrow>
     CreateIdempotent P c db (dec_draft u key r dec) =
       Inr (eff id (new_rows P call dec created) [] db, tr, created))"

definition saved :: "pg \<Rightarrow> db \<Rightarrow> request_call \<Rightarrow> decision \<Rightarrow> transfer \<Rightarrow> bool \<Rightarrow> bool" where
  "saved P db call dec tr created \<longleftrightarrow>
     inserted P db call dec tr created \<and> moves tr created \<and>
     SaveBalances (fst call) (eff id (new_rows P call dec created) [] db) (dec_accounts dec) =
       Inr (eff (new_balance (fst call) (dec_accounts dec)) (new_rows P call dec created) [] db)"

definition appended ::
  "pg \<Rightarrow> db \<Rightarrow> request_call \<Rightarrow> decision \<Rightarrow> transfer \<Rightarrow> bool \<Rightarrow> ledger_row list \<Rightarrow> bool" where
  "appended P db call dec tr created ls \<longleftrightarrow>
     saved P db call dec tr created \<and> (case call of (c, u, key, r) \<Rightarrow>
     Append P c (eff (new_balance c (dec_accounts dec)) (new_rows P call dec created) [] db) (dec_entries r tr dec) =
       Inr (eff (new_balance c (dec_accounts dec)) (new_rows P call dec created) ls db))"

definition writes :: "string list \<Rightarrow> db \<Rightarrow> delta \<Rightarrow> (account \<Rightarrow> account) \<Rightarrow> transfers_row list \<Rightarrow> ledger_row list \<Rightarrow> bool" where
  "writes L db d f ts ls \<longleftrightarrow> local_to L f \<and> delta_on L d \<and> apply_delta d db = eff f ts ls db"

abbreviation request_of :: "request_call \<Rightarrow> create_transfer" where
  "request_of call \<equiv> snd (snd (snd call))"

fun tx_inv :: "pg \<Rightarrow> db \<Rightarrow> request_call \<Rightarrow> tx_state \<Rightarrow> bool" where
  "tx_inv P db call Idle \<longleftrightarrow> True"
| "tx_inv P db call (Finished res) \<longleftrightarrow> True"
| "tx_inv P db call (Locking held todo) \<longleftrightarrow> passed call \<and> held @ todo = lock_list P db (request_of call)"
| "tx_inv P db call (Locked dec) \<longleftrightarrow> decided P db call dec"
| "tx_inv P db call (Inserted dec tr created d) \<longleftrightarrow>
     inserted P db call dec tr created \<and>
     writes (account_ids (request_of call)) db d id (new_rows P call dec created) []"
| "tx_inv P db call (Saved dec tr d) \<longleftrightarrow>
     saved P db call dec tr True \<and>
     writes (account_ids (request_of call)) db d (new_balance (fst call) (dec_accounts dec))
       (new_rows P call dec True) []"
| "tx_inv P db call (Written tr created d) \<longleftrightarrow>
     (\<exists>dec. inserted P db call dec tr created \<and> \<not> moves tr created \<and>
        writes (account_ids (request_of call)) db d id (new_rows P call dec created) []) \<or>
     (\<exists>dec ls. appended P db call dec tr created ls \<and>
        writes (account_ids (request_of call)) db d (new_balance (fst call) (dec_accounts dec))
          (new_rows P call dec created) ls)"

subsection \<open>A call that ends\<close>

lemma service_passed:
  assumes "passed (c, u, key, r)"
  shows "service_Create P c u key r db =
    (case create_tx (txRepositories P c) u key r db of
       (_, Inl e) \<Rightarrow> (db, Inl (Wrapped ''create transfer'' e))
     | (db', Inr x) \<Rightarrow>
         (case call_commit c of
            Committed \<Rightarrow> (db', Inr x)
          | CommitRefused m \<Rightarrow> (db, Inl (Wrapped ''create transfer'' (DbError m)))
          | CommitUnacknowledged m \<Rightarrow> (db', Inl (Wrapped ''create transfer'' (DbError m)))))"
  using assms
  by (auto simp: service_Create_def Create_def NewStore_def Store_WithinTx_def passed_def exec_no_fault
      split: sum.split prod.split commit_outcome.split)

lemma repository_operations:
  "tx_LockForTransfer (txRepositories P c) = LockForTransfer P c"
  "tx_CreateIdempotent (txRepositories P c) = CreateIdempotent P c"
  "tx_SaveBalances (txRepositories P c) = SaveBalances c"
  "tx_Append (txRepositories P c) = Append P c"
  by (simp_all add: txRepositories_def)

lemmas statements = create_tx_statements [where tx = "txRepositories P c" for P c, folded account_ids_def,
  unfolded repository_operations]

lemma run_decided:
  assumes "decided P db (c, u, key, r) dec"
  shows "create_tx (txRepositories P c) u key r db =
    step_in db (CreateIdempotent P c db (dec_draft u key r dec)) (\<lambda>(s, result, created).
       if \<not> moves result created then (s, Inr (result, created))
       else step_in s (SaveBalances c s (dec_accounts dec)) (\<lambda>s.
         step_in s (Append P c s (dec_entries r result dec)) (\<lambda>s. (s, Inr (result, created)))))"
  using assms unfolding statements decided_def by (auto simp: and_then_eq_Inr)

lemma run_inserted:
  assumes "inserted P db (c, u, key, r) dec tr created"
  shows "create_tx (txRepositories P c) u key r db =
    (let view = eff id (new_rows P (c, u, key, r) dec created) [] db in
     if \<not> moves tr created then (view, Inr (tr, created))
     else step_in view (SaveBalances c view (dec_accounts dec)) (\<lambda>s.
       step_in s (Append P c s (dec_entries r tr dec)) (\<lambda>s. (s, Inr (tr, created)))))"
  using assms run_decided [of P db c u key r dec] by (simp add: inserted_def Let_def)

lemma run_saved:
  assumes "saved P db (c, u, key, r) dec tr created"
  shows "create_tx (txRepositories P c) u key r db =
    (let view = eff (new_balance c (dec_accounts dec)) (new_rows P (c, u, key, r) dec created) [] db in
     step_in view (Append P c view (dec_entries r tr dec)) (\<lambda>s. (s, Inr (tr, created))))"
  using assms run_inserted [of P db c u key r dec tr created] by (simp add: saved_def Let_def)

lemma run_written:
  assumes "tx_inv P db (c, u, key, r) (Written tr created d)"
  shows "create_tx (txRepositories P c) u key r db = (apply_delta d db, Inr (tr, created))"
  using assms run_inserted [of P db c u key r _ tr created] run_saved [of P db c u key r _ tr created]
  by (auto simp: writes_def appended_def Let_def)

text \<open>
  The statements of a call by rules: \<open>proceeds\<close> when the statement succeeds and the call goes on,
  \<open>aborts\<close> when it fails and the transaction is rolled back.
\<close>

inductive proceeds :: "pg \<Rightarrow> request_call \<Rightarrow> db \<Rightarrow> tx_state \<Rightarrow> tx_state \<Rightarrow> bool" for P call db where
  begins: "passed call \<Longrightarrow> proceeds P call db Idle (Locking [] (lock_list P db (request_of call)))"
| locks_row: "call_fault (fst call) StmtLockAccounts = None \<Longrightarrow>
    proceeds P call db (Locking held (i # todo)) (Locking (held @ [i]) todo)"
| decides: "call = (c, u, key, r) \<Longrightarrow> and_then (LockForTransfer P c db (account_ids r)) (decide u r) = Inr dec \<Longrightarrow>
    proceeds P call db (Locking held []) (Locked dec)"
| inserts: "call = (c, u, key, r) \<Longrightarrow>
    CreateIdempotent P c db (dec_draft u key r dec) = Inr (view, tr, created) \<Longrightarrow>
    proceeds P call db (Locked dec) (Inserted dec tr created (delta_of (account_ids r) db view))"
| skips: "\<not> moves tr created \<Longrightarrow> proceeds P call db (Inserted dec tr created d) (Written tr created d)"
| saves: "call = (c, u, key, r) \<Longrightarrow> moves tr created \<Longrightarrow>
    SaveBalances c (apply_delta d db) (dec_accounts dec) = Inr view \<Longrightarrow>
    proceeds P call db (Inserted dec tr created d) (Saved dec tr (delta_of (account_ids r) db view))"
| appends: "call = (c, u, key, r) \<Longrightarrow> Append P c (apply_delta d db) (dec_entries r tr dec) = Inr view \<Longrightarrow>
    proceeds P call db (Saved dec tr d) (Written tr True (delta_of (account_ids r) db view))"

inductive aborts :: "pg \<Rightarrow> request_call \<Rightarrow> db \<Rightarrow> tx_state \<Rightarrow> go_error \<Rightarrow> bool" for P call db where
  lock_fails: "exec (fst call) StmtLockAccounts (Inr ()) = Inl e \<Longrightarrow>
    aborts P call db (Locking held (i # todo)) (Wrapped ''lock accounts'' e)"
| decide_fails: "call = (c, u, key, r) \<Longrightarrow>
    and_then (LockForTransfer P c db (account_ids r)) (decide u r) = Inl e \<Longrightarrow>
    aborts P call db (Locking held []) e"
| insert_fails: "call = (c, u, key, r) \<Longrightarrow> CreateIdempotent P c db (dec_draft u key r dec) = Inl e \<Longrightarrow>
    aborts P call db (Locked dec) e"
| save_fails: "moves tr created \<Longrightarrow> SaveBalances (fst call) (apply_delta d db) (dec_accounts dec) = Inl e \<Longrightarrow>
    aborts P call db (Inserted dec tr created d) e"
| append_fails: "call = (c, u, key, r) \<Longrightarrow> Append P c (apply_delta d db) (dec_entries r tr dec) = Inl e \<Longrightarrow>
    aborts P call db (Saved dec tr d) e"

lemma advance_cases [consumes 2, case_names goes_on aborts refused commits]:
  assumes adv: "advance P call db st = (db', st')" and "\<not> finished st"
  obtains "db' = db" "proceeds P call db st st'" "\<not> finished st'"
  | e where "db' = db" "st' = fail e" "aborts P call db st e"
  | res where "st = Idle" "db' = db" "st' = Finished res"
  | tr created d where "st = Written tr created d" "finish (fst call) db d tr created = (db', st')"
proof -
  obtain c u key r where call: "call = (c, u, key, r)" by (metis prod_cases4)
  have "db' = db \<and> proceeds P call db st st' \<and> \<not> finished st' \<or>
    (\<exists>e. db' = db \<and> st' = fail e \<and> aborts P call db st e) \<or>
    (\<exists>res. st = Idle \<and> db' = db \<and> st' = Finished res) \<or>
    (\<exists>tr created d. st = Written tr created d \<and> finish (fst call) db d tr created = (db', st'))"
  proof (cases st)
    case (Locking held todo)
    with adv show ?thesis
      by (cases todo) (auto simp: advance_def call finished_def fail_def proceeds.simps aborts.simps split: sum.splits)
  qed (use assms in \<open>auto simp: advance_def call finished_def fail_def passed_def proceeds.simps aborts.simps
      split: sum.splits if_splits prod.splits\<close>)
  with that show thesis by blast
qed

text \<open>The step in which a call ends is the whole call, run on the committed database.\<close>

lemma failing_create:
  assumes "passed (c, u, key, r)" and "snd (create_tx (txRepositories P c) u key r db) = Inl e"
  shows "service_Create P c u key r db = (db, Inl (Wrapped ''create transfer'' e))"
  using assms by (cases "create_tx (txRepositories P c) u key r db") (simp add: service_passed)

lemma tx_inv_passed: "tx_inv P db call st \<Longrightarrow> st \<noteq> Idle \<Longrightarrow> \<not> finished st \<Longrightarrow> passed call"
  by (cases st) (auto simp: appended_def saved_def inserted_def decided_def finished_def)

lemma aborted_create:
  assumes "aborts P (c, u, key, r) db st e" and "tx_inv P db (c, u, key, r) st"
  shows "snd (create_tx (txRepositories P c) u key r db) = Inl e"
  using assms
proof (cases rule: aborts.cases)
  case (lock_fails e' held i todo)
  then show ?thesis by (auto simp: statements LockForTransfer_def Let_def exec_def split: option.splits)
next
  case decide_fails
  then show ?thesis by (auto simp: statements and_then_eq_Inl step_in_error)
next
  case (insert_fails c u key r dec)
  then show ?thesis using assms(2) run_decided [of P db c u key r dec] by simp
next
  case (save_fails tr created d dec)
  then show ?thesis using assms(2) run_inserted [of P db c u key r dec tr created] by (simp add: writes_def Let_def)
next
  case (append_fails c u key r d tr dec)
  then show ?thesis using assms(2) run_saved [of P db c u key r dec tr True] by (simp add: writes_def Let_def)
qed

lemma idle_ends:
  assumes "advance P (c, u, key, r) db Idle = (db', Finished res)"
  shows "service_Create P c u key r db = (db', res)"
  using assms
  by (auto simp: advance_def service_Create_def Create_def NewStore_def Store_WithinTx_def fail_def exec_def
      split: if_splits sum.splits option.splits)

lemma commit_ends:
  assumes "tx_inv P db (c, u, key, r) (Written tr created d)"
    and "finish c db d tr created = (db', Finished res)"
  shows "service_Create P c u key r db = (db', res)"
proof -
  have "passed (c, u, key, r)" using tx_inv_passed [OF assms(1)] by (simp add: finished_def)
  then show ?thesis
    using assms(2) run_written [OF assms(1)]
    by (auto simp: service_passed finish_def fail_def split: commit_outcome.splits)
qed

lemma advance_ends:
  assumes inv: "tx_inv P db (c, u, key, r) st" and st: "\<not> finished st"
    and adv: "advance P (c, u, key, r) db st = (db', Finished res)"
  shows "service_Create P c u key r db = (db', res)"
  using adv st
proof (cases rule: advance_cases)
  case (aborts e)
  have "st \<noteq> Idle" using aborts(3) by (auto elim: aborts.cases)
  with inv st have "passed (c, u, key, r)" by (intro tx_inv_passed)
  with failing_create aborted_create [OF aborts(3) inv] aborts(1,2) show ?thesis by (auto simp: fail_def)
qed (use adv inv in \<open>auto simp: finished_def simp del: tx_inv.simps intro: idle_ends commit_ends\<close>)

subsection \<open>A call that goes on\<close>

lemma decided_accounts:
  assumes ok: "db_ok db" and dec: "decided P db (c, u, key, r) dec"
  shows "map acc_id (dec_accounts dec) = account_ids r"
    and "\<forall>i \<in> set (account_ids r). account_at db i \<noteq> None"
proof -
  from dec obtain m where lock: "LockForTransfer P c db (account_ids r) = Inr m" and "decide u r m = Inr dec"
    by (auto simp: decided_def and_then_eq_Inr)
  then obtain src dst where m: "m (req_from_account_id r) = Some src" "m (req_to_account_id r) = Some dst"
    and settle: "settle src dst (req_amount r) = Inr dec"
    by (auto simp: decide_def split: option.splits if_splits)
  note at = LockForTransfer_eq [OF ok lock]
  from m have "account_at db (req_from_account_id r) = Some src" "account_at db (req_to_account_id r) = Some dst"
    by (auto simp: at split: if_splits)
  moreover from this have "acc_id src = req_from_account_id r" "acc_id dst = req_to_account_id r"
    using account_at_id by blast+
  ultimately show "map acc_id (dec_accounts dec) = account_ids r"
    "\<forall>i \<in> set (account_ids r). account_at db i \<noteq> None"
    using settle
    by (auto simp: dec_accounts_def account_ids_def settle_eq_Inr money_cases split: prod.splits)
qed

lemma decided_local:
  assumes "db_ok db" and "decided P db call dec"
  shows "local_to (account_ids (request_of call)) (new_balance (fst call) (dec_accounts dec))"
  using decided_accounts(1) [OF assms(1), of P "fst call" "fst (snd call)" "fst (snd (snd call))" "request_of call" dec] assms(2)
  by (intro new_balance_local) simp

lemma writes_delta_of:
  assumes "db_ok db" and "local_to L f"
  shows "writes L db (delta_of L db (eff f ts ls db)) f ts ls"
  using delta_of_eff [of db L f ts ls] assms by (simp add: writes_def db_ok_def)

lemma insert_keeps:
  assumes ok: "db_ok db" and dec: "decided P db (c, u, key, r) dec"
    and create: "CreateIdempotent P c db (dec_draft u key r dec) = Inr (view, tr, created)"
  shows "tx_inv P db (c, u, key, r) (Inserted dec tr created (delta_of (account_ids r) db view))"
proof -
  have "view = eff id (new_rows P (c, u, key, r) dec created) [] db"
    using create_effect(1) [OF create] by (simp add: new_rows_def)
  with dec create show ?thesis by (simp add: inserted_def writes_delta_of [OF ok])
qed

lemma save_keeps:
  assumes ok: "db_ok db" and inv: "tx_inv P db (c, u, key, r) (Inserted dec tr created d)" and mv: "moves tr created"
    and save: "SaveBalances c (apply_delta d db) (dec_accounts dec) = Inr view"
  shows "tx_inv P db (c, u, key, r) (Saved dec tr (delta_of (account_ids r) db view))"
proof -
  let ?rows = "new_rows P (c, u, key, r) dec created"
  have ins: "inserted P db (c, u, key, r) dec tr created" and created
    and save': "SaveBalances c (eff id ?rows [] db) (dec_accounts dec) = Inr view"
    using inv mv save by (simp_all add: writes_def moves_def)
  moreover have "local_to (account_ids r) (new_balance c (dec_accounts dec))"
    using decided_local [OF ok, of P "(c, u, key, r)" dec] ins by (simp add: inserted_def)
  ultimately show ?thesis
    using mv by (simp add: saved_def save_effect [OF save'] writes_delta_of [OF ok])
qed

lemma append_keeps:
  assumes ok: "db_ok db" and inv: "tx_inv P db (c, u, key, r) (Saved dec tr d)"
    and app: "Append P c (apply_delta d db) (dec_entries r tr dec) = Inr view"
  shows "tx_inv P db (c, u, key, r) (Written tr True (delta_of (account_ids r) db view))"
proof -
  let ?rows = "new_rows P (c, u, key, r) dec True" and ?f = "new_balance c (dec_accounts dec)"
  have app': "Append P c (eff ?f ?rows [] db) (dec_entries r tr dec) = Inr view" and f: "local_to (account_ids r) ?f"
    using inv app by (simp_all add: writes_def)
  then obtain ls where view: "view = eff ?f ?rows ls db" using append_effect by blast
  then have "appended P db (c, u, key, r) dec tr True ls" using inv app' by (simp add: appended_def)
  moreover have "writes (account_ids r) db (delta_of (account_ids r) db view) ?f ?rows ls"
    unfolding view using f by (rule writes_delta_of [OF ok])
  ultimately show ?thesis by (auto simp del: split_paired_Ex)
qed

lemma proceeds_keeps:
  assumes ok: "db_ok db" and inv: "tx_inv P db call st" and step: "proceeds P call db st st'"
  shows "tx_inv P db call st'"
  using step
proof (cases rule: proceeds.cases)
  case (decides c u key r dec held)
  then show ?thesis using inv by (simp add: decided_def)
next
  case (skips tr created dec d)
  then show ?thesis using inv by (auto simp del: split_paired_Ex)
qed (use inv in \<open>auto simp: insert_keeps [OF ok] save_keeps [OF ok] append_keeps [OF ok] simp del: tx_inv.simps(5-7)
      simp del: split_paired_Ex\<close>)

subsection \<open>Commits of other calls\<close>

lemma map_sort_by: "map f (sort_by le f xs) = sort_by le id (map f xs)"
proof -
  have "map f (insert_by le f x ys) = insert_by le id (f x) (map f ys)" for x ys
    by (induction ys) simp_all
  then show ?thesis by (induction xs) simp_all
qed

lemma lock_list_ids:
  assumes "map acc_id (db_accounts db2) = map acc_id (db_accounts db)"
  shows "lock_list P db2 r = lock_list P db r"
proof -
  have "map acc_id (filter (\<lambda>a. acc_id a \<in> S) as) = filter (\<lambda>i. i \<in> S) (map acc_id as)" for S as
    by (simp add: filter_map comp_def)
  with assms show ?thesis unfolding lock_list_def map_sort_by by metis
qed

lemma decided_undisturbed:
  assumes "undisturbed (account_ids r) K db db2" and "decided P db (c, u, key, r) dec"
  shows "decided P db2 (c, u, key, r) dec"
  using assms lock_repeats [OF assms(1)] by (auto simp: decided_def and_then_eq_Inr)

lemma inserted_undisturbed:
  assumes u: "undisturbed (account_ids r) (new_rows P (c, u, key, r) dec created) db db2"
    and ins: "inserted P db (c, u, key, r) dec tr created"
  shows "inserted P db2 (c, u, key, r) dec tr created"
proof -
  have rows: "(if created then [new_row P c (dec_draft u key r dec)] else []) = new_rows P (c, u, key, r) dec created"
    by (simp add: new_rows_def)
  show ?thesis
    using ins decided_undisturbed [OF u] create_repeats [where t = "dec_draft u key r dec" and P = P and c = c and created = created, unfolded rows, OF u]
    by (auto simp: inserted_def)
qed

lemma saved_undisturbed:
  assumes u: "undisturbed (account_ids r) (new_rows P (c, u, key, r) dec created) db db2"
    and sav: "saved P db (c, u, key, r) dec tr created"
  shows "saved P db2 (c, u, key, r) dec tr created"
proof -
  have "set (map acc_id (dec_accounts dec)) \<subseteq> set (account_ids r)"
    using decided_accounts(1) [of db P c u key r dec] u sav
    by (simp add: saved_def inserted_def undisturbed_def del: set_map)
  from save_repeats [OF u this] show ?thesis
    using sav inserted_undisturbed [OF u] by (auto simp: saved_def)
qed

lemma appended_undisturbed:
  assumes u: "undisturbed (account_ids r) (new_rows P (c, u, key, r) dec created) db db2"
    and app: "appended P db (c, u, key, r) dec tr created ls"
  shows "appended P db2 (c, u, key, r) dec tr created ls"
proof -
  have "local_to (account_ids r) (new_balance c (dec_accounts dec))"
    using decided_local [of db P "(c, u, key, r)" dec] u app
    by (simp add: appended_def saved_def inserted_def undisturbed_def)
  from append_repeats [OF u this] show ?thesis
    using app saved_undisturbed [OF u] by (auto simp: appended_def)
qed

lemma writes_undisturbed: "undisturbed L K db db2 \<Longrightarrow> writes L db d f ts ls \<Longrightarrow> writes L db2 d f ts ls"
  by (auto simp: writes_def intro: delta_undisturbed)

lemma writes_rows: "writes L db d f ts ls \<Longrightarrow> dl_transfers d = ts"
  by (simp add: writes_def apply_delta_eff eff_eq_iff)

lemma tx_inv_undisturbed:
  assumes ids: "map acc_id (db_accounts db2) = map acc_id (db_accounts db)"
    and u: "locks r st = set (account_ids r) \<Longrightarrow> undisturbed (account_ids r) (pending_rows st) db db2"
    and inv: "tx_inv P db (c, u, key, r) st"
  shows "tx_inv P db2 (c, u, key, r) st"
proof (cases st)
  case (Locking held todo)
  with inv show ?thesis by (simp add: lock_list_ids [OF ids])
next
  case (Locked dec)
  with u inv show ?thesis by (auto intro: decided_undisturbed)
next
  case (Inserted dec tr created d)
  with u inv show ?thesis by (auto simp: writes_rows intro: inserted_undisturbed writes_undisturbed)
next
  case (Saved dec tr d)
  with u inv show ?thesis by (auto simp: writes_rows intro: saved_undisturbed writes_undisturbed)
next
  case (Written tr created d)
  with u have u': "undisturbed (account_ids r) (dl_transfers d) db db2" by simp
  from inv Written consider
    (kept) dec where "inserted P db (c, u, key, r) dec tr created" "\<not> moves tr created"
      "writes (account_ids r) db d id (new_rows P (c, u, key, r) dec created) []"
  | (moved) dec ls where "appended P db (c, u, key, r) dec tr created ls"
      "writes (account_ids r) db d (new_balance c (dec_accounts dec)) (new_rows P (c, u, key, r) dec created) ls"
    by (auto simp del: split_paired_Ex)
  then show ?thesis
  proof cases
    case kept
    then have "inserted P db2 (c, u, key, r) dec tr created"
      "writes (account_ids r) db2 d id (new_rows P (c, u, key, r) dec created) []"
      using u' writes_rows [OF kept(3)] by (auto intro: inserted_undisturbed writes_undisturbed)
    with kept(2) Written show ?thesis by (auto simp del: split_paired_Ex)
  next
    case moved
    then have "appended P db2 (c, u, key, r) dec tr created ls"
      "writes (account_ids r) db2 d (new_balance c (dec_accounts dec)) (new_rows P (c, u, key, r) dec created) ls"
      using u' writes_rows [OF moved(2)] by (auto intro: appended_undisturbed writes_undisturbed)
    with Written show ?thesis by (auto simp del: split_paired_Ex)
  qed
qed simp_all

text \<open>What the end of a call can do to the database.\<close>

lemma end_effect:
  assumes inv: "tx_inv P db (c, u, key, r) st" and adv: "advance P (c, u, key, r) db st = (db', Finished res)"
  shows "\<exists>f ts ls. db' = eff f ts ls db \<and> local_to (account_ids r) f \<and> set ts \<subseteq> set (pending_rows st) \<and>
    (locks r st = set (account_ids r) \<or> db' = db)"
proof (cases "db' = db")
  case True
  then have "db' = eff id [] [] db" by simp
  with True show ?thesis by (metis local_id empty_subsetI list.set(1))
next
  case False
  with adv obtain tr created d where st: "st = Written tr created d" and db': "db' = apply_delta d db"
    by (cases st) (auto simp: advance_def fail_def finish_def
        split: if_splits sum.splits prod.splits list.splits commit_outcome.splits)
  with inv obtain f ts ls where "writes (account_ids r) db d f ts ls" by auto
  with db' writes_rows [OF this] show ?thesis unfolding writes_def st by auto
qed

lemma commit_undisturbed:
  assumes "db_ok db" "db_ok db2" and db2: "db2 = eff f ts ls db" and f: "local_to L' f"
    and L: "set L \<inter> set L' = {}"
    and K: "row_key ` set ts \<inter> row_key ` set K = {}" "tw_id ` set ts \<inter> tw_id ` set K = {}"
  shows "undisturbed L K db db2"
proof -
  have "account_at db2 i = account_at db i" if "i \<in> set L" for i
  proof -
    have "i \<notin> set L'" using that L by blast
    then have same: "f a = a" if "acc_id a = i" for a using f that by (simp add: local_to_def)
    have "account_at db2 i = map_option f (account_at db i)"
      unfolding account_at_def db2 eff_sel using f by (intro find_map_same_key) (simp add: local_to_def)
    then show ?thesis using same account_at_id by (cases "account_at db i") auto
  qed
  moreover have "map acc_id (db_accounts db2) = map acc_id (db_accounts db)"
    using f by (simp add: db2 local_to_def)
  ultimately show ?thesis
    using assms(1,2) K unfolding undisturbed_def by (auto simp: db2)
qed

subsection \<open>The system\<close>

definition apart :: "create_transfer \<Rightarrow> tx_state \<Rightarrow> create_transfer \<Rightarrow> tx_state \<Rightarrow> bool" where
  "apart r st r' st' \<longleftrightarrow>
     locks r st \<inter> locks r' st' = {} \<and>
     row_key ` set (pending_rows st) \<inter> row_key ` set (pending_rows st') = {} \<and>
     tw_id ` set (pending_rows st) \<inter> tw_id ` set (pending_rows st') = {}"

definition sys_inv :: "pg \<Rightarrow> request_call list \<Rightarrow> system \<Rightarrow> bool" where
  "sys_inv P calls s \<longleftrightarrow>
     pg_inv P (sy_db s) \<and> length (sy_txs s) = length calls \<and>
     (\<forall>n < length calls. tx_inv P (sy_db s) (calls ! n) (sy_txs s ! n)) \<and>
     (\<forall>m < length calls. \<forall>n < length calls. m \<noteq> n \<longrightarrow>
        apart (request_of (calls ! m)) (sy_txs s ! m) (request_of (calls ! n)) (sy_txs s ! n))"

lemma start_inv: "pg_inv P db \<Longrightarrow> sys_inv P calls (start_system calls db)"
  by (simp add: sys_inv_def start_system_def apart_def)

lemma apart_sym: "apart r st r' st' \<longleftrightarrow> apart r' st' r st"
  unfolding apart_def by (simp only: Int_commute)

lemma apart_finished [simp]: "apart r st r' (Finished res)"
  by (simp add: apart_def)

lemma apart_mono:
  "apart r st r' st' \<Longrightarrow> locks r' st2 \<subseteq> locks r' st' \<Longrightarrow> set (pending_rows st2) \<subseteq> set (pending_rows st') \<Longrightarrow>
   apart r st r' st2"
  unfolding apart_def by blast

lemma decided_locked:
  assumes "db_ok db" and "decided P db (c, u, key, r) dec"
  shows "set (account_ids r) \<subseteq> set (lock_list P db r)"
  using decided_accounts(2) [OF assms] by (auto simp: lock_list_def account_at_None)

lemma pending_inv:
  "tx_inv P db (c, u, key, r) (Inserted dec tr created d) \<Longrightarrow> dl_transfers d = new_rows P (c, u, key, r) dec created"
  "tx_inv P db (c, u, key, r) (Saved dec tr d) \<Longrightarrow> dl_transfers d = new_rows P (c, u, key, r) dec True"
  by (auto dest: writes_rows)

lemma locking_apart:
  assumes n: "txs ! n = Locking held (i # todo)" "\<not> blocked P calls db txs n" "calls ! n = (c, u, key, r)"
    and m: "m < length txs" "m \<noteq> n" and apart: "apart r' (txs ! m) r (txs ! n)" "r' = request_of (calls ! m)"
    and run: "exec c StmtLockAccounts (Inr ()) = Inr ()"
  shows "apart r' (txs ! m) r (Locking (held @ [i]) todo)"
proof -
  have "i \<notin> locks r' (txs ! m)"
    using n m run apart(2) by (auto simp: blocked_def waits_for_row_def list_ex_iff)
  with apart n(1) show ?thesis by (simp add: apart_def)
qed

lemma insert_apart:
  assumes n: "txs ! n = Locked dec" "\<not> blocked P calls db txs n" "calls ! n = (c, u, key, r)"
    and m: "m < length txs" "m \<noteq> n" and apart: "apart r' (txs ! m) r (txs ! n)"
    and create: "CreateIdempotent P c db (dec_draft u key r dec) = Inr (view, tr, created)"
    and d: "dl_transfers d = new_rows P (c, u, key, r) dec created"
  shows "apart r' (txs ! m) r (Inserted dec tr created d)"
proof (cases created)
  case True
  let ?row = "new_row P c (dec_draft u key r dec)"
  have draft: "nt_idempotency_key (dec_draft u key r dec) = key" by (simp add: dec_draft_def split: prod.split)
  from create True obtain k where k: "parseKey P key = Inr k" and new: "insert_new P c db (dec_draft u key r dec) k = Inr (view, tr)"
    by (auto simp: CreateIdempotent_Inr draft)
  have row: "?row = transfers_values P c (dec_draft u key r dec) k (marshal_create_transfer (nt_request (dec_draft u key r dec)))"
    by (simp add: new_row_def draft k)
  from new have ok: "call_fault c StmtInsertTransfer = None" "list_all pg_text (transfers_texts ?row)" "transfers_check ?row"
    and "row_key ?row \<notin> row_key ` set (db_transfers db)"
    unfolding insert_new_iff sql_insert_transfer_Inr row [symmetric] by blast+
  then have "list_all (\<lambda>t. row_key t \<noteq> row_key ?row) (db_transfers db)"
    unfolding list_all_iff by (metis imageI)
  with ok n k have "\<not> list_ex (\<lambda>m. m \<noteq> n \<and> list_ex (\<lambda>t. row_key t = row_key ?row \<or> tw_id t = tw_id ?row)
      (pending_rows (txs ! m))) [0..<length txs]"
    by (simp add: blocked_def waits_for_key_def Let_def key_of_def)
  with m have "\<forall>t \<in> set (pending_rows (txs ! m)). row_key t \<noteq> row_key ?row \<and> tw_id t \<noteq> tw_id ?row"
    by (auto simp: list_ex_iff)
  with apart True n(1) show ?thesis
    by (auto simp: apart_def d new_rows_def)
next
  case False
  with apart n(1) show ?thesis by (simp add: apart_def d new_rows_def)
qed

lemma proceeds_pending:
  assumes "db_ok db" and "tx_inv P db call st" and "proceeds P call db st st'" and "\<And>dec. st \<noteq> Locked dec"
  shows "pending_rows st' = pending_rows st"
  using assms(3)
proof (cases rule: proceeds.cases)
  case (saves c u key r tr created d dec view)
  then have "dl_transfers (delta_of (account_ids r) db view) = new_rows P (c, u, key, r) dec True"
    using save_keeps [OF assms(1)] pending_inv(2) assms(2) by metis
  moreover have "dl_transfers d = new_rows P (c, u, key, r) dec True"
    using saves assms(2) pending_inv(1) by (auto simp: moves_def dest!: pending_inv(1))
  ultimately show ?thesis using saves by simp
next
  case (appends c u key r d tr dec view)
  then have "db_transfers view = db_transfers (apply_delta d db)"
    by (auto simp: Append_def sql_insert_ledger_def map_error_def split: option.splits if_splits sum.splits)
  with appends show ?thesis by (simp add: delta_of_def apply_delta_def)
qed (use assms(4) in auto)

lemma proceeds_apart:
  assumes ok: "db_ok db" and inv: "tx_inv P db (calls ! n) (txs ! n)" and free: "\<not> blocked P calls db txs n"
    and step: "proceeds P (calls ! n) db (txs ! n) st'" and m: "m < length txs" "m \<noteq> n"
    and apart: "apart (request_of (calls ! m)) (txs ! m) (request_of (calls ! n)) (txs ! n)"
  shows "apart (request_of (calls ! m)) (txs ! m) (request_of (calls ! n)) st'"
  using step
proof (cases rule: proceeds.cases)
  case (locks_row held i todo)
  obtain c u key r where call: "calls ! n = (c, u, key, r)" by (metis prod_cases4)
  with locks_row locking_apart [OF _ free call m _ refl] apart show ?thesis by simp
next
  case (decides c u key r dec held)
  then have "set (account_ids r) \<subseteq> set held"
    using decided_locked [OF ok, of P c u key r dec] inv by (simp add: decided_def)
  with decides show ?thesis by (intro apart_mono [OF apart]) simp_all
next
  case (inserts c u key r dec view tr created)
  then have "dl_transfers (delta_of (account_ids r) db view) = new_rows P (c, u, key, r) dec created"
    using insert_keeps [OF ok] pending_inv(1) inv by (metis tx_inv.simps(4))
  with inserts insert_apart [OF _ free _ m] apart show ?thesis by simp
qed (use proceeds_pending [OF ok inv step] in \<open>intro apart_mono [OF apart]; simp\<close>)+

text \<open>
  A step of the system either leaves the committed database alone and its call unfinished, or
  it is a whole call of the service on the committed database, whose answer it records.
\<close>

lemma step_serial:
  assumes inv: "sys_inv P calls s" and step: "step P calls n s s'"
  shows "n < length calls \<and> \<not> finished (sy_txs s ! n) \<and> (\<exists>st'. sy_txs s' = (sy_txs s)[n := st']) \<and>
    (\<not> finished (sy_txs s' ! n) \<and> sy_db s' = sy_db s \<or>
     (case calls ! n of (c, u, key, r) \<Rightarrow>
        sy_db s' = fst (service_Create P c u key r (sy_db s)) \<and>
        sy_txs s' ! n = Finished (snd (service_Create P c u key r (sy_db s)))))"
proof -
  obtain c u key r where call: "calls ! n = (c, u, key, r)" by (metis prod_cases4)
  from step obtain db' st' where n: "n < length (sy_txs s)" "\<not> finished (sy_txs s ! n)"
    and adv: "advance P (c, u, key, r) (sy_db s) (sy_txs s ! n) = (db', st')"
    and s': "s' = \<lparr>sy_db = db', sy_txs = (sy_txs s)[n := st']\<rparr>"
    by (auto simp: step_iff call)
  have tx: "tx_inv P (sy_db s) (c, u, key, r) (sy_txs s ! n)" and len: "length (sy_txs s) = length calls"
    using inv n(1) call by (auto simp: sys_inv_def)
  have "db' = sy_db s" if "\<not> finished st'"
    using adv n(2) that by (cases rule: advance_cases) (auto simp: finish_def fail_def finished_def split: commit_outcome.splits)
  moreover have "service_Create P c u key r (sy_db s) = (db', res)" if "st' = Finished res" for res
    using advance_ends [OF tx n(2)] adv that by simp
  ultimately show ?thesis
    using n len by (auto simp: call s' finished_def split: tx_state.splits)
qed

text \<open>A call that ends does not disturb the others.\<close>

lemma end_keeps_others:
  assumes ok: "db_ok db" "db_ok db'" and inv: "tx_inv P db (c, u, key, r) st"
    and adv: "advance P (c, u, key, r) db st = (db', Finished res)"
    and inv': "tx_inv P db (c', u', key', r') st'" and apart: "apart r' st' r st"
  shows "tx_inv P db' (c', u', key', r') st'"
proof (cases "db' = db")
  case True
  with inv' show ?thesis by simp
next
  case False
  with end_effect [OF inv adv] obtain f ts ls where db': "db' = eff f ts ls db" and f: "local_to (account_ids r) f"
    and ts: "set ts \<subseteq> set (pending_rows st)" and locked: "locks r st = set (account_ids r)" by metis
  show ?thesis
  proof (rule tx_inv_undisturbed)
    show "map acc_id (db_accounts db') = map acc_id (db_accounts db)"
      using f by (simp add: db' local_to_def)
    show "tx_inv P db (c', u', key', r') st'" by (rule inv')
    assume "locks r' st' = set (account_ids r')"
    then show "undisturbed (account_ids r') (pending_rows st') db db'"
      using apart locked ts
      by (intro commit_undisturbed [OF ok db' f]) (auto simp: apart_def; blast)+
  qed
qed

lemma sys_invI:
  assumes "sys_inv P calls s" and "n < length calls" and "pg_inv P db'"
    and "tx_inv P db' (calls ! n) st'"
    and "\<And>m. m < length calls \<Longrightarrow> m \<noteq> n \<Longrightarrow> tx_inv P db' (calls ! m) (sy_txs s ! m)"
    and "\<And>m. m < length calls \<Longrightarrow> m \<noteq> n \<Longrightarrow> apart (request_of (calls ! m)) (sy_txs s ! m) (request_of (calls ! n)) st'"
  shows "sys_inv P calls \<lparr>sy_db = db', sy_txs = (sy_txs s)[n := st']\<rparr>"
  using assms by (auto simp: sys_inv_def nth_list_update apart_sym [of _ st'])

lemma step_inv:
  assumes inv: "sys_inv P calls s" and step: "step P calls n s s'"
  shows "sys_inv P calls s'"
proof -
  obtain c u key r where call: "calls ! n = (c, u, key, r)" by (metis prod_cases4)
  let ?db = "sy_db s" and ?txs = "sy_txs s"
  from step obtain db' st' where n: "n < length ?txs" "\<not> finished (?txs ! n)" "\<not> blocked P calls ?db ?txs n"
    and adv: "advance P (calls ! n) ?db (?txs ! n) = (db', st')"
    and s': "s' = \<lparr>sy_db = db', sy_txs = ?txs[n := st']\<rparr>"
    by (auto simp: step_iff)
  have pg: "pg_inv P ?db" "db_ok ?db" and len: "length ?txs = length calls"
    and tx: "\<And>m. m < length calls \<Longrightarrow> tx_inv P ?db (calls ! m) (?txs ! m)"
    and apart: "\<And>m. m < length calls \<Longrightarrow> m \<noteq> n \<Longrightarrow>
      apart (request_of (calls ! m)) (?txs ! m) (request_of (calls ! n)) (?txs ! n)"
    using inv n(1) by (auto simp: sys_inv_def pg_inv_def)
  have txn: "tx_inv P ?db (calls ! n) (?txs ! n)" using tx n(1) len by simp
  show ?thesis
  proof (cases "finished st'")
    case True
    then obtain res where st': "st' = Finished res" by (auto simp: finished_def split: tx_state.splits)
    have "db' = fst (service_Create P c u key r ?db)"
      using advance_ends [of P ?db c u key r, OF _ n(2)] txn adv by (simp add: call st')
    then have pg': "pg_inv P db'" "db_ok db'" using service_invar [OF pg(1)] by (auto simp: pg_inv_def)
    have "tx_inv P db' (calls ! m) (?txs ! m)" if "m < length calls" "m \<noteq> n" for m
      using end_keeps_others [OF pg(2) pg'(2), of P c u key r "?txs ! n" res] txn adv tx [OF that(1)] apart [OF that]
      by (cases "calls ! m") (simp add: call st')
    with pg'(1) show ?thesis unfolding s' st' using n(1) len by (intro sys_invI [OF inv]) simp_all
  next
    case False
    from adv n(2) have "db' = ?db" and go: "proceeds P (calls ! n) ?db (?txs ! n) st'"
      using False by (cases rule: advance_cases; auto simp: finish_def fail_def finished_def split: commit_outcome.splits)+
    with proceeds_keeps [OF pg(2) txn go] proceeds_apart [OF pg(2) txn n(3) go] show ?thesis
      unfolding s' using n(1) len pg(1) tx apart by (intro sys_invI [OF inv]) simp_all
  qed
qed

end
