(* ===== verification/Interleaving.thy ===== *)
theory Interleaving
  imports Prelude
begin

text \<open>
  Interfaces for systems of agents that take turns. \<open>turn_taking\<close> is a step relation with an
  invariant. In a \<open>serialized\<close> system a step of an agent is either silent or does the agent's
  whole work on the store at once; then every run is equivalent to the serial one in the
  order in which the agents finish. In a \<open>progressing\<close> system every step uses up some of a
  finite amount of work, and some agent can move until the work is done; then every run is
  short and can be completed. The transactions of the transfer service implement both.
\<close>

locale turn_taking =
  fixes step :: "nat \<Rightarrow> 's \<Rightarrow> 's \<Rightarrow> bool"
    and inv :: "'s \<Rightarrow> bool"
  assumes inv_step: "inv s \<Longrightarrow> step n s s' \<Longrightarrow> inv s'"
begin

text \<open>Runs are recorded with the schedule: which agent moved.\<close>

inductive reaches :: "'s \<Rightarrow> nat list \<Rightarrow> 's \<Rightarrow> bool" for s0 where
  reaches_start: "reaches s0 [] s0"
| reaches_step: "reaches s0 ns s \<Longrightarrow> step n s s' \<Longrightarrow> reaches s0 (ns @ [n]) s'"

lemma reaches_inv: "reaches s0 ns s \<Longrightarrow> inv s0 \<Longrightarrow> inv s"
  by (induction rule: reaches.induct) (auto intro: inv_step)

end

text \<open>
  \<open>answer s n\<close> is what agent \<open>n\<close> has been answered, \<open>serve n\<close> its whole work on the store.
  \<open>remdups\<close> keeps last occurrences: for an agent that is done, the step in which it finished.
\<close>

locale serialized = turn_taking step inv
  for step :: "nat \<Rightarrow> 's \<Rightarrow> 's \<Rightarrow> bool" and inv :: "'s \<Rightarrow> bool" +
  fixes agents :: "nat set"
    and store :: "'s \<Rightarrow> 'd"
    and answer :: "'s \<Rightarrow> nat \<Rightarrow> 'r option"
    and serve :: "nat \<Rightarrow> 'd \<Rightarrow> 'd \<times> 'r"
  assumes step_agent: "inv s \<Longrightarrow> step n s s' \<Longrightarrow> n \<in> agents \<and> answer s n = None"
    and step_others: "inv s \<Longrightarrow> step n s s' \<Longrightarrow> m \<noteq> n \<Longrightarrow> answer s' m = answer s m"
    and step_store: "inv s \<Longrightarrow> step n s s' \<Longrightarrow>
      answer s' n = None \<and> store s' = store s \<or>
      store s' = fst (serve n (store s)) \<and> answer s' n = Some (snd (serve n (store s)))"
begin

definition serial_order :: "nat list \<Rightarrow> 's \<Rightarrow> nat list" where
  "serial_order ns s = filter (\<lambda>n. answer s n \<noteq> None) (remdups ns)"

definition serve_in_order :: "nat list \<Rightarrow> 'd \<Rightarrow> 'd" where
  "serve_in_order ns d = fold (\<lambda>n. fst \<circ> serve n) ns d"

lemma serve_in_order_snoc: "serve_in_order (ns @ [n]) d = fst (serve n (serve_in_order ns d))"
  by (simp add: serve_in_order_def)

lemma remdups_snoc: "remdups (ns @ [n]) = remdups (filter (\<lambda>m. m \<noteq> n) ns) @ [n]"
  by (induction ns) auto

lemma serial_order_step:
  assumes "inv s" and "step n s s'"
  shows "serial_order (ns @ [n]) s' = serial_order ns s @ (if answer s' n = None then [] else [n])"
proof -
  have "filter (\<lambda>m. answer s' m \<noteq> None) (filter (\<lambda>m. m \<noteq> n) ns) = filter (\<lambda>m. answer s m \<noteq> None) ns"
    unfolding filter_filter
  proof (intro filter_cong refl)
    fix m
    show "m \<noteq> n \<and> answer s' m \<noteq> None \<longleftrightarrow> answer s m \<noteq> None"
      using step_agent [OF assms] step_others [OF assms] by (cases "m = n") auto
  qed
  then have "filter (\<lambda>m. answer s' m \<noteq> None) (remdups (filter (\<lambda>m. m \<noteq> n) ns)) = serial_order ns s"
    unfolding serial_order_def by (metis remdups_filter)
  then show ?thesis unfolding serial_order_def remdups_snoc by simp
qed

text \<open>What it means for a state to be explained by a serial execution.\<close>

definition explained :: "'d \<Rightarrow> nat list \<Rightarrow> 's \<Rightarrow> bool" where
  "explained d os s \<longleftrightarrow>
     set os = {n \<in> agents. answer s n \<noteq> None} \<and> store s = serve_in_order os d \<and>
     (\<forall>k < length os. answer s (os ! k) = Some (snd (serve (os ! k) (serve_in_order (take k os) d))))"

lemma explained_silent:
  assumes "inv s" and "step n s s'" and "answer s' n = None" and "explained d os s"
  shows "explained d os s'"
proof -
  have same: "answer s' m = answer s m" for m
    using step_agent [OF assms(1,2)] step_others [OF assms(1,2)] assms(3) by (cases "m = n") auto
  have "store s' = store s" using step_store [OF assms(1,2)] assms(3) by auto
  with assms(4) show ?thesis by (simp add: explained_def same)
qed

lemma explained_answer:
  assumes "inv s" and "step n s s'" and "answer s' n \<noteq> None" and "explained d os s"
  shows "explained d (os @ [n]) s'"
proof -
  have agent: "n \<in> agents" "answer s n = None" using step_agent [OF assms(1,2)] by auto
  have now: "store s' = fst (serve n (store s))" "answer s' n = Some (snd (serve n (store s)))"
    using step_store [OF assms(1,2)] assms(3) by auto
  have old: "answer s' (os ! k) = answer s (os ! k)" if "k < length os" for k
    using that assms(4) agent(2) nth_mem [OF that] by (intro step_others [OF assms(1,2)]) (auto simp: explained_def)
  have "answer s' m \<noteq> None \<longleftrightarrow> answer s m \<noteq> None \<or> m = n" for m
    using agent step_others [OF assms(1,2)] assms(3) by (cases "m = n") auto
  with assms(4) agent have "set (os @ [n]) = {m \<in> agents. answer s' m \<noteq> None}"
    by (auto simp: explained_def)
  moreover have "store s' = serve_in_order (os @ [n]) d"
    using now assms(4) by (simp add: serve_in_order_snoc explained_def)
  moreover have "answer s' ((os @ [n]) ! k) = Some (snd (serve ((os @ [n]) ! k) (serve_in_order (take k (os @ [n])) d)))"
    if k: "k < Suc (length os)" for k
    using now assms(4) old k by (cases "k = length os") (auto simp: explained_def nth_append)
  ultimately show ?thesis by (simp add: explained_def)
qed

theorem serial:
  assumes "reaches s0 ns s" and "inv s0" and "\<And>n. n \<in> agents \<Longrightarrow> answer s0 n = None"
  shows "explained (store s0) (serial_order ns s) s"
  using assms(1)
proof (induction rule: reaches.induct)
  case reaches_start
  then show ?case using assms(3) by (simp add: explained_def serial_order_def serve_in_order_def)
next
  case (reaches_step ns s n s')
  have "inv s" using reaches_inv reaches_step.hyps(1) assms(2) .
  with reaches_step show ?case
    by (cases "answer s' n = None") (auto simp: serial_order_step intro: explained_silent explained_answer)
qed

end

locale progressing = turn_taking step inv
  for step :: "nat \<Rightarrow> 's \<Rightarrow> 's \<Rightarrow> bool" and inv :: "'s \<Rightarrow> bool" +
  fixes work :: "'s \<Rightarrow> nat"
    and complete :: "'s \<Rightarrow> bool"
  assumes work_step: "inv s \<Longrightarrow> step n s s' \<Longrightarrow> work s' < work s"
    and can_step: "inv s \<Longrightarrow> complete s \<or> (\<exists>n s'. step n s s')"
begin

lemma runs_short: "reaches s0 ns s \<Longrightarrow> inv s0 \<Longrightarrow> length ns + work s \<le> work s0"
proof (induction rule: reaches.induct)
  case (reaches_step ns s n s')
  then show ?case using work_step [OF reaches_inv [OF reaches_step.hyps(1)] reaches_step.hyps(2)] by simp
qed simp

theorem can_complete:
  assumes "reaches s0 ns s" and "inv s0"
  shows "\<exists>ns' s'. reaches s0 (ns @ ns') s' \<and> complete s'"
  using assms(1)
proof (induction "work s" arbitrary: ns s rule: less_induct)
  case less
  have inv: "inv s" using reaches_inv less.prems assms(2) .
  show ?case
  proof (cases "complete s")
    case True
    then show ?thesis using less.prems by (intro exI [of _ "[]"]) auto
  next
    case False
    with can_step [OF inv] obtain n s' where step: "step n s s'" by blast
    from less.hyps [OF work_step [OF inv step] reaches_step [OF less.prems step]] show ?thesis by auto
  qed
qed

end

end
