(* ===== verification/Tx_Progress.thy ===== *)
theory Tx_Progress
  imports Tx_Invariant Interleaving
begin

text \<open>
  Consequences of the invariant for whole runs: the order in which calls end is a serial order
  with the same answers and the same database, every call runs at most eight statements, and
  the system is never stuck, because all transactions lock rows in one order.
\<close>

subsection \<open>The serial order\<close>

definition answer_of :: "system \<Rightarrow> nat \<Rightarrow> (go_error + (transfer \<times> bool)) option" where
  "answer_of s n = (case sy_txs s ! n of Finished res \<Rightarrow> Some res | _ \<Rightarrow> None)"

definition serve_call ::
  "pg \<Rightarrow> request_call list \<Rightarrow> nat \<Rightarrow> db \<Rightarrow> db \<times> (go_error + (transfer \<times> bool))" where
  "serve_call P calls n db = (case calls ! n of (c, u, key, r) \<Rightarrow> service_Create P c u key r db)"

lemma answer_of_None: "answer_of s n = None \<longleftrightarrow> \<not> finished (sy_txs s ! n)"
  by (simp add: answer_of_def finished_def split: tx_state.split)

lemma answer_of_Some: "answer_of s n = Some res \<longleftrightarrow> sy_txs s ! n = Finished res"
  by (simp add: answer_of_def split: tx_state.split)

interpretation tx_turns: turn_taking "step P calls" "sys_inv P calls" for P calls
  by unfold_locales (rule step_inv)

interpretation tx_order: serialized "step P calls" "sys_inv P calls" "{..<length calls}" sy_db answer_of
  "serve_call P calls" for P calls
proof unfold_locales
  fix s n s'
  assume step: "sys_inv P calls s" "step P calls n s s'"
  note cases = step_serial [OF step]
  then show "n \<in> {..<length calls} \<and> answer_of s n = None" by (simp add: answer_of_None)
  show "answer_of s' m = answer_of s m" if "m \<noteq> n" for m
    using cases that by (auto simp: answer_of_def)
  show "answer_of s' n = None \<and> sy_db s' = sy_db s \<or>
      sy_db s' = fst (serve_call P calls n (sy_db s)) \<and> answer_of s' n = Some (snd (serve_call P calls n (sy_db s)))"
    using cases by (auto simp: serve_call_def answer_of_None answer_of_Some)
qed

lemma runs_reaches: "runs P calls db ns s \<longleftrightarrow> tx_turns.reaches P calls (start_system calls db) ns s"
proof
  show "runs P calls db ns s \<Longrightarrow> tx_turns.reaches P calls (start_system calls db) ns s"
    by (induction rule: runs.induct) (auto intro: tx_turns.reaches.intros)
  show "tx_turns.reaches P calls (start_system calls db) ns s \<Longrightarrow> runs P calls db ns s"
    by (induction rule: tx_turns.reaches.induct) (auto intro: runs.intros)
qed

text \<open>The order in which calls finished, and the answer of the \<open>k\<close>-th call of a serial execution.\<close>

definition completion_order :: "nat list \<Rightarrow> system \<Rightarrow> nat list" where
  "completion_order ns s = filter (\<lambda>n. finished (sy_txs s ! n)) (remdups ns)"

definition serial_answer :: "pg \<Rightarrow> db \<Rightarrow> request_call list \<Rightarrow> nat \<Rightarrow> go_error + (transfer \<times> bool)" where
  "serial_answer P db calls k =
     (case calls ! k of (c, u, key, r) \<Rightarrow> snd (service_Create P c u key r (run_calls P (take k calls) db)))"

lemma completion_order_serial: "completion_order ns s = tx_order.serial_order ns s"
  unfolding completion_order_def tx_order.serial_order_def answer_of_None by simp

lemma run_calls_serial: "run_calls P (map ((!) calls) os) db = tx_order.serve_in_order P calls os db"
  unfolding tx_order.serve_in_order_def
  by (induction os arbitrary: db) (auto simp: serve_call_def split: prod.split)

lemma serial_answer_serial:
  "k < length os \<Longrightarrow> serial_answer P db (map ((!) calls) os) k =
     snd (serve_call P calls (os ! k) (tx_order.serve_in_order P calls (take k os) db))"
  by (simp add: serial_answer_def serve_call_def take_map run_calls_serial split: prod.split)

lemma runs_serial:
  assumes "runs P calls db ns s" and "pg_inv P db"
  shows "set (completion_order ns s) = {n. n < length calls \<and> finished (sy_txs s ! n)} \<and>
    sy_db s = run_calls P (map ((!) calls) (completion_order ns s)) db \<and>
    (\<forall>k < length (completion_order ns s). sy_txs s ! (completion_order ns s ! k) =
       Finished (serial_answer P db (map ((!) calls) (completion_order ns s)) k))"
proof -
  have "tx_order.explained calls P (sy_db (start_system calls db)) (tx_order.serial_order ns s) s"
    using assms start_inv by (intro tx_order.serial) (auto simp: runs_reaches answer_of_def start_system_def)
  then show ?thesis
    unfolding tx_order.explained_def completion_order_serial run_calls_serial answer_of_None answer_of_Some
    by (auto simp: start_system_def serial_answer_serial)
qed

text \<open>Calls that wrote nothing can be left out of the serial execution.\<close>

lemma run_calls_effective:
  assumes "pg_inv P db"
    and "\<And>k. k < length os \<Longrightarrow> \<not> took (os ! k) \<Longrightarrow>
      without_effect (fst (calls ! (os ! k))) (serial_answer P db (map ((!) calls) os) k)"
  shows "run_calls P (map ((!) calls) os) db = run_calls P (map ((!) calls) (filter took os)) db"
  using assms(2)
proof (induction os rule: rev_induct)
  case (snoc n os)
  have "serial_answer P db (map ((!) calls) (os @ [n])) k = serial_answer P db (map ((!) calls) os) k"
    if "k < length os" for k using that by (simp add: serial_answer_def nth_append)
  with snoc.prems [of "k" for k] have IH: "run_calls P (map ((!) calls) os) db =
      run_calls P (map ((!) calls) (filter took os)) db"
    by (intro snoc.IH) (metis butlast_snoc length_append_singleton less_SucI nth_butlast)
  show ?case
  proof (cases "took n")
    case True
    with IH show ?thesis by (simp add: run_calls_append)
  next
    case False
    obtain c u key r where call: "calls ! n = (c, u, key, r)" by (cases "calls ! n")
    have "without_effect c (snd (service_Create P c u key r (run_calls P (map ((!) calls) os) db)))"
      using snoc.prems [of "length os"] False call by (simp add: serial_answer_def nth_append)
    from service_without_effect [OF run_calls_inv [OF assms(1)] this] call False IH
    show ?thesis by (simp add: run_calls_append)
  qed
qed simp

subsection \<open>Every call ends\<close>

text \<open>The statements that a call may still run.\<close>

fun remaining :: "tx_state \<Rightarrow> nat" where
  "remaining Idle = 8"
| "remaining (Locking held todo) = 5 + length todo"
| "remaining (Locked _) = 4"
| "remaining (Inserted _ _ _ _) = 3"
| "remaining (Saved _ _ _) = 2"
| "remaining (Written _ _ _) = 1"
| "remaining (Finished _) = 0"

lemma lock_list_distinct: "db_ok db \<Longrightarrow> distinct (lock_list P db r)"
  by (simp add: lock_list_def db_ok_def distinct_map_filter)

lemma lock_list_length:
  assumes "db_ok db"
  shows "length (lock_list P db r) \<le> 2"
proof -
  have "set (lock_list P db r) \<subseteq> set (account_ids r)" by (auto simp: lock_list_def)
  then have "card (set (lock_list P db r)) \<le> card (set (account_ids r))" by (simp add: card_mono)
  also have "\<dots> \<le> length (account_ids r)" by (rule card_length)
  finally show ?thesis by (simp add: distinct_card [OF lock_list_distinct [OF assms]] account_ids_def)
qed

lemma advance_remaining:
  assumes ok: "db_ok db" and st: "\<not> finished st" and adv: "advance P (c, u, key, r) db st = (db', st')"
  shows "remaining st' < remaining st"
  using adv st lock_list_length [OF ok, of P r]
  by (cases st)
    (auto simp: advance_def fail_def finish_def finished_def
      split: if_splits sum.splits prod.splits list.splits commit_outcome.splits)

lemma step_remaining:
  assumes inv: "sys_inv P calls s" and step: "step P calls n s s'"
  shows "sum_list (map remaining (sy_txs s')) < sum_list (map remaining (sy_txs s))"
proof -
  obtain c u key r where call: "calls ! n = (c, u, key, r)" by (metis prod_cases4)
  from step obtain db' st' where n: "n < length (sy_txs s)" and s': "sy_txs s' = (sy_txs s)[n := st']"
    and unfinished: "\<not> finished (sy_txs s ! n)" and adv: "advance P (c, u, key, r) (sy_db s) (sy_txs s ! n) = (db', st')"
    by (auto simp: step_iff call)
  have "db_ok (sy_db s)" using inv by (simp add: sys_inv_def pg_inv_def)
  from advance_remaining [OF this unfinished adv] have less: "remaining st' < remaining (sy_txs s ! n)" .
  have "sum_list (map remaining (sy_txs s)) =
      sum_list (map remaining (take n (sy_txs s))) + remaining (sy_txs s ! n) + sum_list (map remaining (drop (Suc n) (sy_txs s)))"
    by (subst id_take_nth_drop [OF n]) simp
  then show ?thesis using less by (simp add: s' upd_conv_take_nth_drop [OF n])
qed

subsection \<open>No deadlock\<close>

text \<open>What is assumed of the collation: it orders all texts.\<close>

definition collation_orders :: "pg \<Rightarrow> bool" where
  "collation_orders P \<longleftrightarrow>
     (\<forall>a b. pg_collate_le P a b \<or> pg_collate_le P b a) \<and>
     (\<forall>a b. pg_collate_le P a b \<longrightarrow> pg_collate_le P b a \<longrightarrow> a = b) \<and>
     (\<forall>a b c. pg_collate_le P a b \<longrightarrow> pg_collate_le P b c \<longrightarrow> pg_collate_le P a c)"

lemma lock_list_sorted:
  assumes "collation_orders P"
  shows "sorted_wrt (pg_collate_le P) (lock_list P db r)"
  unfolding lock_list_def using assms
  by (intro sorted_wrt_sort_by) (auto simp: collation_orders_def)

lemma greatest_exists:
  assumes "collation_orders P" and "finite S" and "S \<noteq> {}"
  shows "\<exists>x \<in> S. \<forall>y \<in> S. pg_collate_le P y x"
  using assms(2,3)
proof (induction rule: finite_ne_induct)
  case (singleton x)
  then show ?case using assms(1) by (auto simp: collation_orders_def)
next
  case (insert x F)
  then obtain m where m: "m \<in> F" "\<forall>y \<in> F. pg_collate_le P y m" by blast
  have total: "pg_collate_le P a b \<or> pg_collate_le P b a"
    and trans: "pg_collate_le P a b \<Longrightarrow> pg_collate_le P b c \<Longrightarrow> pg_collate_le P a c" for a b c
    using assms(1) unfolding collation_orders_def by blast+
  show ?case
  proof (cases "pg_collate_le P x m")
    case True
    with m show ?thesis by blast
  next
    case False
    then have "pg_collate_le P m x" "pg_collate_le P x x" using total by blast+
    with m trans show ?thesis by blast
  qed
qed

lemma unblocked_step:
  assumes "n < length (sy_txs s)" and "\<not> finished (sy_txs s ! n)" and "\<not> blocked P calls (sy_db s) (sy_txs s) n"
  shows "\<exists>s'. step P calls n s s'"
  using assms by (metis run_statement surj_pair)

text \<open>A call that waits for a key waits for one that can run.\<close>

lemma pending_runs:
  assumes "n < length (sy_txs s)" and "pending_rows (sy_txs s ! n) \<noteq> []"
  shows "\<exists>s'. step P calls n s s'"
  using assms
  by (intro unblocked_step) (cases "sy_txs s ! n"; simp add: finished_def blocked_def)+

lemma waiting_head:
  assumes "n < length (sy_txs s)" and "\<not> finished (sy_txs s ! n)" and stuck: "\<And>m. \<nexists>s'. step P calls m s s'"
  shows "\<exists>held i todo m. sy_txs s ! n = Locking held (i # todo) \<and> m < length (sy_txs s) \<and> m \<noteq> n \<and>
    i \<in> locks (request_of (calls ! m)) (sy_txs s ! m)"
proof -
  have b: "blocked P calls (sy_db s) (sy_txs s) n" using assms unblocked_step by blast
  show ?thesis
  proof (cases "sy_txs s ! n")
    case (Locked dec)
    with b have "waits_for_key P calls (sy_db s) (sy_txs s) n dec" by (simp add: blocked_def)
    then obtain m t where "m < length (sy_txs s)" "t \<in> set (pending_rows (sy_txs s ! m))"
      by (auto simp: waits_for_key_def Let_def list_ex_iff split: prod.splits)
    then have "m < length (sy_txs s)" "pending_rows (sy_txs s ! m) \<noteq> []" by auto
    with pending_runs stuck show ?thesis by blast
  qed (use b in \<open>auto simp: blocked_def waits_for_row_def list_ex_iff split: list.splits\<close>)
qed

lemma never_stuck:
  assumes inv: "sys_inv P calls s" and coll: "collation_orders P" and n: "n < length calls" "\<not> finished (sy_txs s ! n)"
  shows "\<exists>m s'. step P calls m s s'"
proof (rule ccontr)
  assume "\<not> ?thesis"
  then have stuck: "\<And>m. \<nexists>s'. step P calls m s s'" by blast
  let ?heads = "{i. \<exists>m held todo. m < length calls \<and> sy_txs s ! m = Locking held (i # todo)}"
  have len: "length (sy_txs s) = length calls" using inv by (simp add: sys_inv_def)
  have "?heads \<subseteq> (\<lambda>m. case sy_txs s ! m of Locking held (i # todo) \<Rightarrow> i | _ \<Rightarrow> []) ` {..< length calls}"
    by (force split: tx_state.split list.split)
  then have "finite ?heads" by (rule finite_subset) simp
  moreover have "?heads \<noteq> {}" using waiting_head [of n s P calls] n stuck len by auto
  ultimately obtain i where "i \<in> ?heads" and top: "\<forall>j \<in> ?heads. pg_collate_le P j i"
    using greatest_exists [OF coll] by meson
  then obtain m held todo where m: "m < length calls" "sy_txs s ! m = Locking held (i # todo)" by blast
  with waiting_head [of m s P calls] stuck len obtain h where h: "h < length calls"
    "i \<in> locks (request_of (calls ! h)) (sy_txs s ! h)" by (auto simp: finished_def)
  then have "\<not> finished (sy_txs s ! h)" by (auto simp: finished_def split: tx_state.splits)
  with waiting_head [of h s P calls] stuck len h obtain held' j todo' where
    h': "sy_txs s ! h = Locking held' (j # todo')" by auto
  then have "i \<in> set held'" using h by simp
  have "held' @ j # todo' = lock_list P (sy_db s) (request_of (calls ! h))" "db_ok (sy_db s)"
    using inv h(1) h' by (auto simp: sys_inv_def pg_inv_def)
  with \<open>i \<in> set held'\<close> have "pg_collate_le P i j" "i \<noteq> j"
    using lock_list_sorted [OF coll, of "sy_db s" "request_of (calls ! h)"]
      lock_list_distinct [of "sy_db s" P "request_of (calls ! h)"]
    by (auto simp: sorted_wrt_append dest!: sym [of "held' @ j # todo'"])
  moreover have "pg_collate_le P j i" using top h(1) h' by blast
  ultimately show False using coll by (auto simp: collation_orders_def)
qed

lemma step_or_finished:
  assumes inv: "sys_inv P calls s" and "collation_orders P"
  shows "list_all finished (sy_txs s) \<or> (\<exists>n s'. step P calls n s s')"
proof (rule disjCI)
  assume stuck: "\<nexists>n s'. step P calls n s s'"
  have "length (sy_txs s) = length calls" using inv by (simp add: sys_inv_def)
  with never_stuck [OF assms] stuck show "list_all finished (sy_txs s)"
    unfolding list_all_length by metis
qed

interpretation tx_progress: progressing "step P calls" "\<lambda>s. sys_inv P calls s \<and> collation_orders P"
  "\<lambda>s. sum_list (map remaining (sy_txs s))" "\<lambda>s. list_all finished (sy_txs s)" for P calls
  by unfold_locales (auto intro: step_inv step_remaining dest: step_or_finished)

lemma start_work: "sum_list (map remaining (sy_txs (start_system calls db))) = 8 * length calls"
  by (simp add: start_system_def comp_def sum_list_triv)

end
