(* ===== verification/Transfer_Complete.thy ===== *)
theory Transfer_Complete
  imports Transfer_History
begin

text \<open>
  Total correctness of \<open>Create\<close> on PostgreSQL: when no statement fails, every call returns,
  and its answer is the one given by \<open>code_answer\<close>, which makes the checks of the code, in the
  order of the code, on the abstract bank. In particular no constraint of the schema is ever
  tripped by the service. How this answer compares with the documented one is in \<open>Documented\<close>.
\<close>

definition code_answer_tx ::
  "pg \<Rightarrow> string \<Rightarrow> string \<Rightarrow> create_transfer \<Rightarrow> bank \<Rightarrow> go_error + (transfer_status \<times> bool)" where
  "code_answer_tx P u key r b =
     (case bk_accounts b (req_from_account_id r) of
        None \<Rightarrow> Inl ErrForbidden
      | Some src \<Rightarrow>
      if acc_user_id src \<noteq> u then Inl ErrForbidden
      else case bk_accounts b (req_to_account_id r) of
        None \<Rightarrow> Inl ErrDestinationNotFound
      | Some dst \<Rightarrow>
      let funded = (sint (req_amount r) \<le> sint (acc_balance src)) in
      if acc_currency src \<noteq> req_currency r \<or> acc_currency dst \<noteq> req_currency r
      then Inl ErrCurrencyMismatch
      else if funded \<and> 2 ^ 63 - 1 < sint (acc_balance dst) + sint (req_amount r)
      then Inl ErrBalanceOverflow
      else case parseKey P key of
        Inl e \<Rightarrow> Inl e
      | Inr k \<Rightarrow>
      (case bk_transfers b (u, k) of
         Some (tr, r0) \<Rightarrow>
           if r0 = r then Inr (tr_status tr, False) else Inl ErrIdempotencyConflict
       | None \<Rightarrow>
           Inr (if funded then TransferStatusCompleted else TransferStatusFailed, True)))"

definition code_answer ::
  "pg \<Rightarrow> string \<Rightarrow> string \<Rightarrow> create_transfer \<Rightarrow> bank \<Rightarrow> go_error + (transfer_status \<times> bool)" where
  "code_answer P u key r b =
     (if TrimSpace u = '''' then Inl ErrForbidden
      else case CreateTransfer_Validate r of
        Inl e \<Rightarrow> Inl e
      | Inr _ \<Rightarrow> map_error (Wrapped ''create transfer'') (code_answer_tx P u key r b))"

text \<open>A call during which nothing fails and the drawn UUID is new.\<close>

definition healthy :: "pg_call \<Rightarrow> bool" where
  "healthy c \<longleftrightarrow> (\<forall>st. call_fault c st = None) \<and> call_commit c = Committed"

definition fresh_draw :: "pg_call \<Rightarrow> db \<Rightarrow> bool" where
  "fresh_draw c db \<longleftrightarrow> call_uuid c \<notin> tw_id ` set (db_transfers db)"

definition texts_ok :: "string \<Rightarrow> create_transfer \<Rightarrow> bool" where
  "texts_ok u r \<longleftrightarrow>
     pg_text u \<and> pg_text (req_from_account_id r) \<and> pg_text (req_to_account_id r) \<and>
     pg_text (req_currency r) \<and> pg_text (req_description r)"

lemma healthyD: "healthy c \<Longrightarrow> call_fault c st = None" "healthy c \<Longrightarrow> call_commit c = Committed"
  by (simp_all add: healthy_def)

lemma healthy_exec [simp]: "healthy c \<Longrightarrow> exec c st r = r"
  by (simp add: healthyD exec_no_fault)

subsection \<open>Each statement succeeds\<close>

lemma LockForTransfer_ok:
  assumes "db_ok db" and "healthy c" and "pg_text f" and "pg_text t"
  obtains m where "LockForTransfer P c db [f, t] = Inr m"
    and "m f = account_at db f" and "m t = account_at db t"
proof -
  have "list_all pg_text (slices_Compact (slices_Sort [f, t]))"
    using assms by (simp add: list_all_iff)
  then obtain m where m: "LockForTransfer P c db [f, t] = Inr m"
    using assms by (simp add: LockForTransfer_def sql_lock_accounts_def Let_def)
  then show ?thesis using that LockForTransfer_eq [OF assms(1) m] by simp
qed

lemma pg_text_status:
  "pg_text TransferStatusCompleted" "pg_text TransferStatusFailed"
  "pg_text FailureReasonInsufficientFunds"
  unfolding status_defs by code_simp+

lemma CreateIdempotent_inserts:
  assumes inv: "pg_inv P db" and c: "healthy c" "fresh_draw c db"
    and texts: "texts_ok (nt_user_id d) (nt_request d)"
    and d: "valid_request (nt_request d)" "TrimSpace (nt_user_id d) \<noteq> ''''"
      "(nt_status d, nt_failure_reason d) \<in> {(TransferStatusCompleted, FailureReasonNone),
        (TransferStatusFailed, FailureReasonInsufficientFunds)}"
    and key: "parseKey P (nt_idempotency_key d) = Inr k" and new: "transfer_at P db (nt_user_id d, k) = None"
    and accs: "account_at db (req_from_account_id (nt_request d)) \<noteq> None"
      "account_at db (req_to_account_id (nt_request d)) \<noteq> None"
  shows "\<exists>db' tr. CreateIdempotent P c db d = Inr (db', tr, True) \<and>
    db_accounts db' = db_accounts db \<and> call_uuid c \<in> tw_id ` set (db_transfers db') \<and>
    tr_id tr = pg_uuid_text P (call_uuid c) \<and> tr_status tr = nt_status d"
proof -
  let ?row = "transfers_values P c d k (marshal_create_transfer (nt_request d))"
  have texts': "list_all pg_text (transfers_texts ?row)"
    using texts d(3) pg_text_status
    by (auto simp: transfers_texts_def transfers_values_def texts_ok_def status_defs)
  have "transfers_check ?row"
    using d by (intro valid_request_transfers_check) auto
  moreover have "row_key ?row \<notin> row_key ` set (db_transfers db)"
    using new by (simp add: transfer_at_None)
  moreover have "tw_id ?row \<notin> tw_id ` set (db_transfers db)"
    using c(2) by (simp add: fresh_draw_def transfers_values_def)
  moreover have "tw_from_account_id ?row \<in> acc_id ` set (db_accounts db)"
    "tw_to_account_id ?row \<in> acc_id ` set (db_accounts db)"
    using accs by (auto simp: account_at_None transfers_values_def)
  ultimately have "sql_insert_transfer db ?row = Inr (db\<lparr>db_transfers := db_transfers db @ [?row]\<rparr>, ?row)"
    using texts' by (simp add: sql_insert_transfer_Inr)
  moreover have "scanTransfer P ?row = Inr (transfer_of_row P ?row, nt_request d)"
    using transfers_values_decodes [OF _ texts' refl] inv by (simp add: scanTransfer_def pg_inv_def)
  ultimately have "insert_new P c db d k =
      Inr (db\<lparr>db_transfers := db_transfers db @ [?row]\<rparr>, transfer_of_row P ?row)"
    using c(1) by (simp add: insert_new_def)
  then show ?thesis
    using key by (simp add: CreateIdempotent_Inr) (simp add: transfers_values_def transfer_of_row_def)
qed

lemma CreateIdempotent_taken:
  assumes inv: "pg_inv P db" and c: "healthy c" and texts: "texts_ok (nt_user_id d) (nt_request d)"
    and d: "valid_request (nt_request d)" "TrimSpace (nt_user_id d) \<noteq> ''''"
      "(nt_status d, nt_failure_reason d) \<in> {(TransferStatusCompleted, FailureReasonNone),
        (TransferStatusFailed, FailureReasonInsufficientFunds)}"
    and key: "parseKey P (nt_idempotency_key d) = Inr k"
    and old: "transfer_at P db (nt_user_id d, k) = Some (tr, r0)"
  shows "CreateIdempotent P c db d =
    (if r0 = nt_request d then Inr (db, tr, False) else Inl ErrIdempotencyConflict)"
proof -
  let ?row = "transfers_values P c d k (marshal_create_transfer (nt_request d))"
  from inv have ok: "db_ok db" by (simp add: pg_inv_def)
  from old obtain row where row: "row \<in> set (db_transfers db)" "row_key row = (nt_user_id d, k)"
    "tr = transfer_of_row P row" "r0 = request_of_row row"
    by (auto simp: transfer_at_Some [OF ok])
  have "list_all pg_text (transfers_texts ?row)"
    using texts d(3) pg_text_status
    by (auto simp: transfers_texts_def transfers_values_def texts_ok_def status_defs)
  moreover have "transfers_check ?row" using d by (intro valid_request_transfers_check) auto
  moreover have "row_key ?row \<in> row_key ` set (db_transfers db)"
    unfolding transfers_values_key row(2) [symmetric] using row(1) by (rule imageI)
  ultimately have "insert_new P c db d k = Inl ErrNoRows"
    using c by (simp add: insert_new_def sql_insert_transfer_def list_ex_row_key)
  moreover have "filter (\<lambda>t. tw_user_id t = nt_user_id d \<and> tw_idempotency_key t = k) (db_transfers db) = [row]"
    using filter_key_distinct [of row_key "db_transfers db" row] row ok
    by (simp add: db_ok_def row_key_def)
  then have "sql_transfer_by_key db (nt_user_id d) k = Inr row"
    using texts by (simp add: sql_transfer_by_key_def first_row_def texts_ok_def)
  moreover have "scanTransfer P row = Inr (tr, r0)"
    using row ok by (auto simp: scanTransfer_def db_ok_def list_all_iff)
  ultimately show ?thesis
    using key c by (simp add: CreateIdempotent_def find_existing_def replay_def)
qed

lemma length_filter_pair:
  assumes "distinct (map f xs)" and "x \<in> set xs" and "y \<in> set xs" and "f x \<noteq> f y"
  shows "length (filter (\<lambda>a. f a = f x \<or> f a = f y) xs) = 2"
proof -
  have "filter (\<lambda>a. f a = f x \<or> f a = f y) xs = filter (\<lambda>a. a \<in> {x, y}) xs"
    using assms by (intro filter_cong) (auto simp: distinct_map inj_on_def)
  moreover have "distinct (filter (\<lambda>a. a \<in> {x, y}) xs)"
    using assms by (simp add: distinct_map)
  then have "length (filter (\<lambda>a. a \<in> {x, y}) xs) = card {x, y}"
    using assms by (subst distinct_card [symmetric]) (auto intro: arg_cong [where f = card])
  moreover have "x \<noteq> y" using assms by auto
  ultimately show ?thesis by simp
qed

lemma SaveBalances_saves:
  assumes ok: "db_ok db" and c: "healthy c"
    and accs: "account_at db f = Some src" "account_at db t = Some dst" and ne: "f \<noteq> t"
    and upd: "src' = src\<lparr>acc_balance := n\<rparr>" "dst' = dst\<lparr>acc_balance := m\<rparr>"
    and nonneg: "0 \<le> sint n" "0 \<le> sint m" and texts: "pg_text f" "pg_text t"
  shows "\<exists>db'. SaveBalances c db [src', dst'] = Inr db' \<and> db_transfers db' = db_transfers db \<and>
    acc_id ` set (db_accounts db') = acc_id ` set (db_accounts db)"
proof -
  have ids: "acc_id src = f" "acc_id dst = t" "src \<in> set (db_accounts db)" "dst \<in> set (db_accounts db)"
    using accs account_at_id by auto
  let ?v = "map_of (zip [f, t] [n, m])"
  let ?g = "\<lambda>a. case ?v (acc_id a) of None \<Rightarrow> a
    | Some n \<Rightarrow> a\<lparr>acc_balance := n, acc_updated_at := call_now c\<rparr>"
  have v: "?v i \<noteq> None \<longleftrightarrow> i = f \<or> i = t" for i by auto
  have all: "list_all (\<lambda>a. 0 \<le> sint (acc_balance a)) (map ?g (db_accounts db))"
    using ok nonneg by (auto simp: list_all_iff db_ok_def accounts_check_def split: option.splits)
  have "length (filter (\<lambda>a. ?v (acc_id a) \<noteq> None) (db_accounts db)) = 2"
    unfolding v using length_filter_pair [of acc_id "db_accounts db" src dst] ids ok ne
    by (simp add: db_ok_def)
  then have "sql_update_balances c db [f, t] [n, m] = Inr (db\<lparr>db_accounts := map ?g (db_accounts db)\<rparr>, 2)"
    using all texts by (simp add: sql_update_balances_def Let_def)
  moreover have "acc_id ` set (map ?g (db_accounts db)) = acc_id ` set (db_accounts db)"
    by (auto simp: image_iff split: option.split)
  ultimately show ?thesis
    using c ids by (simp add: SaveBalances_def upd)
qed

lemma Append_appends:
  assumes rt: "uuid_round_trip P" and c: "healthy c"
    and tid: "tr_id tr = pg_uuid_text P (call_uuid c)" "call_uuid c \<in> tw_id ` set (db_transfers db)"
    and accs: "acc_id src \<in> acc_id ` set (db_accounts db)" "acc_id dst \<in> acc_id ` set (db_accounts db)"
    and pos: "0 < sint (req_amount r)"
    and nonneg: "0 \<le> sint (acc_balance src)" "0 \<le> sint (acc_balance dst)"
    and texts: "pg_text (acc_id src)" "pg_text (acc_id dst)"
  shows "\<exists>db'. Append P c db (entry_pair r tr src dst) = Inr db'"
proof -
  have "req_amount r \<noteq> 0" using pos by auto
  moreover have "pg_text_uuid P (tr_id tr) = Some (call_uuid c)"
    using rt tid by (simp add: uuid_round_trip_def)
  ultimately show ?thesis
    using c tid(2) accs nonneg texts
    by (simp add: Append_def sql_insert_ledger_def ledger_value_def ledger_check_def list_ex_key)
qed

lemma funded_writes:
  assumes inv: "pg_inv P db" and c: "healthy c" and adm: "admissible u r (db_bank P db) src dst"
    and money: "Debit src (req_amount r) = Inr src'" "Credit dst (req_amount r) = Inr dst'"
    and tok: "pg_text (req_from_account_id r)" "pg_text (req_to_account_id r)"
    and ci: "CreateIdempotent P c db d = Inr (db1, tr, True)"
    and db1: "db_accounts db1 = db_accounts db" "call_uuid c \<in> tw_id ` set (db_transfers db1)"
    and tr: "tr_id tr = pg_uuid_text P (call_uuid c)"
  shows "\<exists>db2 db3. SaveBalances c db1 [src', dst'] = Inr db2 \<and>
    Append P c db2 (entry_pair r tr src' dst') = Inr db3"
proof -
  have ok: "db_ok db" and rt: "uuid_round_trip P"
    using inv by (simp_all add: pg_inv_def pg_documented_def)
  have accs: "account_at db (req_from_account_id r) = Some src" "account_at db (req_to_account_id r) = Some dst"
    and valid: "valid_request r"
    using adm by (simp_all add: admissible_def)
  note mb = moved_balances [OF money]
  have ids: "acc_id src' = req_from_account_id r" "acc_id dst' = req_to_account_id r"
    "src \<in> set (db_accounts db)" "dst \<in> set (db_accounts db)"
    using accs account_at_id mb by auto
  have "0 \<le> sint (acc_balance dst)"
    using ok ids(4) by (auto simp: db_ok_def list_all_iff accounts_check_def)
  then have nonneg: "0 \<le> sint (acc_balance src')" "0 \<le> sint (acc_balance dst')"
    using mb valid_requestD(2) [OF valid] by auto
  have ok1: "db_ok db1" using CreateIdempotent_new [OF inv ci] by (simp add: pg_inv_def)
  have accs1: "account_at db1 = account_at db" using db1(1) by (simp add: account_at_def fun_eq_iff)
  have "\<exists>db2. SaveBalances c db1 [src', dst'] = Inr db2 \<and> db_transfers db2 = db_transfers db1 \<and>
      acc_id ` set (db_accounts db2) = acc_id ` set (db_accounts db1)"
    using accs accs1 money nonneg tok valid_requestD(1) [OF valid]
    by (intro SaveBalances_saves [OF ok1 c, of "req_from_account_id r" src "req_to_account_id r" dst
          _ "acc_balance src'" _ "acc_balance dst'"]) (auto simp: money_cases)
  then obtain db2 where save: "SaveBalances c db1 [src', dst'] = Inr db2"
    and db2: "db_transfers db2 = db_transfers db1"
      "acc_id ` set (db_accounts db2) = acc_id ` set (db_accounts db)"
    using db1 by auto
  have "acc_id src \<in> acc_id ` set (db_accounts db2)" "acc_id dst \<in> acc_id ` set (db_accounts db2)"
    unfolding db2 using ids by (auto intro: imageI)
  then have "\<exists>db3. Append P c db2 (entry_pair r tr src' dst') = Inr db3"
    using db1(2) db2(1) nonneg tok ids mb valid_requestD(2) [OF valid]
    by (intro Append_appends [OF rt c tr]) simp_all
  with save show ?thesis by blast
qed

subsection \<open>The whole transaction\<close>

text \<open>
  The transaction for admissible accounts and a new key: it stores the draft and, for a
  funded transfer, writes balances and ledger.
\<close>

lemma settled_tx:
  assumes inv: "pg_inv P db" and c: "healthy c" "fresh_draw c db" and texts: "texts_ok u r"
    and u: "TrimSpace u \<noteq> ''''" and adm: "admissible u r (db_bank P db) src dst"
    and settle: "settle src dst (req_amount r) = Inr (st, reason, src', dst')"
    and key: "parseKey P key = Inr k" and new: "transfer_at P db (u, k) = None"
  shows "\<exists>db' tr. create_tx (txRepositories P c) u key r db = (db', Inr (tr, True)) \<and> tr_status tr = st"
proof -
  have ok: "db_ok db" and rt: "uuid_round_trip P"
    using inv by (simp_all add: pg_inv_def pg_documented_def)
  have accs: "account_at db (req_from_account_id r) = Some src" "account_at db (req_to_account_id r) = Some dst"
    and valid: "valid_request r" and adm': "acc_user_id src = u"
      "acc_currency src = req_currency r" "acc_currency dst = req_currency r"
    using adm by (simp_all add: admissible_def)
  have tok: "pg_text (req_from_account_id r)" "pg_text (req_to_account_id r)"
    using texts by (simp_all add: texts_ok_def)
  obtain m where m: "LockForTransfer P c db [req_from_account_id r, req_to_account_id r] = Inr m"
    "m (req_from_account_id r) = Some src" "m (req_to_account_id r) = Some dst"
    using LockForTransfer_ok [OF ok c(1) tok] accs by metis
  have "(st, reason) \<in> {(TransferStatusCompleted, FailureReasonNone),
      (TransferStatusFailed, FailureReasonInsufficientFunds)}"
    using settle by (auto simp: settle_eq_Inr)
  with CreateIdempotent_inserts [OF inv c, of "draft u key r st reason" k] texts valid u key new accs
  obtain db1 tr where ci: "CreateIdempotent P c db (draft u key r st reason) = Inr (db1, tr, True)"
    and db1: "db_accounts db1 = db_accounts db" "call_uuid c \<in> tw_id ` set (db_transfers db1)"
    and tr: "tr_id tr = pg_uuid_text P (call_uuid c)" "tr_status tr = st" by auto
  show ?thesis
  proof (cases "st = TransferStatusCompleted")
    case False
    then show ?thesis
      using m ci tr adm' settle by (simp add: create_tx_def txRepositories_def)
  next
    case True
    with settle have money: "Debit src (req_amount r) = Inr src'" "Credit dst (req_amount r) = Inr dst'"
      by (auto simp: settle_eq_Inr)
    with funded_writes [OF inv c(1) adm money tok ci db1 tr(1)] obtain db2 db3 where
      "SaveBalances c db1 [src', dst'] = Inr db2"
      "Append P c db2 (entry_pair r tr src' dst') = Inr db3" by blast
    with m ci tr adm' settle True show ?thesis
      by (simp add: create_tx_def txRepositories_def)
  qed
qed

lemma code_answer_tx_admissible:
  assumes "admissible u r b src dst"
  shows "code_answer_tx P u key r b =
    and_then (settle src dst (req_amount r)) (\<lambda>(st, _).
      and_then (parseKey P key) (\<lambda>k.
        case bk_transfers b (u, k) of
          Some (tr, r0) \<Rightarrow> if r0 = r then Inr (tr_status tr, False) else Inl ErrIdempotencyConflict
        | None \<Rightarrow> Inr (st, True)))"
proof -
  have pos: "0 < sint (req_amount r)"
    using assms by (simp add: admissible_def valid_request_def)
  have settle: "settle src dst (req_amount r) =
      (if sint (req_amount r) \<le> sint (acc_balance src)
       then if 2 ^ 63 - 1 < sint (acc_balance dst) + sint (req_amount r) then Inl ErrBalanceOverflow
         else Inr (TransferStatusCompleted, FailureReasonNone,
           src\<lparr>acc_balance := acc_balance src - req_amount r\<rparr>,
           dst\<lparr>acc_balance := acc_balance dst + req_amount r\<rparr>)
       else Inr (TransferStatusFailed, FailureReasonInsufficientFunds, src, dst))"
    using pos by (auto simp: settle_def Debit_def Credit_def sint_MaxInt64_minus)
  show ?thesis
    using assms
    by (auto simp: code_answer_tx_def admissible_def settle Let_def split: option.split sum.split)
qed

lemma taken_tx:
  assumes inv: "pg_inv P db" and c: "healthy c" and texts: "texts_ok u r" and valid: "valid_request r" "TrimSpace u \<noteq> ''''"
    and lock: "LockForTransfer P c db [req_from_account_id r, req_to_account_id r] = Inr m"
    and accs: "m (req_from_account_id r) = Some src" "m (req_to_account_id r) = Some dst" "acc_user_id src = u"
      "acc_currency src = req_currency r" "acc_currency dst = req_currency r"
    and settle: "settle src dst (req_amount r) = Inr (st, reason, src', dst')" and key: "parseKey P key = Inr k"
    and taken: "transfer_at P db (u, k) = Some (tr, r0)"
  shows "create_tx (txRepositories P c) u key r db =
    (db, if r0 = r then Inr (tr, False) else Inl ErrIdempotencyConflict)"
proof -
  have "CreateIdempotent P c db (draft u key r st reason) =
      (if r0 = r then Inr (db, tr, False) else Inl ErrIdempotencyConflict)"
    using CreateIdempotent_taken [OF inv c, of "draft u key r st reason" k tr r0] texts valid key taken settle
    by (auto simp: settle_eq_Inr)
  with lock accs settle show ?thesis by (simp add: create_tx_def txRepositories_def)
qed

lemma create_tx_answers:
  assumes inv: "pg_inv P db" and c: "healthy c" "fresh_draw c db" and texts: "texts_ok u r"
    and valid: "valid_request r" "TrimSpace u \<noteq> ''''"
  shows "case code_answer_tx P u key r (db_bank P db) of
      Inl e \<Rightarrow> snd (create_tx (txRepositories P c) u key r db) = Inl e
    | Inr (st, created) \<Rightarrow> (\<exists>db' tr. create_tx (txRepositories P c) u key r db = (db', Inr (tr, created)) \<and>
        tr_status tr = st)"
proof -
  let ?from = "req_from_account_id r" and ?to = "req_to_account_id r"
  have ok: "db_ok db" using inv by (simp add: pg_inv_def)
  obtain m where m: "LockForTransfer P c db [?from, ?to] = Inr m"
    "m ?from = account_at db ?from" "m ?to = account_at db ?to"
    using LockForTransfer_ok [OF ok c(1)] texts unfolding texts_ok_def by metis
  note unf = create_tx_def txRepositories_def m
  consider (refused) "\<nexists>src dst. admissible u r (db_bank P db) src dst"
    | (stopped) src dst where "admissible u r (db_bank P db) src dst"
      "isl (settle src dst (req_amount r)) \<or> isl (parseKey P key)"
    | (settled) src dst st reason src' dst' k where "admissible u r (db_bank P db) src dst"
      "settle src dst (req_amount r) = Inr (st, reason, src', dst')" "parseKey P key = Inr k"
    by (metis isl_def prod_cases4 sum.exhaust)
  then show ?thesis
  proof cases
    case refused
    then show ?thesis
      using valid(1) by (auto simp: unf code_answer_tx_def admissible_def Let_def split: option.split)
  next
    case (stopped src dst)
    then show ?thesis
      using code_answer_tx_admissible [OF stopped(1), of P key]
      by (cases "settle src dst (req_amount r)"; cases "parseKey P key")
        (auto simp: unf admissible_def CreateIdempotent_def)
  next
    case (settled src dst st reason src' dst' k)
    note expected = code_answer_tx_admissible [OF settled(1), of P key]
    show ?thesis
    proof (cases "transfer_at P db (u, k)")
      case None
      with settled_tx [OF inv c texts valid(2) settled(1-3) None] settled(2,3) show ?thesis by (simp add: expected)
    next
      case (Some y)
      with taken_tx [OF inv c(1) texts valid m(1) _ _ _ _ _ settled(2,3), of "fst y" "snd y"] settled m(2,3)
      show ?thesis by (cases y) (auto simp: expected admissible_def)
    qed
  qed
qed

text \<open>The whole call.\<close>

lemma service_answers:
  assumes inv: "pg_inv P db" and c: "healthy c" "fresh_draw c db" and texts: "texts_ok u r"
  shows "case code_answer P u key r (db_bank P db) of
      Inl e \<Rightarrow> service_Create P c u key r db = (db, Inl e)
    | Inr (st, created) \<Rightarrow> (\<exists>db' tr. service_Create P c u key r db = (db', Inr (tr, created)) \<and>
        tr_status tr = st)"
proof (cases "TrimSpace u = '''' \<or> \<not> valid_request r")
  case True
  then show ?thesis
    using Validate_Inl [of r] by (auto simp: service_Create_def Create_def code_answer_def split: sum.split)
next
  case False
  then have "CreateTransfer_Validate r = Inr ()" by (simp add: Validate_Inr_iff)
  moreover have "healthy c \<Longrightarrow> WithinTx (NewStore P c) fn db =
      (case fn (txRepositories P c) db of (_, Inl e) \<Rightarrow> (db, Inl e) | (db', Inr x) \<Rightarrow> (db', Inr x))" for fn
    by (simp add: NewStore_def Store_WithinTx_def healthyD split: sum.split prod.split)
  ultimately show ?thesis
    using create_tx_answers [OF inv c texts, of key] False c(1)
    by (cases "create_tx (txRepositories P c) u key r db")
      (auto simp: service_Create_def Create_def code_answer_def split: sum.splits)
qed

end
