(* ===== verification/Sample.thy ===== *)
theory Sample
  imports Transfer_Complete
begin

text \<open>
  A concrete instance of everything the model leaves open, on which the hypotheses of the
  results are seen to hold: UUIDs written as decimal numbers, JSONB that keeps the order of
  members, byte-wise collation, a database with three accounts, and calls that succeed, fail
  at a chosen statement or lose their commit.
\<close>

definition sample_pg :: pg where
  "sample_pg =
     \<lparr>pg_uuid_text = (\<lambda>u. nat_decimal (unat u)),
      pg_text_uuid = (\<lambda>s. Some (word_of_nat (decimal_val s))),
      pg_uuid_scan = (\<lambda>s. if s \<noteq> [] \<and> list_all is_digit s
        then Some (word_of_nat (decimal_val s)) else None),
      pg_collate_le = (\<le>), pg_lower = (\<lambda>s. s), pg_jsonb = (\<lambda>kvs. kvs)\<rparr>"

lemma sample_documented: "pg_documented sample_pg"
  by (simp add: pg_documented_def uuid_round_trip_def jsonb_keeps_members_def plain_members_def sample_pg_def
      decimal_val_nat_decimal)

definition sample_account :: "string \<Rightarrow> string \<Rightarrow> string \<Rightarrow> i64 \<Rightarrow> account" where
  "sample_account i u cur n =
     \<lparr>acc_id = i, acc_user_id = u, acc_currency = cur, acc_balance = n,
      acc_created_at = 0, acc_updated_at = 0\<rparr>"

definition sample_db :: db where
  "sample_db =
     \<lparr>db_users = [],
      db_accounts = [sample_account ''a'' ''alice'' ''PEN'' 100, sample_account ''b'' ''bob'' ''PEN'' 5,
        sample_account ''c'' ''carol'' ''PEN'' (MaxInt64 - 40)],
      db_transfers = [], db_ledger = []\<rparr>"

lemma sample_inv: "pg_inv sample_pg sample_db"
proof -
  have "db_ok sample_db" by code_simp
  then show ?thesis by (simp add: pg_inv_def sample_documented)
qed

definition sample_call :: "uuid \<Rightarrow> pg_call" where
  "sample_call n =
     \<lparr>call_uuid = n, call_now = 1, call_fault = (\<lambda>_. None), call_commit = Committed\<rparr>"

definition lost_call :: "uuid \<Rightarrow> pg_call" where
  "lost_call n = (sample_call n)\<lparr>call_commit := CommitUnacknowledged ''connection reset''\<rparr>"

definition broken_call :: "statement \<Rightarrow> uuid \<Rightarrow> pg_call" where
  "broken_call st n = (sample_call n)\<lparr>call_fault := (\<lambda>s. if s = st then Some ''timeout'' else None)\<rparr>"

definition sample_request :: "string \<Rightarrow> string \<Rightarrow> i64 \<Rightarrow> create_transfer" where
  "sample_request i j n =
     \<lparr>req_from_account_id = i, req_to_account_id = j, req_amount = n,
      req_currency = ''PEN'', req_description = ''rent''\<rparr>"

lemma sample_healthy [simp]: "healthy (sample_call n)"
  by (simp add: healthy_def sample_call_def)

text \<open>Alice pays Bob 30: the rows this leaves in the database.\<close>

definition sample_row :: transfers_row where
  "sample_row =
     \<lparr>tw_id = 7, tw_user_id = ''alice'', tw_idempotency_key = 42, tw_from_account_id = ''a'',
      tw_to_account_id = ''b'', tw_amount = 30, tw_currency = ''PEN'', tw_description = ''rent'',
      tw_status = ''completed'',
      tw_original_request = JObject (marshal_create_transfer (sample_request ''a'' ''b'' 30)),
      tw_created_at = 1, tw_updated_at = 1, tw_failure_reason = None\<rparr>"

definition sample_transfer :: transfer where
  "sample_transfer = transfer_of_row sample_pg sample_row"

definition sample_paid :: db where
  "sample_paid =
     \<lparr>db_users = [],
      db_accounts = [(sample_account ''a'' ''alice'' ''PEN'' 70)\<lparr>acc_updated_at := 1\<rparr>,
        (sample_account ''b'' ''bob'' ''PEN'' 35)\<lparr>acc_updated_at := 1\<rparr>,
        sample_account ''c'' ''carol'' ''PEN'' (MaxInt64 - 40)],
      db_transfers = [sample_row],
      db_ledger = [\<lparr>lw_transfer_id = 7, lw_account_id = ''a'', lw_amount = - 30,
          lw_balance_after = 70, lw_created_at = 1\<rparr>,
        \<lparr>lw_transfer_id = 7, lw_account_id = ''b'', lw_amount = 30,
          lw_balance_after = 35, lw_created_at = 1\<rparr>]\<rparr>"

lemma sample_pays:
  "service_Create sample_pg (sample_call 7) ''alice'' ''42'' (sample_request ''a'' ''b'' 30) sample_db
     = (sample_paid, Inr (sample_transfer, True))"
  by code_simp

text \<open>The same payment when the answer to the commit is lost, and a retry afterwards.\<close>

lemma sample_loses_answer:
  "service_Create sample_pg (lost_call 7) ''alice'' ''42'' (sample_request ''a'' ''b'' 30) sample_db
     = (sample_paid, Inl (Wrapped ''create transfer'' (DbError ''connection reset'')))"
  by code_simp

lemma sample_retries:
  "service_Create sample_pg (sample_call 8) ''alice'' ''042'' (sample_request ''a'' ''b'' 30) sample_paid
     = (sample_paid, Inr (sample_transfer, False))"
  by code_simp

lemma sample_paid_inv: "pg_inv sample_pg sample_paid"
  using service_invar [OF sample_inv, of "sample_call 7" "''alice''" "''42''" "sample_request ''a'' ''b'' 30"]
  by (simp add: sample_pays)

lemma sample_transfer_status: "tr_status sample_transfer = TransferStatusCompleted"
  by (simp add: sample_transfer_def sample_row_def transfer_of_row_def status_defs)

definition sample_calls :: "request_call list" where
  "sample_calls =
     [(sample_call 7, ''alice'', ''42'', sample_request ''a'' ''b'' 30),
      (sample_call 8, ''alice'', ''042'', sample_request ''a'' ''b'' 30)]"

lemma sample_calls_run: "run_calls sample_pg sample_calls sample_db = sample_paid"
  by (simp add: sample_calls_def sample_pays sample_retries)

end
