(* ===== verification/Concurrency_Results.thy ===== *)
theory Concurrency_Results
  imports Tx_Progress Sample
begin

text \<open>
  What concurrent callers of the transfer service can rely on, for every interleaving of the
  statements of their transactions.
\<close>

subsection \<open>Running a schedule\<close>

text \<open>Steps are executable; \<open>run_schedule\<close> runs the calls in the given order.\<close>

definition try_step :: "pg \<Rightarrow> request_call list \<Rightarrow> nat \<Rightarrow> system \<Rightarrow> system option" where
  "try_step P calls n s =
     (if n < length (sy_txs s) \<and> \<not> finished (sy_txs s ! n) \<and> \<not> blocked P calls (sy_db s) (sy_txs s) n
      then case advance P (calls ! n) (sy_db s) (sy_txs s ! n) of
          (db', st') \<Rightarrow> Some \<lparr>sy_db = db', sy_txs = (sy_txs s)[n := st']\<rparr>
      else None)"

lemma try_step_iff: "try_step P calls n s = Some s' \<longleftrightarrow> step P calls n s s'"
  by (auto simp: try_step_def step_iff split: prod.splits)

fun run_schedule :: "pg \<Rightarrow> request_call list \<Rightarrow> nat list \<Rightarrow> system \<Rightarrow> system option" where
  "run_schedule P calls [] s = Some s"
| "run_schedule P calls (n # ns) s = Option.bind (try_step P calls n s) (run_schedule P calls ns)"

lemma run_schedule_runs:
  "run_schedule P calls ns s = Some s' \<Longrightarrow> runs P calls db ns0 s \<Longrightarrow> runs P calls db (ns0 @ ns) s'"
proof (induction ns arbitrary: s ns0)
  case (Cons n ns)
  then obtain s1 where "step P calls n s s1" "run_schedule P calls ns s1 = Some s'"
    by (auto simp: Option.bind_eq_Some_conv try_step_iff)
  with Cons.IH [of s1 "ns0 @ [n]"] Cons.prems(2) show ?case by (simp add: more_runs)
qed simp

text \<open>
  Two concurrent calls with the same payment and the same key: the second begins first, then
  waits for the row lock until the first has committed, and is answered with its transfer.
\<close>

definition sample_schedule :: "nat list" where
  "sample_schedule = [1, 0, 0, 0, 0, 0, 0, 0, 0, 1, 1, 1, 1, 1, 1]"

definition sample_end :: system where
  "sample_end = \<lparr>sy_db = sample_paid,
     sy_txs = [Finished (Inr (sample_transfer, True)), Finished (Inr (sample_transfer, False))]\<rparr>"

lemma sample_run: "runs sample_pg sample_calls sample_db sample_schedule sample_end"
proof -
  have "run_schedule sample_pg sample_calls sample_schedule (start_system sample_calls sample_db) = Some sample_end"
    by code_simp
  from run_schedule_runs [OF this begin_runs] show ?thesis by simp
qed

text \<open>The same, with a first call that fails after it has inserted its transfer and saved the balances.\<close>

definition sample_failing_calls :: "request_call list" where
  "sample_failing_calls =
     [(broken_call StmtAppendLedger 9, ''alice'', ''41'', sample_request ''a'' ''b'' 40),
      (sample_call 7, ''alice'', ''42'', sample_request ''a'' ''b'' 30)]"

definition sample_failed :: system where
  "sample_failed = \<lparr>sy_db = sample_paid,
     sy_txs = [fail (Wrapped ''append ledger entries'' (DbError ''timeout'')), Finished (Inr (sample_transfer, True))]\<rparr>"

lemma sample_failed_run:
  "runs sample_pg sample_failing_calls sample_db [1, 0, 0, 0, 0, 0, 0, 0, 1, 1, 1, 1, 1, 1, 1] sample_failed"
proof -
  have "run_schedule sample_pg sample_failing_calls [1, 0, 0, 0, 0, 0, 0, 0, 1, 1, 1, 1, 1, 1, 1]
      (start_system sample_failing_calls sample_db) = Some sample_failed"
    by code_simp
  from run_schedule_runs [OF this begin_runs] show ?thesis by simp
qed

lemma sample_collation: "collation_orders sample_pg"
  unfolding collation_orders_def sample_pg_def pg.simps by (meson antisym linear order_trans)

subsection \<open>Results\<close>

text \<open>The calls that changed the database: their answer, or the loss of it, says so.\<close>

definition took_effect :: "request_call \<Rightarrow> tx_state \<Rightarrow> bool" where
  "took_effect call st = (case st of Finished res \<Rightarrow> \<not> without_effect (fst call) res | _ \<Rightarrow> False)"

text \<open>
  C4. Concurrent transfers are strictly serializable. Whatever order the statements of
  concurrent calls are run in, with statements failing and commits lost at will, the committed
  database is the one that the finished calls leave behind when they run one after the other,
  in the order in which they finished, and every finished call got the answer that it gets in
  that execution. So no balance is overspent, no update is lost and no key is used twice.
\<close>

theorem concurrent_calls_serializable:
  assumes "pg_inv P db" and "runs P calls db ns s"
  shows "let order = completion_order ns s; serial = map ((!) calls) order in
    distinct order \<and> set order = {n. n < length calls \<and> finished (sy_txs s ! n)} \<and>
    sy_db s = run_calls P serial db \<and>
    (\<forall>k < length order. sy_txs s ! (order ! k) = Finished (serial_answer P db serial k))"
  using runs_serial [OF assms(2,1)]
  unfolding Let_def completion_order_def by simp

theorem concurrent_calls_serializable_witness:
  "completion_order sample_schedule sample_end = [0, 1] \<and>
   sy_db sample_end = run_calls sample_pg (map ((!) sample_calls) [0, 1]) sample_db \<and>
   Inr (sample_transfer, False) = serial_answer sample_pg sample_db (map ((!) sample_calls) [0, 1]) 1"
proof -
  have order: "completion_order sample_schedule sample_end = [0, 1]"
    by (simp add: completion_order_def sample_schedule_def sample_end_def finished_def)
  from concurrent_calls_serializable [OF sample_inv sample_run, unfolded order Let_def]
  have "sy_db sample_end = run_calls sample_pg (map ((!) sample_calls) [0, 1]) sample_db"
    and ans: "\<forall>k < 2. sy_txs sample_end ! ([0, 1] ! k) =
      Finished (serial_answer sample_pg sample_db (map ((!) sample_calls) [0, 1]) k)"
    by (simp_all add: numeral_2_eq_2)
  moreover have "Inr (sample_transfer, False) = serial_answer sample_pg sample_db (map ((!) sample_calls) [0, 1]) 1"
    using ans [rule_format, of 1] by (simp add: sample_end_def)
  ultimately show ?thesis using order by blast
qed

text \<open>
  C5. Concurrent transfers never deadlock: as long as a call is unfinished, some call can run
  its next statement, although calls wait for each other's row locks and for keys of
  uncommitted transfers. All transactions lock accounts in the order of the collation.
\<close>

theorem concurrent_calls_never_stuck:
  assumes "pg_inv P db" and "collation_orders P" and "runs P calls db ns s"
  shows "list_all finished (sy_txs s) \<or> (\<exists>n s'. step P calls n s s')"
  using tx_turns.reaches_inv assms start_inv step_or_finished unfolding runs_reaches by metis

theorem concurrent_calls_never_stuck_witness:
  "\<exists>n s'. step sample_pg sample_calls n (start_system sample_calls sample_db) s'"
  using concurrent_calls_never_stuck [OF sample_inv sample_collation begin_runs, of sample_calls]
  by (auto simp: start_system_def sample_calls_def finished_def)

text \<open>
  C10. Transfers are atomic. At every moment of a concurrent run, in the middle of transactions
  too, the committed database is what the effective calls alone leave behind: those that were
  answered with a transfer they created, and those whose commit took effect without its answer
  arriving. Calls that are still running, failed at any statement, were refused at the commit
  or were answered with a replay have left nothing behind.
\<close>

theorem failed_calls_leave_no_trace:
  assumes "pg_inv P db" and "runs P calls db ns s"
  shows "sy_db s = run_calls P (map ((!) calls)
    (filter (\<lambda>n. took_effect (calls ! n) (sy_txs s ! n)) (completion_order ns s))) db"
proof -
  note serial = runs_serial [OF assms(2,1)]
  have "without_effect (fst (calls ! (completion_order ns s ! k)))
      (serial_answer P db (map ((!) calls) (completion_order ns s)) k)"
    if "k < length (completion_order ns s)"
      "\<not> took_effect (calls ! (completion_order ns s ! k)) (sy_txs s ! (completion_order ns s ! k))" for k
    using serial that by (simp add: took_effect_def)
  from run_calls_effective [where took = "\<lambda>n. took_effect (calls ! n) (sy_txs s ! n)", OF assms(1) this]
  show ?thesis using serial by simp
qed

theorem failed_calls_leave_no_trace_witness:
  "sy_txs sample_failed = [fail (Wrapped ''append ledger entries'' (DbError ''timeout'')), Finished (Inr (sample_transfer, True))] \<and>
   sy_db sample_failed = run_calls sample_pg [(sample_call 7, ''alice'', ''42'', sample_request ''a'' ''b'' 30)] sample_db"
  using failed_calls_leave_no_trace [OF sample_inv sample_failed_run]
  by (simp add: sample_failed_def sample_failing_calls_def completion_order_def took_effect_def fail_def
      finished_def without_effect_def broken_call_def sample_call_def numeral_eq_Suc)

text \<open>
  Every call ends: a call runs at most eight statements, so \<open>n\<close> concurrent calls are over
  after at most \<open>8 * n\<close> statements however they are scheduled, and from every state that is
  reached there is a continuation in which all of them have been answered.
\<close>

lemma concurrent_calls_end:
  assumes "pg_inv P db" and "collation_orders P" and "runs P calls db ns s"
  shows "length ns \<le> 8 * length calls \<and>
    (\<exists>ns' s'. runs P calls db (ns @ ns') s' \<and> list_all finished (sy_txs s'))"
proof -
  have start: "sys_inv P calls (start_system calls db) \<and> collation_orders P" using assms start_inv by blast
  show ?thesis
    using tx_progress.runs_short [OF _ start] tx_progress.can_complete [OF _ start] assms(3)
    unfolding runs_reaches start_work by (metis add_leD1)
qed

end
