(* ===== verification/Auth_Token.thy ===== *)
theory Auth_Token
  imports Go_Base
begin

text \<open>
  \<^verbatim>\<open>internal/service/auth/token.go\<close>: permissions, claims and their validation, and the token
  service that issues and verifies access tokens. The JWT library is a parameter \<open>jwt\<close>;
  \<open>jwt_documented\<close> collects what its documentation says about signing and parsing.
\<close>

subsection \<open>Permissions and claims\<close>

type_synonym permission = string

definition PermissionTransfersRead :: permission where
  "PermissionTransfersRead = ''transfers:read''"

definition PermissionTransfersCreate :: permission where
  "PermissionTransfersCreate = ''transfers:create''"

definition PermissionAccountsRead :: permission where
  "PermissionAccountsRead = ''accounts:read''"

lemmas permission_defs = PermissionTransfersRead_def PermissionTransfersCreate_def
  PermissionAccountsRead_def

text \<open>Durations are nanoseconds, as in Go's \<^verbatim>\<open>time\<close> package.\<close>

definition time_Second :: int where
  "time_Second = 1000000000"

definition time_Minute :: int where
  "time_Minute = 60 * time_Second"

definition AccessTokenTTL :: int where
  "AccessTokenTTL = 15 * time_Minute"

text \<open>
  \<^verbatim>\<open>Claims\<close> embeds \<^verbatim>\<open>jwt.RegisteredClaims\<close>, whose dates are pointers and may be absent.
\<close>

record claims =
  cl_issuer :: string
  cl_subject :: string
  cl_audience :: "string list"
  cl_expires_at :: "time option"
  cl_not_before :: "time option"
  cl_issued_at :: "time option"
  cl_id :: string
  cl_permissions :: "permission list"

definition Claims_Validate :: "claims \<Rightarrow> go_error + unit" where
  "Claims_Validate c =
     (case (cl_issued_at c, cl_expires_at c) of
        (Some issued, Some expires) \<Rightarrow>
          if TrimSpace (cl_subject c) = '''' then Inl ErrInvalidToken
          else if \<not> expires > issued \<or> expires - issued > AccessTokenTTL then Inl ErrInvalidToken
          else Inr ()
      | _ \<Rightarrow> Inl ErrInvalidToken)"

fun has_permission :: "permission list \<Rightarrow> permission \<Rightarrow> bool" where
  "has_permission [] permission = False"
| "has_permission (granted # rest) permission =
     (if permission \<noteq> '''' \<and> granted = permission then True else has_permission rest permission)"

definition HasPermission :: "claims \<Rightarrow> permission \<Rightarrow> bool" where
  "HasPermission c permission = has_permission (cl_permissions c) permission"

lemma HasPermission_iff: "HasPermission c p \<longleftrightarrow> p \<noteq> '''' \<and> p \<in> set (cl_permissions c)"
proof -
  have "has_permission ps p \<longleftrightarrow> p \<noteq> '''' \<and> p \<in> set ps" for ps
    by (induction ps) auto
  then show ?thesis by (simp add: HasPermission_def)
qed

lemma Claims_Validate_Inr:
  "Claims_Validate c = Inr () \<longleftrightarrow>
     TrimSpace (cl_subject c) \<noteq> '''' \<and>
     (\<exists>i e. cl_issued_at c = Some i \<and> cl_expires_at c = Some e \<and> i < e \<and> e - i \<le> AccessTokenTTL)"
  by (auto simp: Claims_Validate_def split: option.split)

subsection \<open>The JWT library\<close>

record parser_options =
  opt_valid_methods :: "string list"
  opt_issuer :: string
  opt_audience :: string
  opt_expiration_required :: bool
  opt_issued_at :: bool
  opt_strict_decoding :: bool

text \<open>
  \<open>jwt_parse\<close> is \<^verbatim>\<open>jwt.ParseWithClaims\<close> with a key function that returns the key: the
  claims' own \<^verbatim>\<open>Validate\<close> is called by the library's validator and passed here; the result
  is the claims and \<^verbatim>\<open>token.Valid\<close>. \<open>jwt_signed alg key raw c\<close> says that \<open>raw\<close> carries the
  claims \<open>c\<close> with a signature of \<open>alg\<close> valid for \<open>key\<close>.
\<close>

record jwt =
  jwt_NewNumericDate :: "time \<Rightarrow> time"
  jwt_SignedString :: "string \<Rightarrow> claims \<Rightarrow> string \<Rightarrow> go_error + string"
  jwt_parse :: "parser_options \<Rightarrow> (claims \<Rightarrow> go_error + unit) \<Rightarrow> string \<Rightarrow> time \<Rightarrow> string \<Rightarrow>
    go_error + (claims \<times> bool)"
  jwt_signed :: "string \<Rightarrow> string \<Rightarrow> string \<Rightarrow> claims \<Rightarrow> bool"

definition dates_truncate :: "jwt \<Rightarrow> bool" where
  "dates_truncate J \<longleftrightarrow> (\<forall>t. jwt_NewNumericDate J t = t - t mod time_Second)"

text \<open>What the options ask the library to check.\<close>

definition options_hold :: "parser_options \<Rightarrow> (claims \<Rightarrow> go_error + unit) \<Rightarrow> time \<Rightarrow> claims \<Rightarrow> bool" where
  "options_hold opts validate now c \<longleftrightarrow>
     validate c = Inr () \<and> cl_issuer c = opt_issuer opts \<and> opt_audience opts \<in> set (cl_audience c) \<and>
     (case cl_expires_at c of None \<Rightarrow> \<not> opt_expiration_required opts | Some e \<Rightarrow> now < e) \<and>
     (case cl_issued_at c of None \<Rightarrow> True | Some i \<Rightarrow> opt_issued_at opts \<longrightarrow> i \<le> now) \<and>
     (case cl_not_before c of None \<Rightarrow> True | Some n \<Rightarrow> n \<le> now)"

definition parse_sound :: "jwt \<Rightarrow> bool" where
  "parse_sound J \<longleftrightarrow> (\<forall>opts validate key now raw c.
     jwt_parse J opts validate key now raw = Inr (c, True) \<longrightarrow>
     options_hold opts validate now c \<and>
     (\<exists>alg \<in> set (opt_valid_methods opts). jwt_signed J alg key raw c))"

text \<open>
  A token that the library signed parses back to its claims while they are acceptable, as
  long as JSON can carry them: valid UTF-8 and dates of whole seconds.
\<close>

definition claims_encodable :: "claims \<Rightarrow> bool" where
  "claims_encodable c \<longleftrightarrow>
     list_all utf8_valid (cl_issuer c # cl_subject c # cl_id c # cl_audience c @ cl_permissions c) \<and>
     (\<forall>t \<in> set_option (cl_issued_at c) \<union> set_option (cl_expires_at c) \<union> set_option (cl_not_before c).
        t mod time_Second = 0)"

definition parse_complete :: "jwt \<Rightarrow> bool" where
  "parse_complete J \<longleftrightarrow> (\<forall>opts validate alg key now raw c.
     jwt_SignedString J alg c key = Inr raw \<longrightarrow> claims_encodable c \<longrightarrow>
     alg \<in> set (opt_valid_methods opts) \<longrightarrow> options_hold opts validate now c \<longrightarrow>
     jwt_parse J opts validate key now raw = Inr (c, True))"

definition jwt_documented :: "jwt \<Rightarrow> bool" where
  "jwt_documented J \<longleftrightarrow> dates_truncate J \<and> parse_sound J \<and> parse_complete J"

subsection \<open>The token service\<close>

record token_service =
  ts_key :: string
  ts_issuer :: string
  ts_audience :: string

definition NewTokenService :: "string \<Rightarrow> string \<Rightarrow> string \<Rightarrow> go_error + token_service" where
  "NewTokenService key issuer audience =
     (if length key < 32 then Inl (ErrorsNew ''JWT signing key must contain at least 32 random bytes'')
      else if TrimSpace issuer = '''' \<or> TrimSpace audience = ''''
      then Inl (ErrorsNew ''JWT issuer and audience are required'')
      else Inr \<lparr>ts_key = key, ts_issuer = issuer, ts_audience = audience\<rparr>)"

definition HS256 :: string where
  "HS256 = ''HS256''"

definition issued_claims :: "jwt \<Rightarrow> token_service \<Rightarrow> time \<Rightarrow> string \<Rightarrow> permission list \<Rightarrow> claims" where
  "issued_claims J s now userID permissions =
     \<lparr>cl_issuer = ts_issuer s, cl_subject = userID, cl_audience = [ts_audience s],
      cl_expires_at = Some (jwt_NewNumericDate J (now + AccessTokenTTL)), cl_not_before = None,
      cl_issued_at = Some (jwt_NewNumericDate J now), cl_id = '''', cl_permissions = permissions\<rparr>"

definition Issue :: "jwt \<Rightarrow> token_service \<Rightarrow> time \<Rightarrow> string \<Rightarrow> permission list \<Rightarrow> go_error + string" where
  "Issue J s now userID permissions =
     (if TrimSpace userID = '''' then Inl (ErrorsNew ''user ID is required'')
      else jwt_SignedString J HS256 (issued_claims J s now userID permissions) (ts_key s))"

definition verify_options :: "token_service \<Rightarrow> parser_options" where
  "verify_options s =
     \<lparr>opt_valid_methods = [HS256], opt_issuer = ts_issuer s, opt_audience = ts_audience s,
      opt_expiration_required = True, opt_issued_at = True, opt_strict_decoding = True\<rparr>"

definition Verify :: "jwt \<Rightarrow> token_service \<Rightarrow> time \<Rightarrow> string \<Rightarrow> go_error + claims" where
  "Verify J s now raw =
     (case jwt_parse J (verify_options s) Claims_Validate (ts_key s) now raw of
        Inl _ \<Rightarrow> Inl ErrInvalidToken
      | Inr (claims, valid) \<Rightarrow> if \<not> valid then Inl ErrInvalidToken else Inr claims)"

subsection \<open>Facts\<close>

lemma Verify_Inr:
  "Verify J s now raw = Inr c \<longleftrightarrow>
     jwt_parse J (verify_options s) Claims_Validate (ts_key s) now raw = Inr (c, True)"
  by (auto simp: Verify_def split: sum.splits prod.splits)

lemma Verify_Inl: "Verify J s now raw = Inl e \<Longrightarrow> e = ErrInvalidToken"
  by (auto simp: Verify_def split: sum.splits prod.splits if_splits)

lemma Verify_accepts:
  assumes "jwt_documented J" and "Verify J s now raw = Inr c"
  shows "options_hold (verify_options s) Claims_Validate now c" "jwt_signed J HS256 (ts_key s) raw c"
proof -
  have "parse_sound J" using assms(1) by (simp add: jwt_documented_def)
  with assms(2) have "options_hold (verify_options s) Claims_Validate now c \<and>
      (\<exists>alg \<in> set (opt_valid_methods (verify_options s)). jwt_signed J alg (ts_key s) raw c)"
    unfolding Verify_Inr parse_sound_def by blast
  then show "options_hold (verify_options s) Claims_Validate now c" "jwt_signed J HS256 (ts_key s) raw c"
    by (simp_all add: verify_options_def)
qed

text \<open>Truncating both dates to whole seconds keeps the lifetime at exactly the TTL.\<close>

lemma issued_lifetime:
  assumes "dates_truncate J"
  shows "jwt_NewNumericDate J (now + AccessTokenTTL) = jwt_NewNumericDate J now + AccessTokenTTL"
proof -
  have ttl: "AccessTokenTTL = 900 * time_Second"
    by (simp add: AccessTokenTTL_def time_Minute_def)
  have "(now + AccessTokenTTL) mod time_Second = now mod time_Second"
    unfolding ttl by (rule mod_mult_self1)
  then show ?thesis using assms by (simp add: dates_truncate_def)
qed

lemma truncate_le: "dates_truncate J \<Longrightarrow> jwt_NewNumericDate J t \<le> t"
  by (simp add: dates_truncate_def time_Second_def)

lemma truncate_seconds: "dates_truncate J \<Longrightarrow> jwt_NewNumericDate J t mod time_Second = 0"
  by (simp add: dates_truncate_def mod_diff_eq [symmetric] time_Second_def)

lemma Issue_verifies:
  assumes doc: "jwt_documented J" and raw: "Issue J s t u ps = Inr raw"
    and utf8: "list_all utf8_valid (u # ts_issuer s # ts_audience s # ps)"
    and now: "t \<le> now" "now < jwt_NewNumericDate J t + AccessTokenTTL"
  shows "Verify J s now raw = Inr (issued_claims J s t u ps)"
proof -
  have J: "dates_truncate J" "parse_complete J" using doc by (simp_all add: jwt_documented_def)
  note life = issued_lifetime [OF J(1), of t]
  let ?c = "issued_claims J s t u ps"
  have u: "TrimSpace u \<noteq> ''''" and sign: "jwt_SignedString J HS256 ?c (ts_key s) = Inr raw"
    using raw by (auto simp: Issue_def split: if_splits)
  have "claims_encodable ?c"
    using utf8 truncate_seconds [OF J(1)]
    by (simp add: claims_encodable_def issued_claims_def utf8_valid.simps [of "[]"])
  moreover have "options_hold (verify_options s) Claims_Validate now ?c"
    using u now truncate_le [OF J(1), of t] life
    by (simp add: options_hold_def verify_options_def Claims_Validate_Inr issued_claims_def
        AccessTokenTTL_def time_Minute_def time_Second_def)
  ultimately show ?thesis
    using J(2) sign unfolding Verify_Inr parse_complete_def
    by (metis list.set_intros(1) parser_options.select_convs(1) verify_options_def)
qed

end
