(* ===== verification/Json_Text.thy ===== *)
theory Json_Text
  imports Json_Codec
begin

text \<open>
  The text level of \<^verbatim>\<open>encoding/json\<close>: the byte-driven scanner with its stack of open objects
  and arrays, the unquoting of strings, and the encoder. The scanner never backtracks, so
  reading a value is structural recursion over the bytes. The main result is that the text
  the encoder writes for a value is scanned back to that value.
\<close>

subsection \<open>Strings\<close>

definition is_hex :: "char \<Rightarrow> bool" where
  "is_hex c \<longleftrightarrow> byte_in 48 57 c \<or> byte_in 97 102 c \<or> byte_in 65 70 c"

definition hex_val :: "char \<Rightarrow> nat" where
  "hex_val c =
     (if byte_in 48 57 c then of_char c - 48
      else if byte_in 97 102 c then of_char c - 87 else of_char c - 55)"

definition utf8_encode :: "nat \<Rightarrow> string" where
  "utf8_encode r =
     (if r < 0x80 then [char_of r]
      else if r < 0x800 then [char_of (0xC0 + r div 64), char_of (0x80 + r mod 64)]
      else if r < 0x10000 then
        [char_of (0xE0 + r div 4096), char_of (0x80 + r div 64 mod 64), char_of (0x80 + r mod 64)]
      else
        [char_of (0xF0 + r div 262144), char_of (0x80 + r div 4096 mod 64),
         char_of (0x80 + r div 64 mod 64), char_of (0x80 + r mod 64)])"

definition replacement :: string where
  "replacement = [CHR 0xEF, CHR 0xBF, CHR 0xBD]"

text \<open>\<^verbatim>\<open>getu4\<close>: the value of an escape \<^verbatim>\<open>\uXXXX\<close> at the head of the string.\<close>

definition getu4 :: "string \<Rightarrow> nat option" where
  "getu4 s =
     (case s of
        b # u # h1 # h2 # h3 # h4 # _ \<Rightarrow>
          if b = CHR 0x5C \<and> u = CHR ''u'' \<and> list_all is_hex [h1, h2, h3, h4]
          then Some (foldl (\<lambda>acc h. acc * 16 + hex_val h) 0 [h1, h2, h3, h4]) else None
      | _ \<Rightarrow> None)"

definition is_surrogate :: "nat \<Rightarrow> bool" where
  "is_surrogate r \<longleftrightarrow> 0xD800 \<le> r \<and> r < 0xE000"

text \<open>\<^verbatim>\<open>utf16.DecodeRune\<close>: a high surrogate followed by a low one.\<close>

definition decode_surrogates :: "nat \<Rightarrow> nat \<Rightarrow> nat option" where
  "decode_surrogates r1 r2 =
     (if 0xD800 \<le> r1 \<and> r1 < 0xDC00 \<and> 0xDC00 \<le> r2 \<and> r2 < 0xE000
      then Some ((r1 - 0xD800) * 1024 + (r2 - 0xDC00) + 0x10000) else None)"

definition unescape :: "char \<Rightarrow> char" where
  "unescape c =
     (if c = CHR ''b'' then CHR 0x08 else if c = CHR ''f'' then CHR 0x0C
      else if c = CHR ''n'' then CHR 0x0A else if c = CHR ''r'' then CHR 0x0D
      else if c = CHR ''t'' then CHR 0x09 else c)"

text \<open>
  \<open>unquote_head s\<close> reads one character or escape: the bytes it stands for and how many bytes
  of \<open>s\<close> it takes. A surrogate that is not part of a pair and bytes that are not UTF-8 become
  U+FFFD.
\<close>

definition unquote_head :: "string \<Rightarrow> string \<times> nat" where
  "unquote_head s =
     (if hd s = CHR 0x5C then
        (case getu4 s of
           Some r \<Rightarrow>
             if is_surrogate r then
               (case getu4 (drop 6 s) of
                  Some r2 \<Rightarrow> (case decode_surrogates r r2 of
                      Some d \<Rightarrow> (utf8_encode d, 12) | None \<Rightarrow> (replacement, 6))
                | None \<Rightarrow> (replacement, 6))
             else (utf8_encode r, 6)
         | None \<Rightarrow> (map unescape (take 1 (tl s)), 2))
      else if utf8_size s = 0 then (replacement, 1)
      else (take (utf8_size s) s, utf8_size s))"

function unquote :: "string \<Rightarrow> string" where
  "unquote s =
     (if s = [] then [] else fst (unquote_head s) @ unquote (drop (snd (unquote_head s)) s))"
  by pat_completeness auto
termination
  by (relation "measure length") (auto simp: unquote_head_def split: option.splits)

declare unquote.simps [simp del]

subsection \<open>The scanner\<close>

text \<open>
  The scanner's states are those of Go's \<^verbatim>\<open>scanner.go\<close>; a string or number carries the bytes
  read so far in reverse. The stack holds the containers that are still open.
\<close>

datatype string_state = InString | InStringEsc | InStringEscU nat

datatype number_state = StateNeg | State0 | State1 | StateDot | StateDot0 | StateE | StateESign | StateE0

datatype frame = FrameObject "(string \<times> json) list" "string option" | FrameArray "json list"

datatype scan_state =
    BeginValue
  | BeginValueOrEmpty
  | BeginStringOrEmpty
  | BeginString
  | Quoted string_state string
  | Number number_state string
  | Literal string json
  | EndValue
  | EndTop json

type_synonym scanner = "scan_state \<times> frame list"

datatype scan_result = ScanContinue scanner | ScanEnd json | ScanEndHere json | ScanError

definition max_nesting_depth :: nat where
  "max_nesting_depth = 10000"

definition is_json_space :: "char \<Rightarrow> bool" where
  "is_json_space c \<longleftrightarrow> c \<in> {CHR 0x20, CHR 0x09, CHR 0x0A, CHR 0x0D}"

definition push_frame :: "scan_state \<Rightarrow> frame \<Rightarrow> frame list \<Rightarrow> scan_result" where
  "push_frame st f stack =
     (if length stack < max_nesting_depth then ScanContinue (st, f # stack) else ScanError)"

text \<open>A value is complete: it goes into the innermost open container, or it is the result.\<close>

definition value_done :: "json \<Rightarrow> frame list \<Rightarrow> scanner" where
  "value_done v stack =
     (case stack of
        [] \<Rightarrow> (EndTop v, [])
      | FrameArray vs # rest \<Rightarrow> (EndValue, FrameArray (v # vs) # rest)
      | FrameObject kvs (Some k) # rest \<Rightarrow> (EndValue, FrameObject ((k, v) # kvs) None # rest)
      | FrameObject kvs None # rest \<Rightarrow> (EndValue, FrameObject kvs None # rest))"

text \<open>A closing bracket ends the whole value at once when no container is left open.\<close>

definition close_frame :: "json \<Rightarrow> frame list \<Rightarrow> scan_result" where
  "close_frame v rest = (if rest = [] then ScanEnd v else ScanContinue (value_done v rest))"

definition begin_value :: "char \<Rightarrow> frame list \<Rightarrow> scan_result" where
  "begin_value c stack =
     (if is_json_space c then ScanContinue (BeginValue, stack)
      else if c = CHR ''{'' then push_frame BeginStringOrEmpty (FrameObject [] None) stack
      else if c = CHR ''['' then push_frame BeginValueOrEmpty (FrameArray []) stack
      else if c = CHR 0x22 then ScanContinue (Quoted InString [], stack)
      else if c = CHR ''-'' then ScanContinue (Number StateNeg [c], stack)
      else if c = CHR ''0'' then ScanContinue (Number State0 [c], stack)
      else if byte_in 49 57 c then ScanContinue (Number State1 [c], stack)
      else if c = CHR ''t'' then ScanContinue (Literal ''rue'' (JBool True), stack)
      else if c = CHR ''f'' then ScanContinue (Literal ''alse'' (JBool False), stack)
      else if c = CHR ''n'' then ScanContinue (Literal ''ull'' JNull, stack)
      else ScanError)"

definition end_value :: "char \<Rightarrow> frame list \<Rightarrow> scan_result" where
  "end_value c stack =
     (if is_json_space c then ScanContinue (EndValue, stack)
      else case stack of
        FrameObject kvs (Some k) # rest \<Rightarrow>
          if c = CHR '':'' then ScanContinue (BeginValue, stack) else ScanError
      | FrameObject kvs None # rest \<Rightarrow>
          if c = CHR '','' then ScanContinue (BeginString, stack)
          else if c = CHR ''}'' then close_frame (JObject (rev kvs)) rest else ScanError
      | FrameArray vs # rest \<Rightarrow>
          if c = CHR '','' then ScanContinue (BeginValue, stack)
          else if c = CHR '']'' then close_frame (JArray (rev vs)) rest else ScanError
      | [] \<Rightarrow> ScanError)"

definition end_number :: "char \<Rightarrow> string \<Rightarrow> frame list \<Rightarrow> scan_result" where
  "end_number c acc stack =
     (if stack = [] then ScanEndHere (JNumber (rev acc))
      else case value_done (JNumber (rev acc)) stack of (_, stack') \<Rightarrow> end_value c stack')"

definition scan_number :: "number_state \<Rightarrow> string \<Rightarrow> char \<Rightarrow> frame list \<Rightarrow> scan_result" where
  "scan_number st acc c stack =
     (let next = (\<lambda>st'. ScanContinue (Number st' (c # acc), stack)) in
      case st of
        StateNeg \<Rightarrow> if c = CHR ''0'' then next State0 else if byte_in 49 57 c then next State1 else ScanError
      | State1 \<Rightarrow>
          if is_digit c then next State1 else if c = CHR ''.'' then next StateDot
          else if c = CHR ''e'' \<or> c = CHR ''E'' then next StateE else end_number c acc stack
      | State0 \<Rightarrow>
          if c = CHR ''.'' then next StateDot
          else if c = CHR ''e'' \<or> c = CHR ''E'' then next StateE else end_number c acc stack
      | StateDot \<Rightarrow> if is_digit c then next StateDot0 else ScanError
      | StateDot0 \<Rightarrow>
          if is_digit c then next StateDot0
          else if c = CHR ''e'' \<or> c = CHR ''E'' then next StateE else end_number c acc stack
      | StateE \<Rightarrow>
          if c = CHR ''+'' \<or> c = CHR ''-'' then next StateESign
          else if is_digit c then next StateE0 else ScanError
      | StateESign \<Rightarrow> if is_digit c then next StateE0 else ScanError
      | StateE0 \<Rightarrow> if is_digit c then next StateE0 else end_number c acc stack)"

text \<open>The string that ends is an object key or a value.\<close>

definition string_done :: "string \<Rightarrow> frame list \<Rightarrow> scanner" where
  "string_done acc stack =
     (let s = unquote (rev acc) in
      case stack of
        FrameObject kvs None # rest \<Rightarrow> (EndValue, FrameObject kvs (Some s) # rest)
      | _ \<Rightarrow> value_done (JString s) stack)"

definition scan_string :: "string_state \<Rightarrow> string \<Rightarrow> char \<Rightarrow> frame list \<Rightarrow> scan_result" where
  "scan_string st acc c stack =
     (case st of
        InString \<Rightarrow>
          if c = CHR 0x22 then ScanContinue (string_done acc stack)
          else if c = CHR 0x5C then ScanContinue (Quoted InStringEsc (c # acc), stack)
          else if of_char c < (0x20 :: nat) then ScanError
          else ScanContinue (Quoted InString (c # acc), stack)
      | InStringEsc \<Rightarrow>
          if c \<in> {CHR ''b'', CHR ''f'', CHR ''n'', CHR ''r'', CHR ''t'', CHR 0x5C, CHR ''/'', CHR 0x22}
          then ScanContinue (Quoted InString (c # acc), stack)
          else if c = CHR ''u'' then ScanContinue (Quoted (InStringEscU 3) (c # acc), stack)
          else ScanError
      | InStringEscU n \<Rightarrow>
          if is_hex c
          then ScanContinue (Quoted (case n of 0 \<Rightarrow> InString | Suc k \<Rightarrow> InStringEscU k) (c # acc), stack)
          else ScanError)"

definition scan_step :: "scanner \<Rightarrow> char \<Rightarrow> scan_result" where
  "scan_step sc c =
     (case sc of (st, stack) \<Rightarrow>
      case st of
        BeginValue \<Rightarrow> begin_value c stack
      | BeginValueOrEmpty \<Rightarrow>
          if is_json_space c then ScanContinue (BeginValueOrEmpty, stack)
          else if c = CHR '']'' then end_value c stack else begin_value c stack
      | BeginStringOrEmpty \<Rightarrow>
          if is_json_space c then ScanContinue (BeginStringOrEmpty, stack)
          else if c = CHR ''}'' then end_value c stack
          else if c = CHR 0x22 then ScanContinue (Quoted InString [], stack) else ScanError
      | BeginString \<Rightarrow>
          if is_json_space c then ScanContinue (BeginString, stack)
          else if c = CHR 0x22 then ScanContinue (Quoted InString [], stack) else ScanError
      | Quoted st acc \<Rightarrow> scan_string st acc c stack
      | Number st acc \<Rightarrow> scan_number st acc c stack
      | Literal [] v \<Rightarrow> ScanError
      | Literal (e # es) v \<Rightarrow>
          if c \<noteq> e then ScanError
          else if es = [] then ScanContinue (value_done v stack)
          else ScanContinue (Literal es v, stack)
      | EndValue \<Rightarrow> end_value c stack
      | EndTop v \<Rightarrow> ScanEndHere v)"

datatype scan_outcome = Scanned json string | SyntaxError | NeedMore

fun scan_run :: "scanner \<Rightarrow> string \<Rightarrow> scan_outcome" where
  "scan_run sc [] = NeedMore"
| "scan_run sc (c # cs) =
     (case scan_step sc c of
        ScanContinue sc' \<Rightarrow> scan_run sc' cs
      | ScanEnd v \<Rightarrow> Scanned v cs
      | ScanEndHere v \<Rightarrow> Scanned v (c # cs)
      | ScanError \<Rightarrow> SyntaxError)"

definition scan_value :: "string \<Rightarrow> scan_outcome" where
  "scan_value s = scan_run (BeginValue, []) s"

subsection \<open>The encoder\<close>

definition hex_char :: "nat \<Rightarrow> char" where
  "hex_char n = (if n < 10 then char_of (48 + n) else char_of (87 + n))"

definition unicode_escape :: "nat \<Rightarrow> string" where
  "unicode_escape r =
     [CHR 0x5C, CHR ''u'', hex_char (r div 4096), hex_char (r div 256 mod 16),
      hex_char (r div 16 mod 16), hex_char (r mod 16)]"

text \<open>
  Quotes, backslashes and control characters are escaped, and so are the characters that are
  special in HTML; the two Unicode line separators are escaped for JavaScript.
\<close>

definition escape_byte :: "char \<Rightarrow> string" where
  "escape_byte c =
     (if c = CHR 0x22 \<or> c = CHR 0x5C then [CHR 0x5C, c]
      else if c = CHR 0x08 then [CHR 0x5C, CHR ''b''] else if c = CHR 0x0C then [CHR 0x5C, CHR ''f'']
      else if c = CHR 0x0A then [CHR 0x5C, CHR ''n''] else if c = CHR 0x0D then [CHR 0x5C, CHR ''r'']
      else if c = CHR 0x09 then [CHR 0x5C, CHR ''t'']
      else if of_char c < (0x20 :: nat) \<or> c \<in> {CHR ''<'', CHR ''>'', CHR ''&''} then unicode_escape (of_char c)
      else [c])"

definition escape_rune :: "string \<Rightarrow> string" where
  "escape_rune bs =
     (if length bs = 1 then escape_byte (hd bs)
      else if bs = [CHR 0xE2, CHR 0x80, CHR 0xA8] then unicode_escape 0x2028
      else if bs = [CHR 0xE2, CHR 0x80, CHR 0xA9] then unicode_escape 0x2029
      else bs)"

function encode_chars :: "string \<Rightarrow> string" where
  "encode_chars s =
     (if s = [] then []
      else if utf8_size s = 0 then unicode_escape 0xFFFD @ encode_chars (tl s)
      else escape_rune (take (utf8_size s) s) @ encode_chars (drop (utf8_size s) s))"
  by pat_completeness auto
termination
  by (relation "measure length") auto

declare encode_chars.simps [simp del]

definition encode_string :: "string \<Rightarrow> string" where
  "encode_string s = CHR 0x22 # encode_chars s @ [CHR 0x22]"

fun join_commas :: "string list \<Rightarrow> string" where
  "join_commas [] = []"
| "join_commas [s] = s"
| "join_commas (s # t # ts) = s @ CHR '','' # join_commas (t # ts)"

fun encode_json :: "json \<Rightarrow> string" where
  "encode_json JNull = ''null''"
| "encode_json (JBool b) = (if b then ''true'' else ''false'')"
| "encode_json (JNumber lit) = lit"
| "encode_json (JString s) = encode_string s"
| "encode_json (JArray vs) = CHR ''['' # join_commas (map encode_json vs) @ '']''"
| "encode_json (JObject kvs) =
     CHR ''{'' # join_commas (map (\<lambda>(k, v). encode_string k @ CHR '':'' # encode_json v) kvs) @ ''}''"

subsection \<open>Scanning what was encoded\<close>

lemma hex_char_hex: "n < 16 \<Longrightarrow> is_hex (hex_char n)"
  by (auto simp: is_hex_def hex_char_def byte_in_def)

lemma hex_val_char: "n < 16 \<Longrightarrow> hex_val (hex_char n) = n"
  by (auto simp: hex_val_def hex_char_def byte_in_def)

lemma unicode_escape_digits:
  "r < 65536 \<Longrightarrow> list_all (\<lambda>n. n < 16) [r div 4096, r div 256 mod 16, r div 16 mod 16, r mod 16 :: nat]"
  by (simp add: less_mult_imp_div_less)

lemma unicode_escape_value:
  "((r div 4096 * 16 + r div 256 mod 16) * 16 + r div 16 mod 16) * 16 + r mod 16 = (r :: nat)"
proof -
  have "r div 4096 * 16 + r div 256 mod 16 = r div 256"
    using div_mult_mod_eq [of "r div 256" 16] by (simp add: div_mult2_eq [symmetric])
  moreover have "r div 256 * 16 + r div 16 mod 16 = r div 16"
    using div_mult_mod_eq [of "r div 16" 16] by (simp add: div_mult2_eq [symmetric])
  ultimately show ?thesis by simp
qed

lemma getu4_escape: "r < 65536 \<Longrightarrow> getu4 (unicode_escape r @ rest) = Some r"
  using unicode_escape_digits [of r] unicode_escape_value [of r]
  by (simp add: getu4_def unicode_escape_def hex_char_hex hex_val_char)

lemma scan_escape:
  assumes "r < 65536"
  shows "scan_run (Quoted InString acc, stack) (unicode_escape r @ cs) =
    scan_run (Quoted InString (rev (unicode_escape r) @ acc), stack) cs"
  using unicode_escape_digits [OF assms]
  by (simp add: unicode_escape_def scan_step_def scan_string_def hex_char_hex numeral_3_eq_3)

lemma of_char_eq: "(of_char c :: nat) = of_char d \<longleftrightarrow> c = d"
  by (simp add: of_char_eq_iff)

lemma scan_byte:
  assumes "byte_in 0 0x7F c"
  shows "scan_run (Quoted InString acc, stack) (escape_byte c @ cs) =
    scan_run (Quoted InString (rev (escape_byte c) @ acc), stack) cs"
proof -
  have "of_char c < (65536 :: nat)" using assms by (simp add: byte_in_def)
  then show ?thesis
    using scan_escape [of "of_char c" acc stack cs]
    by (simp add: escape_byte_def) (simp add: scan_step_def scan_string_def)
qed

lemma unquote_escape:
  assumes "r < 65536" and "\<not> is_surrogate r"
  shows "unquote_head (unicode_escape r @ rest) = (utf8_encode r, 6)"
proof -
  have "hd (unicode_escape r @ rest) = CHR 0x5C" by (simp add: unicode_escape_def)
  then show ?thesis using assms by (simp add: unquote_head_def getu4_escape)
qed

lemma unquote_short_escape: "e \<noteq> CHR ''u'' \<Longrightarrow> unquote_head (CHR 0x5C # e # rest) = ([unescape e], 2)"
  by (auto simp: unquote_head_def getu4_def split: list.split)

lemma unquote_plain: "byte_in 0 0x7F c \<Longrightarrow> c \<noteq> CHR 0x5C \<Longrightarrow> unquote_head (c # rest) = ([c], 1)"
  by (simp add: unquote_head_def utf8_size.simps)

lemma unquote_byte:
  assumes "byte_in 0 0x7F c"
  shows "unquote_head (escape_byte c @ rest) = ([c], length (escape_byte c))"
proof -
  have r: "of_char c < (128 :: nat)" using assms by (simp add: byte_in_def)
  then have "unquote_head (unicode_escape (of_char c) @ rest) = ([c], length (unicode_escape (of_char c)))"
    by (subst unquote_escape) (simp_all add: is_surrogate_def utf8_encode_def unicode_escape_def)
  then show ?thesis
    using assms
    by (simp add: escape_byte_def unquote_short_escape unquote_plain) (simp add: unescape_def)
qed

text \<open>One encoded character is scanned within the string and unquoted to itself.\<close>

lemma scan_high:
  "list_all (\<lambda>c. 0x80 \<le> (of_char c :: nat)) bs \<Longrightarrow>
   scan_run (Quoted InString acc, stack) (bs @ cs) = scan_run (Quoted InString (rev bs @ acc), stack) cs"
proof (induction bs arbitrary: acc)
  case (Cons b bs)
  have "b \<noteq> CHR 0x22" "b \<noteq> CHR 0x5C" "\<not> of_char b < (0x20 :: nat)" using Cons.prems by auto
  with Cons show ?case by (simp add: scan_step_def scan_string_def)
qed simp

lemma rune_cases:
  assumes "utf8_size s \<noteq> 0"
  obtains (byte) c where "take (utf8_size s) s = [c]" "byte_in 0 0x7F c"
    | (high) "1 < utf8_size s" "length (take (utf8_size s) s) \<noteq> 1"
        "list_all (\<lambda>c. 0x80 \<le> (of_char c :: nat)) (take (utf8_size s) s)"
proof (cases "utf8_size s = 1")
  case True
  with assms show ?thesis by (cases rule: utf8_size_cases) (use that(1) in auto)
next
  case False
  with assms have "1 < utf8_size s" by simp
  with utf8_size_bytes [OF this] utf8_size_le [of s] show ?thesis by (intro that(2)) auto
qed

lemma scan_rune:
  assumes "utf8_size s \<noteq> 0"
  shows "scan_run (Quoted InString acc, stack) (escape_rune (take (utf8_size s) s) @ cs) =
    scan_run (Quoted InString (rev (escape_rune (take (utf8_size s) s)) @ acc), stack) cs"
  using assms
proof (cases rule: rune_cases)
  case (byte c)
  then show ?thesis using scan_byte [of c] by (simp add: escape_rune_def)
next
  case high
  then show ?thesis
    using scan_high [OF high(3)] scan_escape by (simp add: escape_rune_def)
qed

lemma separators:
  "utf8_encode 0x2028 = [CHR 0xE2, CHR 0x80, CHR 0xA8]" "utf8_encode 0x2029 = [CHR 0xE2, CHR 0x80, CHR 0xA9]"
  by (simp_all add: utf8_encode_def char_of_eq_iff take_bit_eq_mod)

lemma escape_rune_not_Nil: "bs \<noteq> [] \<Longrightarrow> escape_rune bs \<noteq> []"
  by (simp add: escape_rune_def escape_byte_def unicode_escape_def)

lemma unquote_rune:
  assumes "utf8_size s \<noteq> 0"
  shows "unquote_head (escape_rune (take (utf8_size s) s) @ rest) =
    (take (utf8_size s) s, length (escape_rune (take (utf8_size s) s)))"
  using assms
proof (cases rule: rune_cases)
  case (byte c)
  then show ?thesis using unquote_byte [of c] by (simp add: escape_rune_def)
next
  case high
  let ?bs = "take (utf8_size s) s"
  have "?bs \<noteq> []" using high(1) utf8_size_le [of s] by auto
  then have "hd (?bs @ rest) \<noteq> CHR 0x5C" using high(3) by (cases ?bs) auto
  then have "unquote_head (?bs @ rest) = (?bs, length ?bs)"
    using utf8_size_take [OF assms, of rest] assms utf8_size_le [of s] by (simp add: unquote_head_def)
  moreover have "unquote_head (unicode_escape 0x2028 @ rest) = ([CHR 0xE2, CHR 0x80, CHR 0xA8], 6)"
    "unquote_head (unicode_escape 0x2029 @ rest) = ([CHR 0xE2, CHR 0x80, CHR 0xA9], 6)"
    using separators by (simp_all add: unquote_escape is_surrogate_def)
  ultimately show ?thesis using high(2) by (simp add: escape_rune_def unicode_escape_def)
qed

lemma scan_chars:
  "scan_run (Quoted InString acc, stack) (encode_chars s @ CHR 0x22 # cs) =
   scan_run (string_done (rev (encode_chars s) @ acc) stack) cs"
proof (induction s arbitrary: acc rule: encode_chars.induct)
  case (1 s)
  show ?case
  proof (cases "s = []")
    case True
    then show ?thesis by (simp add: encode_chars.simps scan_step_def scan_string_def)
  next
    case False
    with 1 scan_rune [of s] scan_escape [of 65533] show ?thesis
      by (cases "utf8_size s = 0") (simp_all add: encode_chars.simps [of s])
  qed
qed

lemma unquote_encode: "utf8_valid s \<Longrightarrow> unquote (encode_chars s) = s"
proof (induction s rule: encode_chars.induct)
  case (1 s)
  show ?case
  proof (cases "s = []")
    case True
    then show ?thesis by (simp add: encode_chars.simps unquote.simps)
  next
    case False
    with "1.prems" have sz: "utf8_size s \<noteq> 0" and "utf8_valid (drop (utf8_size s) s)"
      by (auto simp: utf8_valid.simps [of s] split: if_splits)
    with False "1.IH"(2) have ih: "unquote (encode_chars (drop (utf8_size s) s)) = drop (utf8_size s) s"
      by simp
    have enc: "encode_chars s = escape_rune (take (utf8_size s) s) @ encode_chars (drop (utf8_size s) s)"
      using False sz by (simp add: encode_chars.simps [of s])
    have "encode_chars s \<noteq> []"
      using escape_rune_not_Nil [of "take (utf8_size s) s"] sz False by (simp add: enc)
    then have "unquote (encode_chars s) = fst (unquote_head (encode_chars s)) @
        unquote (drop (snd (unquote_head (encode_chars s))) (encode_chars s))"
      by (simp add: unquote.simps [of "encode_chars s"])
    then show ?thesis by (simp add: enc unquote_rune [OF sz] ih)
  qed
qed

subsection \<open>Values\<close>

text \<open>
  The values the program writes: integer literals, valid UTF-8, and no deeper than the
  scanner's limit.
\<close>

definition nat_literal :: "string \<Rightarrow> bool" where
  "nat_literal ds \<longleftrightarrow>
     ds = ''0'' \<or> (case ds of [] \<Rightarrow> False | d # r \<Rightarrow> byte_in 49 57 d \<and> list_all is_digit r)"

definition int_literal :: "string \<Rightarrow> bool" where
  "int_literal lit \<longleftrightarrow> nat_literal lit \<or> (\<exists>ds. lit = CHR ''-'' # ds \<and> nat_literal ds)"

fun json_ok :: "nat \<Rightarrow> json \<Rightarrow> bool" where
  "json_ok n JNull = True"
| "json_ok n (JBool b) = True"
| "json_ok n (JNumber lit) = int_literal lit"
| "json_ok n (JString s) = utf8_valid s"
| "json_ok n (JArray vs) = (case n of 0 \<Rightarrow> False | Suc m \<Rightarrow> list_all (json_ok m) vs)"
| "json_ok n (JObject kvs) =
     (case n of 0 \<Rightarrow> False | Suc m \<Rightarrow> list_all (\<lambda>(k, v). utf8_valid k \<and> json_ok m v) kvs)"

definition terminator :: "char \<Rightarrow> bool" where
  "terminator c \<longleftrightarrow> c \<in> {CHR '','', CHR '']'', CHR ''}''}"

lemma terminators [simp]: "terminator CHR '',''" "terminator CHR '']''" "terminator CHR ''}''"
  by (simp_all add: terminator_def)

definition close_run :: "json \<Rightarrow> frame list \<Rightarrow> string \<Rightarrow> scan_outcome" where
  "close_run v stack rest = (if stack = [] then Scanned v rest else scan_run (value_done v stack) rest)"

lemma value_done_EndValue: "stack \<noteq> [] \<Longrightarrow> \<exists>stack'. value_done v stack = (EndValue, stack')"
  by (auto simp: value_done_def neq_Nil_conv split: frame.split option.split)

lemma scan_number_end:
  assumes "stack \<noteq> []" and "terminator c" and "st = State0 \<or> st = State1"
  shows "scan_run (Number st acc, stack) (c # cs) = scan_run (value_done (JNumber (rev acc)) stack) (c # cs)"
proof -
  obtain stack' where d: "value_done (JNumber (rev acc)) stack = (EndValue, stack')"
    using value_done_EndValue [OF assms(1)] by blast
  have c: "\<not> is_digit c" "c \<noteq> CHR ''.''" "c \<noteq> CHR ''e''" "c \<noteq> CHR ''E''"
    using assms(2) unfolding terminator_def
    by (elim insertE emptyE; simp add: is_digit_def byte_in_def)+
  have "scan_step (Number st acc, stack) c = end_value c stack'"
    using assms(3)
    by (elim disjE) (simp_all add: scan_step_def scan_number_def end_number_def d c assms(1))
  then show ?thesis unfolding d scan_run.simps by (simp add: scan_step_def)
qed

lemma scan_digits:
  "list_all is_digit ds \<Longrightarrow>
   scan_run (Number State1 acc, stack) (ds @ cs) = scan_run (Number State1 (rev ds @ acc), stack) cs"
  by (induction ds arbitrary: acc) (simp_all add: scan_step_def scan_number_def)

lemma scan_nat_literal:
  assumes "nat_literal ds" and "stack \<noteq> []" and "terminator c"
  shows "scan_run (BeginValue, stack) (ds @ c # cs) = scan_run (value_done (JNumber ds) stack) (c # cs)"
    and "scan_run (Number StateNeg acc, stack) (ds @ c # cs) =
      scan_run (value_done (JNumber (rev acc @ ds)) stack) (c # cs)"
proof -
  have "(scan_run (BeginValue, stack) (ds @ c # cs) = scan_run (value_done (JNumber ds) stack) (c # cs)) \<and>
    (scan_run (Number StateNeg acc, stack) (ds @ c # cs) =
      scan_run (value_done (JNumber (rev acc @ ds)) stack) (c # cs))"
  proof (cases "ds = ''0''")
    case True
    have "scan_step (BeginValue, stack) CHR ''0'' = ScanContinue (Number State0 ''0'', stack)"
      "scan_step (Number StateNeg acc, stack) CHR ''0'' = ScanContinue (Number State0 (CHR ''0'' # acc), stack)"
      by (simp_all add: scan_step_def begin_value_def scan_number_def is_json_space_def)
    with True show ?thesis
      using scan_number_end [OF assms(2,3)] by (simp del: scan_run.simps(2) add: scan_run.simps(2) [of _ "CHR ''0''"])
  next
    case False
    with assms(1) obtain d r where ds: "ds = d # r" "byte_in 49 57 d" "list_all is_digit r"
      by (cases ds) (auto simp: nat_literal_def)
    then have d: "d \<noteq> CHR ''0''" "d \<noteq> CHR ''-''" "d \<noteq> CHR ''{''" "d \<noteq> CHR ''[''" "d \<noteq> CHR 0x22" "\<not> is_json_space d"
      by (auto simp: byte_in_def is_json_space_def)
    then have "scan_step (BeginValue, stack) d = ScanContinue (Number State1 [d], stack)"
      "scan_step (Number StateNeg acc, stack) d = ScanContinue (Number State1 (d # acc), stack)"
      using ds(2) by (simp_all add: scan_step_def begin_value_def scan_number_def)
    with ds show ?thesis
      using scan_number_end [OF assms(2,3)] scan_digits [OF ds(3)]
      by (simp del: scan_run.simps(2) add: scan_run.simps(2) [of _ d])
  qed
  then show "scan_run (BeginValue, stack) (ds @ c # cs) = scan_run (value_done (JNumber ds) stack) (c # cs)"
    and "scan_run (Number StateNeg acc, stack) (ds @ c # cs) =
      scan_run (value_done (JNumber (rev acc @ ds)) stack) (c # cs)" by blast+
qed

lemma scan_int_literal:
  assumes "int_literal lit" and "stack \<noteq> []" and "terminator c"
  shows "scan_run (BeginValue, stack) (lit @ c # cs) = scan_run (value_done (JNumber lit) stack) (c # cs)"
  using assms(1) unfolding int_literal_def
proof (elim disjE exE conjE)
  fix ds
  assume ds: "lit = CHR ''-'' # ds" "nat_literal ds"
  have "scan_step (BeginValue, stack) CHR ''-'' = ScanContinue (Number StateNeg ''-'', stack)"
    by (simp add: scan_step_def begin_value_def is_json_space_def)
  with ds show ?thesis
    using scan_nat_literal(2) [OF ds(2) assms(2,3), of "''-''"]
    by (simp del: scan_run.simps(2) add: scan_run.simps(2) [of _ "CHR ''-''"])
qed (rule scan_nat_literal(1) [OF _ assms(2,3)])

lemma scan_quoted:
  assumes "st \<in> {BeginValue, BeginString, BeginStringOrEmpty}"
  shows "scan_run (st, stack) (encode_string s @ cs) = scan_run (string_done (rev (encode_chars s)) stack) cs"
proof -
  have "scan_step (st, stack) CHR 0x22 = ScanContinue (Quoted InString [], stack)"
    using assms by (auto simp: scan_step_def begin_value_def is_json_space_def)
  then show ?thesis
    using scan_chars [of "[]" stack s cs] by (simp add: encode_string_def)
qed

lemma string_done_value:
  "utf8_valid s \<Longrightarrow> (\<And>kvs r. stack \<noteq> FrameObject kvs None # r) \<Longrightarrow>
   string_done (rev (encode_chars s)) stack = value_done (JString s) stack"
  by (auto simp: string_done_def unquote_encode split: list.split frame.split option.split)

lemma string_done_key:
  "utf8_valid k \<Longrightarrow> string_done (rev (encode_chars k)) (FrameObject kvs None # r) =
   (EndValue, FrameObject kvs (Some k) # r)"
  by (simp add: string_done_def unquote_encode)

text \<open>A value may follow only where no object waits for a key.\<close>

definition awaits_value :: "frame list \<Rightarrow> bool" where
  "awaits_value stack \<longleftrightarrow>
     (case stack of FrameArray _ # _ \<Rightarrow> True | FrameObject _ (Some _) # _ \<Rightarrow> True | _ \<Rightarrow> False)"

definition scans_in :: "json \<Rightarrow> frame list \<Rightarrow> bool" where
  "scans_in v stack \<longleftrightarrow> (\<forall>c cs. terminator c \<longrightarrow>
     scan_run (BeginValue, stack) (encode_json v @ c # cs) = scan_run (value_done v stack) (c # cs))"

lemma scans_inD:
  "scans_in v stack \<Longrightarrow> terminator c \<Longrightarrow>
   scan_run (BeginValue, stack) (encode_json v @ c # cs) = scan_run (value_done v stack) (c # cs)"
  by (simp add: scans_in_def del: scan_run.simps)

lemma scan_elements:
  assumes "\<And>v us. v \<in> set vs \<Longrightarrow> scans_in v (FrameArray us # stack)" and "vs \<noteq> []"
  shows "scan_run (BeginValue, FrameArray us # stack) (join_commas (map encode_json vs) @ CHR '']'' # rest) =
    close_run (JArray (rev us @ vs)) stack rest"
  using assms
proof (induction vs arbitrary: us)
  case (Cons v vs)
  have v: "scan_run (BeginValue, FrameArray us # stack) (encode_json v @ c # cs) =
      scan_run (EndValue, FrameArray (v # us) # stack) (c # cs)" if "terminator c" for c cs
    using scans_inD [OF Cons.prems(1) [of v us] that] by (simp add: value_done_def del: scan_run.simps)
  show ?case
  proof (cases vs)
    case Nil
    then show ?thesis
      using v [of "CHR '']''" rest]
      by (simp add: scan_step_def end_value_def is_json_space_def close_frame_def close_run_def)
  next
    case (Cons v' vs')
    have "scan_run (EndValue, FrameArray (v # us) # stack) (CHR '','' # cs) =
        scan_run (BeginValue, FrameArray (v # us) # stack) cs" for cs
      by (simp add: scan_step_def end_value_def is_json_space_def)
    with Cons.IH [of "v # us"] Cons.prems v [of "CHR '',''"] Cons show ?thesis
      by (simp del: scan_run.simps)
  qed
qed simp

abbreviation encode_member :: "string \<times> json \<Rightarrow> string" where
  "encode_member \<equiv> \<lambda>(k, v). encode_string k @ CHR '':'' # encode_json v"

lemma scan_members:
  assumes "\<And>k v us. (k, v) \<in> set kvs \<Longrightarrow> utf8_valid k \<and> scans_in v (FrameObject us (Some k) # stack)"
    and "kvs \<noteq> []" and "st \<in> {BeginString, BeginStringOrEmpty}"
  shows "scan_run (st, FrameObject us None # stack) (join_commas (map encode_member kvs) @ CHR ''}'' # rest) =
    close_run (JObject (rev us @ kvs)) stack rest"
  using assms
proof (induction kvs arbitrary: us st)
  case (Cons kv kvs)
  obtain k v where kv: "kv = (k, v)" by fastforce
  have key: "utf8_valid k" and val: "scans_in v (FrameObject us (Some k) # stack)"
    using Cons.prems(1) [of k v us] by (auto simp: kv)
  have m: "scan_run (st, FrameObject us None # stack) (encode_member kv @ c # cs) =
      scan_run (EndValue, FrameObject ((k, v) # us) None # stack) (c # cs)" if "terminator c" for c cs
  proof -
    have "scan_run (st, FrameObject us None # stack) (encode_member kv @ c # cs) =
        scan_run (EndValue, FrameObject us (Some k) # stack) (CHR '':'' # encode_json v @ c # cs)"
      using scan_quoted [of st] Cons.prems(3) by (simp add: kv string_done_key [OF key] del: scan_run.simps)
    also have "\<dots> = scan_run (BeginValue, FrameObject us (Some k) # stack) (encode_json v @ c # cs)"
      by (simp add: scan_step_def end_value_def is_json_space_def)
    also have "\<dots> = scan_run (EndValue, FrameObject ((k, v) # us) None # stack) (c # cs)"
      using scans_inD [OF val that] by (simp add: value_done_def del: scan_run.simps)
    finally show ?thesis .
  qed
  show ?case
  proof (cases kvs)
    case Nil
    then show ?thesis
      using m [of "CHR ''}''" rest]
      by (simp add: kv scan_step_def end_value_def is_json_space_def close_frame_def close_run_def)
  next
    case (Cons kv' kvs')
    have "scan_run (EndValue, FrameObject ((k, v) # us) None # stack) (CHR '','' # cs) =
        scan_run (BeginString, FrameObject ((k, v) # us) None # stack) cs" for cs
      by (simp add: scan_step_def end_value_def is_json_space_def)
    moreover have "scan_run (BeginString, FrameObject ((k, v) # us) None # stack)
        (join_commas (map encode_member kvs) @ CHR ''}'' # rest) = close_run (JObject (rev ((k, v) # us) @ kvs)) stack rest"
      using Cons.prems(1) Cons by (intro Cons.IH) auto
    ultimately show ?thesis using m [of "CHR '',''"] Cons by (simp add: kv del: scan_run.simps)
  qed
qed simp

lemma encode_json_hd:
  "json_ok n v \<Longrightarrow> \<exists>c r. encode_json v = c # r \<and> \<not> is_json_space c \<and> c \<noteq> CHR '']''"
  by (cases v)
    (auto simp: is_json_space_def encode_string_def int_literal_def nat_literal_def byte_in_def split: list.splits)

lemma begin_or_empty:
  assumes "json_ok n v"
  shows "scan_run (BeginValueOrEmpty, stack) (encode_json v @ cs) = scan_run (BeginValue, stack) (encode_json v @ cs)"
  using encode_json_hd [OF assms] by (auto simp: scan_step_def)

lemma join_commas_hd: "vs \<noteq> [] \<Longrightarrow> \<exists>cs. join_commas (map f vs) = f (hd vs) @ cs"
  by (cases vs; cases "tl vs") auto

lemma scan_array:
  assumes "length stack < max_nesting_depth" and "\<And>v us. v \<in> set vs \<Longrightarrow> scans_in v (FrameArray us # stack)"
    and "list_all (json_ok m) vs"
  shows "scan_run (BeginValue, stack) (encode_json (JArray vs) @ rest) = close_run (JArray vs) stack rest"
proof -
  have start: "scan_run (BeginValue, stack) (CHR ''['' # cs) =
      scan_run (BeginValueOrEmpty, FrameArray [] # stack) cs" for cs
    using assms(1) by (simp add: scan_step_def begin_value_def is_json_space_def push_frame_def)
  show ?thesis
  proof (cases vs)
    case Nil
    then show ?thesis
      unfolding encode_json.simps append_Cons start
      by (simp add: scan_step_def end_value_def is_json_space_def close_frame_def close_run_def)
  next
    case (Cons v vs')
    then obtain cs where cs: "join_commas (map encode_json vs) = encode_json v @ cs"
      using join_commas_hd [of vs encode_json] by auto
    have v: "json_ok m v" using assms(3) Cons by simp
    have "scan_run (BeginValueOrEmpty, FrameArray [] # stack) (join_commas (map encode_json vs) @ CHR '']'' # rest)
      = scan_run (BeginValue, FrameArray [] # stack) (join_commas (map encode_json vs) @ CHR '']'' # rest)"
      unfolding cs append_assoc by (rule begin_or_empty [OF v])
    also have "\<dots> = close_run (JArray vs) stack rest"
      by (rule scan_elements [OF assms(2), where us = "[]" and rest = rest, simplified]) (simp_all add: Cons)
    finally show ?thesis
      unfolding encode_json.simps append_Cons start by simp
  qed
qed

lemma scan_object:
  assumes "length stack < max_nesting_depth"
    and "\<And>k v us. (k, v) \<in> set kvs \<Longrightarrow> utf8_valid k \<and> scans_in v (FrameObject us (Some k) # stack)"
  shows "scan_run (BeginValue, stack) (encode_json (JObject kvs) @ rest) = close_run (JObject kvs) stack rest"
proof -
  have start: "scan_run (BeginValue, stack) (CHR ''{'' # cs) =
      scan_run (BeginStringOrEmpty, FrameObject [] None # stack) cs" for cs
    using assms(1) by (simp add: scan_step_def begin_value_def is_json_space_def push_frame_def)
  show ?thesis
  proof (cases "kvs = []")
    case True
    then show ?thesis
      unfolding encode_json.simps append_Cons start
      by (simp add: scan_step_def end_value_def is_json_space_def close_frame_def close_run_def)
  next
    case False
    with scan_members [OF assms(2) False, where st = BeginStringOrEmpty and us = "[]" and rest = rest] show ?thesis
      unfolding encode_json.simps append_Cons start by simp
  qed
qed

text \<open>Every value that can be encoded is scanned back, inside any open container.\<close>

lemma scan_encoded:
  "json_ok n v \<Longrightarrow> n + length stack \<le> max_nesting_depth \<Longrightarrow> awaits_value stack \<Longrightarrow> scans_in v stack"
proof (induction v arbitrary: n stack)
  case (JNumber lit)
  then have "stack \<noteq> []" by (auto simp: awaits_value_def)
  with JNumber show ?case by (simp add: scans_in_def scan_int_literal del: scan_run.simps)
next
  case (JString s)
  then have "stack \<noteq> FrameObject kvs None # r" for kvs r by (auto simp: awaits_value_def)
  with JString show ?case
    by (simp add: scans_in_def scan_quoted string_done_value del: scan_run.simps)
next
  case (JArray vs)
  then obtain m where m: "n = Suc m" "list_all (json_ok m) vs" by (cases n) auto
  have ne: "stack \<noteq> []" using JArray.prems by (auto simp: awaits_value_def)
  have "scans_in v (FrameArray us # stack)" if "v \<in> set vs" for v us
    using JArray.IH [OF that, of m "FrameArray us # stack"] JArray.prems m that
    by (auto simp: list_all_iff awaits_value_def)
  from scan_array [OF _ this m(2)] JArray.prems m ne show ?case
    by (simp add: scans_in_def close_run_def del: scan_run.simps encode_json.simps)
next
  case (JObject kvs)
  then obtain m where m: "n = Suc m" "list_all (\<lambda>(k, v). utf8_valid k \<and> json_ok m v) kvs" by (cases n) auto
  have ne: "stack \<noteq> []" using JObject.prems by (auto simp: awaits_value_def)
  have "utf8_valid k \<and> scans_in v (FrameObject us (Some k) # stack)" if "(k, v) \<in> set kvs" for k v us
    using JObject.IH [OF that, of v m "FrameObject us (Some k) # stack"] JObject.prems m that
    by (auto simp: list_all_iff awaits_value_def)
  from scan_object [OF _ this] JObject.prems m ne show ?case
    by (simp add: scans_in_def close_run_def del: scan_run.simps encode_json.simps)
qed (simp_all add: scans_in_def scan_step_def begin_value_def is_json_space_def byte_in_def)

lemma scan_encoded_object:
  assumes "json_ok max_nesting_depth (JObject kvs)"
  shows "scan_value (encode_json (JObject kvs) @ rest) = Scanned (JObject kvs) rest"
proof -
  obtain m where m: "max_nesting_depth = Suc m" by (simp add: max_nesting_depth_def numeral_eq_Suc)
  have "list_all (\<lambda>(k, v). utf8_valid k \<and> json_ok m v) kvs" using assms by (simp add: m)
  then have "utf8_valid k \<and> scans_in v [FrameObject us (Some k)]" if "(k, v) \<in> set kvs" for k v us
    using scan_encoded [of m v "[FrameObject us (Some k)]"] m that
    by (auto simp: list_all_iff awaits_value_def)
  from scan_object [OF _ this, where rest = rest] show ?thesis
    by (simp add: scan_value_def close_run_def max_nesting_depth_def del: scan_run.simps encode_json.simps)
qed

subsection \<open>Requests as text\<close>

lemma nat_decimal_literal: "nat_literal (nat_decimal n)"
proof (induction n rule: nat_decimal.induct)
  case (1 n)
  show ?case
  proof (cases "n < 10")
    case True
    then have "n = 0 \<or> byte_in 49 57 (digit_char n)" by (auto simp: byte_in_def of_char_digit)
    then show ?thesis
      using True by (auto simp: nat_decimal.simps [of n] nat_literal_def digit_char_def char_of_eq_iff
          take_bit_eq_mod)
  next
    case False
    have "nat_decimal (n div 10) \<noteq> ''0''"
      using decimal_val_nat_decimal [of "n div 10"] False by (auto simp: decimal_val_def digit_val_def)
    with "1.IH" [OF False] obtain d r where d: "nat_decimal (n div 10) = d # r" "byte_in 49 57 d" "list_all is_digit r"
      by (cases "nat_decimal (n div 10)") (auto simp: nat_literal_def)
    moreover have "list_all is_digit [digit_char (n mod 10)]"
      by (simp add: is_digit_def byte_in_def of_char_digit)
    ultimately show ?thesis
      using False by (simp add: nat_decimal.simps [of n] nat_literal_def)
  qed
qed

lemma FormatInt_literal: "int_literal (FormatInt i)"
  using nat_decimal_literal by (simp add: FormatInt_def int_literal_def)

lemma field_names_utf8:
  "list_all utf8_valid [''from_account_id'', ''to_account_id'', ''amount'', ''currency'', ''description'']"
  by code_simp

lemma marshal_json_ok: "request_utf8 r \<Longrightarrow> json_ok (Suc n) (JObject (marshal_create_transfer r))"
  using FormatInt_literal field_names_utf8
  by (simp add: marshal_create_transfer_def request_utf8_def to_valid_utf8_id)

end
