(* ===== verification/Http_Base.thy ===== *)
theory Http_Base
  imports Auth_Token Json_Text
begin

text \<open>
  What the handlers use of \<^verbatim>\<open>net/http\<close> and \<^verbatim>\<open>mime\<close>, and \<^verbatim>\<open>internal/httpapi/respond.go\<close>:
  requests with their context values, the response writer (also when it is wrapped in the
  status recorder of \<^verbatim>\<open>middleware.go\<close>), \<open>writeJSON\<close>, \<open>writeError\<close> and \<open>decodeJSON\<close>, which reads a
  body byte by byte.
\<close>

subsection \<open>Media types\<close>

text \<open>
  \<^verbatim>\<open>mime.ParseMediaType\<close>. \<open>to_lower\<close> is \<^verbatim>\<open>strings.ToLower\<close> as far as it matters here: the two
  letters outside ASCII whose lower case is an ASCII letter are mapped, other bytes outside
  ASCII stay and are refused by the token check that follows.
\<close>

fun to_lower :: "string \<Rightarrow> string" where
  "to_lower [] = []"
| "to_lower (c # cs) =
     (if c = CHR 0xC4 \<and> take 1 cs = [CHR 0xB0] then CHR ''i'' # to_lower (drop 1 cs)
      else if c = CHR 0xE2 \<and> take 2 cs = [CHR 0x84, CHR 0xAA] then CHR ''k'' # to_lower (drop 2 cs)
      else (if byte_in 0x41 0x5A c then char_of (of_char c + 32 :: nat) else c) # to_lower cs)"

definition is_tspecial :: "char \<Rightarrow> bool" where
  "is_tspecial c \<longleftrightarrow> c \<in> set (''()<>@,;:/[]?='' @ [CHR 0x22, CHR 0x5C])"

definition is_token_char :: "char \<Rightarrow> bool" where
  "is_token_char c \<longleftrightarrow> byte_in 0x21 0x7E c \<and> \<not> is_tspecial c"

definition consume_token :: "string \<Rightarrow> string \<times> string" where
  "consume_token v = (takeWhile is_token_char v, dropWhile is_token_char v)"

text \<open>The text after an opening quote up to the closing one.\<close>

fun consume_quoted :: "string \<Rightarrow> (string \<times> string) option" where
  "consume_quoted [] = None"
| "consume_quoted (c # cs) =
     (if c = CHR 0x22 then Some ([], cs)
      else case cs of
        d # ds \<Rightarrow>
          if c = CHR 0x5C \<and> is_tspecial d
          then map_option (\<lambda>(b, r). (d # b, r)) (consume_quoted ds)
          else if c = CHR 0x0D \<or> c = CHR 0x0A then None
          else map_option (\<lambda>(b, r). (c # b, r)) (consume_quoted cs)
      | [] \<Rightarrow> None)"

definition consume_value :: "string \<Rightarrow> string \<times> string" where
  "consume_value v =
     (case v of
        [] \<Rightarrow> ([], [])
      | c # cs \<Rightarrow>
          if c \<noteq> CHR 0x22 then consume_token v
          else (case consume_quoted cs of Some x \<Rightarrow> x | None \<Rightarrow> ([], v)))"

definition trim_left :: "string \<Rightarrow> string" where
  "trim_left = trim_prefixes unicode_spaces"

definition consume_media_param :: "string \<Rightarrow> (string \<times> string \<times> string) option" where
  "consume_media_param v =
     (case trim_left v of
        c # rest \<Rightarrow>
          if c \<noteq> CHR '';'' then None
          else let (param, rest) = consume_token (trim_left rest) in
            if param = [] then None
            else (case trim_left rest of
                e # rest \<Rightarrow>
                  if e \<noteq> CHR ''='' then None
                  else let rest = trim_left rest; (value, rest2) = consume_value rest in
                    if value = [] \<and> rest2 = rest then None else Some (to_lower param, value, rest2)
              | [] \<Rightarrow> None)
      | [] \<Rightarrow> None)"

lemma trim_prefixes_length: "length (trim_prefixes ps s) \<le> length s"
proof (induction ps s rule: trim_prefixes.induct)
  case (1 ps s)
  show ?case
  proof (cases "List.find (\<lambda>p. p \<noteq> [] \<and> prefix p s) ps")
    case None
    then show ?thesis by (simp add: trim_prefixes.simps)
  next
    case (Some p)
    with "1.IH" [OF Some] show ?thesis by (simp add: trim_prefixes.simps [of ps s])
  qed
qed

lemma consume_quoted_length: "consume_quoted s = Some (b, r) \<Longrightarrow> length r < length s"
proof (induction s arbitrary: b r rule: consume_quoted.induct)
  case (2 c cs)
  show ?case
  proof (cases "c = CHR 0x22 \<or> cs = []")
    case True
    with "2.prems" show ?thesis by (auto split: if_splits)
  next
    case False
    then obtain d ds where cs: "cs = d # ds" and c: "c \<noteq> CHR 0x22" by (cases cs) auto
    show ?thesis
    proof (cases "c = CHR 0x5C \<and> is_tspecial d")
      case True
      with "2.prems" cs c obtain b' where "consume_quoted ds = Some (b', r)" by auto
      with "2.IH"(1) [OF c cs True] cs show ?thesis by fastforce
    next
      case False
      with "2.prems" cs c have nl: "\<not> (c = CHR 0x0D \<or> c = CHR 0x0A)"
        and "\<exists>b'. consume_quoted cs = Some (b', r)" by (auto split: if_splits)
      with "2.IH"(2) [OF c cs False nl] cs show ?thesis by fastforce
    qed
  qed
qed simp

lemma consume_token_length: "length (snd (consume_token v)) \<le> length v"
  by (simp add: consume_token_def length_dropWhile_le)

lemma consume_value_length: "length (snd (consume_value v)) \<le> length v"
proof (cases v)
  case (Cons c cs)
  show ?thesis
  proof (cases "c = CHR 0x22")
    case True
    then show ?thesis
      using Cons consume_quoted_length [of cs]
      by (cases "consume_quoted cs") (fastforce simp: consume_value_def)+
  next
    case False
    then show ?thesis using Cons consume_token_length [of v] by (simp add: consume_value_def)
  qed
qed (simp add: consume_value_def)

lemma consume_media_param_length:
  assumes "consume_media_param v = Some (k, x, rest)"
  shows "length rest < length v"
proof -
  from assms obtain c r where c: "trim_left v = c # r"
    by (cases "trim_left v") (simp_all add: consume_media_param_def)
  obtain e r2 where e: "trim_left (dropWhile is_token_char (trim_left r)) = e # r2"
    using assms c
    by (cases "trim_left (dropWhile is_token_char (trim_left r))")
      (auto simp: consume_media_param_def consume_token_def split: if_splits)
  have "rest = snd (consume_value (trim_left r2))"
    using assms c e by (auto simp: consume_media_param_def consume_token_def Let_def split: if_splits prod.splits)
  then have "length rest \<le> length (trim_left r2)"
    using consume_value_length by simp
  also have "\<dots> \<le> length r2" by (simp add: trim_left_def trim_prefixes_length)
  also have "\<dots> < length (dropWhile is_token_char (trim_left r))"
    using trim_prefixes_length [of unicode_spaces "dropWhile is_token_char (trim_left r)"] e
    by (simp add: trim_left_def)
  also have "\<dots> \<le> length r"
    using length_dropWhile_le [of is_token_char "trim_left r"] trim_prefixes_length [of unicode_spaces r]
    by (simp add: trim_left_def)
  also have "\<dots> < length v"
    using trim_prefixes_length [of unicode_spaces v] c by (simp add: trim_left_def)
  finally show ?thesis .
qed

text \<open>The parameters: each well formed, and a repeated name only with the same value.\<close>

function media_params_ok :: "(string \<times> string) list \<Rightarrow> string \<Rightarrow> bool" where
  "media_params_ok seen v =
     (if trim_left v = [] then True
      else case consume_media_param (trim_left v) of
        None \<Rightarrow> TrimSpace (trim_left v) = '';''
      | Some (key, x, rest) \<Rightarrow>
          (case map_of seen key of
             Some x' \<Rightarrow> if x' \<noteq> x then False else media_params_ok seen rest
           | None \<Rightarrow> media_params_ok ((key, x) # seen) rest))"
  by pat_completeness auto
termination
proof (relation "measure (\<lambda>(seen, v). length v)")
  fix seen v a key b x rest x'
  assume "consume_media_param (trim_left v) = Some a" "(key, b) = a" "(x, rest) = b"
  then have "length rest < length (trim_left v)" using consume_media_param_length by metis
  then have "length rest < length v"
    using trim_prefixes_length [of unicode_spaces v] by (simp add: trim_left_def)
  then show "((seen, rest), seen, v) \<in> measure (\<lambda>(seen, v). length v)"
    and "(((key, x) # seen, rest), seen, v) \<in> measure (\<lambda>(seen, v). length v)" by simp_all
qed simp

declare media_params_ok.simps [simp del]

definition check_media_type :: "string \<Rightarrow> bool" where
  "check_media_type s =
     (let (typ, rest) = consume_token s in
      typ \<noteq> [] \<and>
      (rest = [] \<or>
       (hd rest = CHR ''/'' \<and> (let (subtype, rest2) = consume_token (tl rest) in subtype \<noteq> [] \<and> rest2 = []))))"

definition ParseMediaType :: "string \<Rightarrow> string option" where
  "ParseMediaType v =
     (let base = takeWhile (\<lambda>c. c \<noteq> CHR '';'') v;
          mediatype = TrimSpace (to_lower base)
      in if check_media_type mediatype \<and> media_params_ok [] (drop (length base) v)
         then Some mediatype else None)"

text \<open>\<^verbatim>\<open>strings.Join\<close> with the separator first.\<close>

fun join_with :: "string \<Rightarrow> string list \<Rightarrow> string" where
  "join_with sep [] = []"
| "join_with sep [s] = s"
| "join_with sep (s # t # ts) = s @ sep @ join_with sep (t # ts)"

subsection \<open>Requests\<close>

text \<open>
  Header names are canonical. \<open>rq_path\<close> is the cleaned path cut at the slashes and decoded,
  with an empty last segment for a trailing slash. The body is the bytes the client sends and
  whether the connection breaks after them. The last fields are the values that the
  middleware puts into the request's context, and the wildcard the router has matched.
\<close>

record http_request =
  rq_method :: string
  rq_path :: "string list"
  rq_headers :: "string \<Rightarrow> string list"
  rq_body :: string
  rq_broken :: bool
  rq_claims :: "claims option"
  rq_request_id :: "string option"
  rq_deadline :: "time option"
  rq_path_id :: string

definition header_Get :: "http_request \<Rightarrow> string \<Rightarrow> string" where
  "header_Get r name = (case rq_headers r name of [] \<Rightarrow> '''' | v # _ \<Rightarrow> v)"

definition ClaimsFromContext :: "http_request \<Rightarrow> claims option" where
  "ClaimsFromContext r = rq_claims r"

definition requestIDFrom :: "http_request \<Rightarrow> string" where
  "requestIDFrom r = (case rq_request_id r of None \<Rightarrow> '''' | Some i \<Rightarrow> i)"

subsection \<open>Responses\<close>

text \<open>What a handler writes: a Go value that is encoded as JSON, or text.\<close>

datatype response_body =
    JsonError string
  | JsonStatus string
  | JsonTransfer transfer
  | JsonAccount account
  | JsonAccounts "account list"
  | JsonLogin string string int
  | JsonMe string "permission list"
  | TextBody string

text \<open>
  The response writer of a connection: the header map, what has been sent, and the body. A
  status recorder, when one is wrapped around it, sees every call first. \<open>sr_duration\<close> is the
  text it puts into \<^verbatim>\<open>Server-Timing\<close>.
\<close>

record status_recorder =
  sr_duration :: string
  sr_status :: nat
  sr_wroteHeader :: bool

record response_writer =
  rw_header :: "string \<rightharpoonup> string"
  rw_status :: "nat option"
  rw_sent :: "string \<rightharpoonup> string"
  rw_body :: "response_body list"
  rw_recorder :: "status_recorder option"

definition new_writer :: response_writer where
  "new_writer =
     \<lparr>rw_header = Map.empty, rw_status = None, rw_sent = Map.empty, rw_body = [], rw_recorder = None\<rparr>"

definition header_Set :: "string \<Rightarrow> string \<Rightarrow> response_writer \<Rightarrow> response_writer" where
  "header_Set name value w = w\<lparr>rw_header := (rw_header w)(name \<mapsto> value)\<rparr>"

text \<open>The connection's own \<^verbatim>\<open>WriteHeader\<close>: only the first call counts.\<close>

definition conn_WriteHeader :: "nat \<Rightarrow> response_writer \<Rightarrow> response_writer" where
  "conn_WriteHeader status w =
     (case rw_status w of
        Some _ \<Rightarrow> w
      | None \<Rightarrow> w\<lparr>rw_status := Some status, rw_sent := rw_header w\<rparr>)"

definition conn_Write :: "response_body \<Rightarrow> response_writer \<Rightarrow> response_writer" where
  "conn_Write b w = (let w = conn_WriteHeader 200 w in w\<lparr>rw_body := rw_body w @ [b]\<rparr>)"

text \<open>\<^verbatim>\<open>statusRecorder.WriteHeader\<close> and \<^verbatim>\<open>statusRecorder.Write\<close> of \<^verbatim>\<open>middleware.go\<close>.\<close>

definition recorder_WriteHeader :: "nat \<Rightarrow> status_recorder \<Rightarrow> response_writer \<Rightarrow> response_writer" where
  "recorder_WriteHeader status rec w =
     (let w = (if \<not> sr_wroteHeader rec
               then header_Set ''Server-Timing'' (sr_duration rec)
                 (w\<lparr>rw_recorder := Some (rec\<lparr>sr_wroteHeader := True, sr_status := status\<rparr>)\<rparr>)
               else w)
      in conn_WriteHeader status w)"

definition recorder_Write :: "response_body \<Rightarrow> status_recorder \<Rightarrow> response_writer \<Rightarrow> response_writer" where
  "recorder_Write b rec w =
     conn_Write b (if \<not> sr_wroteHeader rec then recorder_WriteHeader 200 rec w else w)"

definition WriteHeader :: "nat \<Rightarrow> response_writer \<Rightarrow> response_writer" where
  "WriteHeader status w =
     (case rw_recorder w of
        None \<Rightarrow> conn_WriteHeader status w
      | Some rec \<Rightarrow> recorder_WriteHeader status rec w)"

definition Write :: "response_body \<Rightarrow> response_writer \<Rightarrow> response_writer" where
  "Write b w =
     (case rw_recorder w of None \<Rightarrow> conn_Write b w | Some rec \<Rightarrow> recorder_Write b rec w)"

definition writeJSON :: "nat \<Rightarrow> response_body \<Rightarrow> response_writer \<Rightarrow> response_writer" where
  "writeJSON status body w =
     Write body (WriteHeader status (header_Set ''Content-Type'' ''application/json'' w))"

definition writeError :: "nat \<Rightarrow> string \<Rightarrow> response_writer \<Rightarrow> response_writer" where
  "writeError status message w = writeJSON status (JsonError message) w"

subsection \<open>Reading the body\<close>

definition maxBodyBytes :: nat where
  "maxBodyBytes = 65536"

text \<open>
  How the stream of body bytes ends for the decoder: \<^verbatim>\<open>http.MaxBytesReader\<close> lets the first
  \<open>maxBodyBytes\<close> bytes through and then fails with \<^verbatim>\<open>http.MaxBytesError\<close>.
\<close>

datatype stream_end = StreamEOF | StreamTooLarge | StreamBroken

definition limited_body :: "http_request \<Rightarrow> string \<times> stream_end" where
  "limited_body r =
     (if length (rq_body r) > maxBodyBytes then (take maxBodyBytes (rq_body r), StreamTooLarge)
      else (rq_body r, if rq_broken r then StreamBroken else StreamEOF))"

datatype decode_error = DecodeEOF | DecodeTooLarge | DecodeFailed

text \<open>
  \<^verbatim>\<open>Decoder.Decode\<close> reads one value from the stream. At the end of the input a space is
  fed to the scanner, which completes a number.
\<close>

definition decode_next :: "string \<Rightarrow> stream_end \<Rightarrow> decode_error + (json \<times> string)" where
  "decode_next data ending =
     (case scan_value (if ending = StreamEOF then data @ '' '' else data) of
        Scanned v rest \<Rightarrow> Inr (v, rest)
      | SyntaxError \<Rightarrow> Inl DecodeFailed
      | NeedMore \<Rightarrow>
          (case ending of
             StreamTooLarge \<Rightarrow> Inl DecodeTooLarge
           | StreamBroken \<Rightarrow> Inl DecodeFailed
           | StreamEOF \<Rightarrow> if list_all is_json_space data then Inl DecodeEOF else Inl DecodeFailed))"

text \<open>
  A value is decoded into a pointer to a struct with known fields only: \<open>None\<close> is the nil
  pointer that \<^verbatim>\<open>null\<close> leaves.
\<close>

definition decode_pointer :: "(string \<times> 'a setter) list \<Rightarrow> 'a \<Rightarrow> json \<Rightarrow> decode_error + 'a option" where
  "decode_pointer fs zero v =
     (case v of
        JNull \<Rightarrow> Inr None
      | JObject kvs \<Rightarrow>
          (case decode_members True fs kvs zero None of Inl _ \<Rightarrow> Inl DecodeFailed | Inr x \<Rightarrow> Inr (Some x))
      | _ \<Rightarrow> Inl DecodeFailed)"

definition writeBodyError :: "decode_error option \<Rightarrow> response_writer \<Rightarrow> response_writer" where
  "writeBodyError err w =
     (if err = Some DecodeTooLarge then writeError 413 ''request body too large'' w
      else writeError 400 ''invalid JSON request'' w)"

definition decodeJSON ::
  "(string \<times> 'a setter) list \<Rightarrow> 'a \<Rightarrow> http_request \<Rightarrow> response_writer \<Rightarrow> response_writer + 'a" where
  "decodeJSON fs zero r w =
     (if ParseMediaType (header_Get r ''Content-Type'') \<noteq> Some ''application/json''
      then Inl (writeError 415 ''Content-Type must be application/json'' w)
      else case limited_body r of (data, ending) \<Rightarrow>
        (case decode_next data ending of
           Inl e \<Rightarrow> Inl (writeBodyError (Some e) w)
         | Inr (v, rest) \<Rightarrow>
             (case decode_pointer fs zero v of
                Inl e \<Rightarrow> Inl (writeBodyError (Some e) w)
              | Inr None \<Rightarrow> Inl (writeError 400 ''request must be a JSON object'' w)
              | Inr (Some value) \<Rightarrow>
                  (case decode_next rest ending of
                     Inl DecodeEOF \<Rightarrow> Inr value
                   | Inl e \<Rightarrow> Inl (writeBodyError (Some e) w)
                   | Inr _ \<Rightarrow> Inl (writeBodyError None w)))))"

text \<open>The handlers of the program and what they leave behind.\<close>

datatype log_level = LevelDebug | LevelInfo | LevelError

datatype log_entry =
    AccessLog log_level string string "string list" string nat
  | ErrorLog string string
  | PanicLog string

datatype go_panic = NilDereference | AbortHandler | OtherPanic

record 's world =
  wd_store :: 's
  wd_writer :: response_writer
  wd_log :: "log_entry list"

type_synonym 's handler = "http_request \<Rightarrow> 's world \<Rightarrow> 's world \<times> go_panic option"

abbreviation respond :: "(response_writer \<Rightarrow> response_writer) \<Rightarrow> 's world \<Rightarrow> 's world" where
  "respond f wd \<equiv> wd\<lparr>wd_writer := f (wd_writer wd)\<rparr>"

definition log_error :: "string \<Rightarrow> http_request \<Rightarrow> 's world \<Rightarrow> 's world" where
  "log_error message r wd = wd\<lparr>wd_log := wd_log wd @ [ErrorLog message (requestIDFrom r)]\<rparr>"

end
