(* ===== verification/Auth_Middleware.thy ===== *)
theory Auth_Middleware
  imports Http_Base
begin

text \<open>
  \<^verbatim>\<open>internal/service/auth/middleware.go\<close>: \<open>Authenticate\<close> and \<open>RequirePermission\<close> around a
  handler. The lemmas say which requests reach the wrapped handler and that the others are
  answered without touching the store.
\<close>

subsection \<open>Strings\<close>

definition space_at :: "string \<Rightarrow> nat option" where
  "space_at s = map_option length (List.find (\<lambda>p. prefix p s) unicode_spaces)"

text \<open>\<^verbatim>\<open>strings.Fields\<close>: the words between runs of white space; \<open>skip\<close> counts the remaining
  bytes of a space that is being skipped.\<close>

fun fields_run :: "nat \<Rightarrow> string \<Rightarrow> string \<Rightarrow> string list" where
  "fields_run skip word [] = (if word = [] then [] else [rev word])"
| "fields_run (Suc skip) word (c # cs) = fields_run skip word cs"
| "fields_run 0 word (c # cs) =
     (case space_at (c # cs) of
        Some n \<Rightarrow> (if word = [] then [] else [rev word]) @ fields_run (n - 1) [] cs
      | None \<Rightarrow> fields_run 0 (c # word) cs)"

definition strings_Fields :: "string \<Rightarrow> string list" where
  "strings_Fields s = fields_run 0 [] s"

text \<open>\<^verbatim>\<open>strings.EqualFold\<close> under the folding of \<open>fold_name\<close>, one side being ASCII.\<close>

definition strings_EqualFold :: "string \<Rightarrow> string \<Rightarrow> bool" where
  "strings_EqualFold s t \<longleftrightarrow> fold_name s = fold_name t"

subsection \<open>Middleware\<close>

definition error_text :: "string \<Rightarrow> string" where
  "error_text m =
     ''{'' @ [CHR 0x22] @ ''error'' @ [CHR 0x22] @ '':'' @ [CHR 0x22] @ m @ [CHR 0x22] @ ''}'' @ [CHR 0x0A]"

definition unauthorized :: "response_writer \<Rightarrow> response_writer" where
  "unauthorized w =
     Write (TextBody (error_text ''unauthorized'')) (WriteHeader 401
       (header_Set ''Content-Type'' ''application/json''
         (header_Set ''WWW-Authenticate'' ''Bearer'' w)))"

definition Authenticate :: "(string \<Rightarrow> go_error + claims) \<Rightarrow> 's handler \<Rightarrow> 's handler" where
  "Authenticate verify next r wd =
     (let headers = rq_headers r ''Authorization'' in
      if length headers \<noteq> 1 then (respond unauthorized wd, None)
      else let parts = strings_Fields (headers ! 0) in
        if length parts \<noteq> 2 \<or> \<not> strings_EqualFold (parts ! 0) ''Bearer''
        then (respond unauthorized wd, None)
        else case verify (parts ! 1) of
          Inl _ \<Rightarrow> (respond unauthorized wd, None)
        | Inr claims \<Rightarrow> next (r\<lparr>rq_claims := Some claims\<rparr>) wd)"

definition forbidden :: "response_writer \<Rightarrow> response_writer" where
  "forbidden w =
     Write (TextBody (error_text ''forbidden'')) (WriteHeader 403
       (header_Set ''Content-Type'' ''application/json'' w))"

definition RequirePermission :: "permission \<Rightarrow> 's handler \<Rightarrow> 's handler" where
  "RequirePermission permission next r wd =
     (case ClaimsFromContext r of
        None \<Rightarrow> (respond unauthorized wd, None)
      | Some claims \<Rightarrow>
          if \<not> HasPermission claims permission then (respond forbidden wd, None)
          else next r wd)"

subsection \<open>Who gets through\<close>

text \<open>The token of a request that \<open>Authenticate\<close> looks at, if the header has the right shape.\<close>

definition bearer_token :: "http_request \<Rightarrow> string option" where
  "bearer_token r =
     (case rq_headers r ''Authorization'' of
        [h] \<Rightarrow> (case strings_Fields h of
            [scheme, raw] \<Rightarrow> if strings_EqualFold scheme ''Bearer'' then Some raw else None
          | _ \<Rightarrow> None)
      | _ \<Rightarrow> None)"

definition authenticated :: "(string \<Rightarrow> go_error + claims) \<Rightarrow> http_request \<Rightarrow> claims option" where
  "authenticated verify r =
     (case bearer_token r of
        None \<Rightarrow> None
      | Some raw \<Rightarrow> (case verify raw of Inl _ \<Rightarrow> None | Inr c \<Rightarrow> Some c))"

lemma length_2: "length xs = 2 \<longleftrightarrow> (\<exists>a b. xs = [a, b])"
  by (auto simp: numeral_2_eq_2 length_Suc_conv)

lemma Authenticate_cases:
  "Authenticate verify next r wd =
     (case authenticated verify r of
        None \<Rightarrow> (respond unauthorized wd, None)
      | Some c \<Rightarrow> next (r\<lparr>rq_claims := Some c\<rparr>) wd)"
proof (cases "\<exists>h scheme raw. rq_headers r ''Authorization'' = [h] \<and> strings_Fields h = [scheme, raw]")
  case True
  then show ?thesis
    by (auto simp: Authenticate_def authenticated_def bearer_token_def Let_def split: sum.split)
next
  case False
  have "bearer_token r = None"
    using False by (auto simp: bearer_token_def split: list.splits)
  moreover have "length (rq_headers r ''Authorization'') \<noteq> 1 \<or>
      length (strings_Fields (rq_headers r ''Authorization'' ! 0)) \<noteq> 2"
    using False by (auto simp: length_2 length_Suc_conv)
  ultimately show ?thesis
    by (auto simp: Authenticate_def authenticated_def Let_def)
qed

lemma RequirePermission_cases:
  "RequirePermission p next r wd =
     (case rq_claims r of
        None \<Rightarrow> (respond unauthorized wd, None)
      | Some c \<Rightarrow> if HasPermission c p then next r wd else (respond forbidden wd, None))"
  by (simp add: RequirePermission_def ClaimsFromContext_def split: option.split)

text \<open>The two together, as every protected route uses them.\<close>

lemma protected_cases:
  "Authenticate verify (RequirePermission p next) r wd =
     (case authenticated verify r of
        None \<Rightarrow> (respond unauthorized wd, None)
      | Some c \<Rightarrow>
          if HasPermission c p then next (r\<lparr>rq_claims := Some c\<rparr>) wd else (respond forbidden wd, None))"
  by (simp add: Authenticate_cases RequirePermission_cases split: option.split)

end
