(* ===== verification/Http_Handlers.thy ===== *)
theory Http_Handlers
  imports Auth_Middleware
begin

text \<open>
  \<^verbatim>\<open>internal/httpapi/transfer.go\<close>, \<^verbatim>\<open>account.go\<close>, \<^verbatim>\<open>login.go\<close> and the handlers of
  \<^verbatim>\<open>routes.go\<close> and \<^verbatim>\<open>docs.go\<close>, each over the service methods it calls. Status codes are those
  of \<^verbatim>\<open>net/http\<close>. Dereferencing the nil claims of an unauthenticated request is a panic.
\<close>

subsection \<open>Transfers\<close>

text \<open>
  \<^verbatim>\<open>transferStatusCode\<close>: a failed transfer answers 422 every time, a completed one 201 first
  and 200 on replays.
\<close>

definition transferStatusCode :: "transfer \<Rightarrow> bool \<Rightarrow> nat" where
  "transferStatusCode t created =
     (if tr_status t = TransferStatusFailed then 422 else if created then 201 else 200)"

text \<open>The \<^verbatim>\<open>switch\<close> over the result of \<^verbatim>\<open>service.Create\<close>.\<close>

definition create_response ::
  "go_error + (transfer \<times> bool) \<Rightarrow> http_request \<Rightarrow> 's world \<Rightarrow> 's world" where
  "create_response res r wd =
     (case res of
        Inl err \<Rightarrow>
          if errors_Is err ErrForbidden then respond (writeError 403 ''forbidden'') wd
          else if errors_Is err ErrInvalidTransfer
          then respond (writeError 400 ''invalid transfer request'') wd
          else if errors_Is err ErrIdempotencyConflict
          then respond (writeError 409 ''idempotency key already used with a different request'') wd
          else if errors_Is err ErrDestinationNotFound
          then respond (writeError 422 ''destination account not found'') wd
          else if errors_Is err ErrCurrencyMismatch
          then respond (writeError 422 ''currency does not match the accounts'') wd
          else if errors_Is err ErrBalanceOverflow
          then respond (writeError 422 ''destination balance limit reached'') wd
          else respond (writeError 500 ''could not create transfer'')
            (log_error ''create transfer failed'' r wd)
      | Inr (result, created) \<Rightarrow>
          respond (writeJSON (transferStatusCode result created) (JsonTransfer result))
            (if \<not> created then respond (header_Set ''Idempotent-Replayed'' ''true'') wd else wd))"

definition createTransfer ::
  "(string \<Rightarrow> uuid option) \<Rightarrow>
   ('s \<Rightarrow> string \<Rightarrow> string \<Rightarrow> create_transfer \<Rightarrow> 's \<times> (go_error + (transfer \<times> bool))) \<Rightarrow> 's handler" where
  "createTransfer uuid_Scan service_Create r wd0 =
     (let wd = respond (header_Set ''Cache-Control'' ''no-store'') wd0 in
      case ClaimsFromContext r of
        None \<Rightarrow> (respond (writeError 401 ''unauthorized'') wd, None)
      | Some claims \<Rightarrow>
      let keys = rq_headers r ''Idempotency-Key'' in
      if length keys \<noteq> 1
      then (respond (writeError 400 ''a single Idempotency-Key header is required'') wd, None)
      else let key = TrimSpace (keys ! 0) in
      if (case uuid_Scan key of None \<Rightarrow> True | Some u \<Rightarrow> u = 0)
      then (respond (writeError 400 ''Idempotency-Key must be a nonzero UUID'') wd, None)
      else case decodeJSON create_transfer_fields zero_create_transfer r (wd_writer wd) of
        Inl w \<Rightarrow> (wd\<lparr>wd_writer := w\<rparr>, None)
      | Inr request \<Rightarrow>
          (case service_Create (wd_store wd) (cl_subject claims) key request of
             (s, res) \<Rightarrow> (create_response res r (wd\<lparr>wd_store := s\<rparr>), None)))"

definition getTransfer :: "('s \<Rightarrow> string \<Rightarrow> string \<Rightarrow> go_error + transfer) \<Rightarrow> 's handler" where
  "getTransfer service_Get r wd =
     (case ClaimsFromContext r of
        None \<Rightarrow> (wd, Some NilDereference)
      | Some claims \<Rightarrow>
          (case service_Get (wd_store wd) (cl_subject claims) (rq_path_id r) of
             Inl err \<Rightarrow>
               if errors_Is err ErrTransferNotFound
               then (respond (writeError 404 ''transfer not found'') wd, None)
               else (respond (writeError 500 ''could not load transfer'')
                 (log_error ''get transfer failed'' r wd), None)
           | Inr result \<Rightarrow>
               (respond (writeJSON 200 (JsonTransfer result))
                 (respond (header_Set ''Cache-Control'' ''no-store'') wd), None)))"

subsection \<open>Accounts\<close>

definition listAccounts :: "('s \<Rightarrow> string \<Rightarrow> go_error + account list) \<Rightarrow> 's handler" where
  "listAccounts service_List r wd =
     (case ClaimsFromContext r of
        None \<Rightarrow> (wd, Some NilDereference)
      | Some claims \<Rightarrow>
          (case service_List (wd_store wd) (cl_subject claims) of
             Inl err \<Rightarrow>
               (respond (writeError 500 ''could not load accounts'')
                 (log_error ''list accounts failed'' r wd), None)
           | Inr accounts \<Rightarrow>
               (respond (writeJSON 200 (JsonAccounts accounts))
                 (respond (header_Set ''Cache-Control'' ''no-store'') wd), None)))"

definition getAccount :: "('s \<Rightarrow> string \<Rightarrow> string \<Rightarrow> go_error + account) \<Rightarrow> 's handler" where
  "getAccount service_Get r wd =
     (case ClaimsFromContext r of
        None \<Rightarrow> (wd, Some NilDereference)
      | Some claims \<Rightarrow>
          (case service_Get (wd_store wd) (cl_subject claims) (rq_path_id r) of
             Inl err \<Rightarrow>
               if errors_Is err ErrAccountNotFound
               then (respond (writeError 404 ''account not found'') wd, None)
               else (respond (writeError 500 ''could not load account'')
                 (log_error ''get account failed'' r wd), None)
           | Inr result \<Rightarrow>
               (respond (writeJSON 200 (JsonAccount result))
                 (respond (header_Set ''Cache-Control'' ''no-store'') wd), None)))"

subsection \<open>Login\<close>

record login_request =
  lr_email :: string
  lr_password :: string

definition login_request_fields :: "(string \<times> login_request setter) list" where
  "login_request_fields =
     [(''email'', string_field (\<lambda>s. lr_email_update (\<lambda>_. s))),
      (''password'', string_field (\<lambda>s. lr_password_update (\<lambda>_. s)))]"

definition login :: "('s \<Rightarrow> string \<Rightarrow> string \<Rightarrow> go_error + string) \<Rightarrow> 's handler" where
  "login service_Login r wd0 =
     (let wd = respond (header_Set ''Cache-Control'' ''no-store'') wd0 in
      case decodeJSON login_request_fields \<lparr>lr_email = '''', lr_password = ''''\<rparr> r (wd_writer wd) of
        Inl w \<Rightarrow> (wd\<lparr>wd_writer := w\<rparr>, None)
      | Inr request \<Rightarrow>
          (case service_Login (wd_store wd) (lr_email request) (lr_password request) of
             Inl err \<Rightarrow>
               if errors_Is err ErrInvalidCredentials
               then (respond (writeError 401 ''invalid email or password'') wd, None)
               else (respond (writeError 500 ''could not log in'') (log_error ''login failed'' r wd), None)
           | Inr token \<Rightarrow>
               (respond (writeJSON 200 (JsonLogin token ''Bearer'' (AccessTokenTTL div time_Second))) wd, None)))"

subsection \<open>Service endpoints\<close>

definition health :: "'s handler" where
  "health r wd = (respond (writeJSON 200 (JsonStatus ''ok'')) wd, None)"

text \<open>\<open>check\<close> is nil, or pings the database and may fail.\<close>

definition ready :: "('s \<Rightarrow> go_error option) option \<Rightarrow> 's handler" where
  "ready check r wd =
     (case check of
        Some ping \<Rightarrow>
          (case ping (wd_store wd) of
             Some err \<Rightarrow> (respond (writeError 503 ''database unavailable'') wd, None)
           | None \<Rightarrow> (respond (writeJSON 200 (JsonStatus ''ready'')) wd, None))
      | None \<Rightarrow> (respond (writeJSON 200 (JsonStatus ''ready'')) wd, None))"

definition me :: "'s handler" where
  "me r wd =
     (case ClaimsFromContext r of
        None \<Rightarrow> (respond (writeError 401 ''unauthorized'') wd, None)
      | Some claims \<Rightarrow>
          (respond (writeJSON 200 (JsonMe (cl_subject claims) (cl_permissions claims)))
            (respond (header_Set ''Cache-Control'' ''no-store'') wd), None))"

text \<open>The OpenAPI document is embedded at build time and is an argument.\<close>

definition openAPISpec :: "string \<Rightarrow> 's handler" where
  "openAPISpec spec r wd =
     (respond (\<lambda>w. Write (TextBody spec) (header_Set ''Content-Type'' ''application/yaml'' w)) wd, None)"

text \<open>The page is one raw string literal; its lines are joined by newlines.\<close>

definition swaggerPage :: string where
  \<open>swaggerPage =
     join_with [CHR 0x0A]
     [''<!doctype html>'',
      ''<html lang="en">'',
      ''<head>'',
      ''  <meta charset="utf-8">'',
      ''  <title>BankMonitoring API</title>'',
      ''  <link rel="stylesheet" href="https://cdn.jsdelivr.net/npm/swagger-ui-dist@5/swagger-ui.css">'',
      ''</head>'',
      ''<body>'',
      ''  <div id="swagger-ui"></div>'',
      ''  <script src="https://cdn.jsdelivr.net/npm/swagger-ui-dist@5/swagger-ui-bundle.js"></script>'',
      ''  <script>'',
      ''    window.ui = SwaggerUIBundle({ url: "/openapi.yaml", dom_id: "#swagger-ui", persistAuthorization: true });'',
      ''  </script>'',
      ''</body>'',
      ''</html>'']\<close>

definition swaggerUI :: "'s handler" where
  "swaggerUI r wd =
     (respond (\<lambda>w. Write (TextBody swaggerPage) (header_Set ''Content-Type'' ''text/html; charset=utf-8'' w)) wd, None)"

subsection \<open>What a response writer holds afterwards\<close>

text \<open>A writer to which nothing has been written.\<close>

definition pristine :: "response_writer \<Rightarrow> bool" where
  "pristine w \<longleftrightarrow>
     rw_status w = None \<and> rw_body w = [] \<and>
     (case rw_recorder w of None \<Rightarrow> True | Some rec \<Rightarrow> \<not> sr_wroteHeader rec)"

text \<open>
  A complete response: one status line, one body, and the recorder (if any) has seen that
  status.
\<close>

definition answered :: "nat \<Rightarrow> response_body \<Rightarrow> response_writer \<Rightarrow> bool" where
  "answered status b w \<longleftrightarrow>
     rw_status w = Some status \<and> rw_body w = [b] \<and>
     (case rw_recorder w of None \<Rightarrow> True | Some rec \<Rightarrow> sr_wroteHeader rec \<and> sr_status rec = status)"

lemmas writer_defs = writeJSON_def writeError_def Write_def WriteHeader_def header_Set_def
  conn_Write_def conn_WriteHeader_def recorder_Write_def recorder_WriteHeader_def Let_def

lemma pristine_header_Set [simp]: "pristine (header_Set k v w) \<longleftrightarrow> pristine w"
  by (simp add: pristine_def header_Set_def)

lemma answered_writeJSON:
  assumes "pristine w"
  shows "answered status b (writeJSON status b w)"
    "k \<noteq> ''Content-Type'' \<Longrightarrow> k \<noteq> ''Server-Timing'' \<Longrightarrow> rw_sent (writeJSON status b w) k = rw_header w k"
  using assms by (auto simp: pristine_def answered_def writer_defs split: option.splits)

lemma answered_writeError:
  "pristine w \<Longrightarrow> answered status (JsonError m) (writeError status m w)"
  by (simp add: writeError_def answered_writeJSON)

lemma answered_text:
  "pristine w \<Longrightarrow> answered status (TextBody t) (Write (TextBody t) (WriteHeader status w))"
  by (auto simp: pristine_def answered_def writer_defs split: option.splits)

lemma answered_implicit: "pristine w \<Longrightarrow> answered 200 (TextBody t) (Write (TextBody t) w)"
  by (auto simp: pristine_def answered_def writer_defs split: option.splits)

lemma answered_unauthorized: "pristine w \<Longrightarrow> answered 401 (TextBody (error_text ''unauthorized'')) (unauthorized w)"
  by (simp add: unauthorized_def answered_text)

lemma answered_forbidden: "pristine w \<Longrightarrow> answered 403 (TextBody (error_text ''forbidden'')) (forbidden w)"
  by (simp add: forbidden_def answered_text)

lemmas answered_intros = answered_writeJSON(1) answered_writeError answered_text answered_implicit
  answered_unauthorized answered_forbidden

text \<open>The recorder of a response writer is only ever updated, never added or removed.\<close>

lemma answered_decodeJSON:
  assumes "pristine w" and "decodeJSON fs zero r w = Inl w'"
  shows "\<exists>status m. status \<in> {400, 413, 415} \<and> answered status (JsonError m) w'"
  using assms
  by (auto simp: decodeJSON_def writeBodyError_def split: if_splits prod.splits sum.splits
      option.splits decode_error.splits intro!: answered_writeError)

end
