(* ===== verification/Http_Routes.thy ===== *)
theory Http_Routes
  imports Http_Handlers
begin

text \<open>
  \<^verbatim>\<open>internal/httpapi/routes.go\<close> and \<^verbatim>\<open>middleware.go\<close>: the routing table with the permission
  of each route, the middleware chain, and \<open>NewHandler\<close>, which puts them together. The lemmas
  say that every request gets exactly one response and which requests can change the store.
\<close>

subsection \<open>Dependencies\<close>

record 's dependencies =
  dep_Verify :: "string \<Rightarrow> go_error + claims"
  dep_Login :: "'s \<Rightarrow> string \<Rightarrow> string \<Rightarrow> go_error + string"
  dep_CreateTransfer :: "'s \<Rightarrow> string \<Rightarrow> string \<Rightarrow> create_transfer \<Rightarrow> 's \<times> (go_error + (transfer \<times> bool))"
  dep_GetTransfer :: "'s \<Rightarrow> string \<Rightarrow> string \<Rightarrow> go_error + transfer"
  dep_ListAccounts :: "'s \<Rightarrow> string \<Rightarrow> go_error + account list"
  dep_GetAccount :: "'s \<Rightarrow> string \<Rightarrow> string \<Rightarrow> go_error + account"
  dep_Ready :: "('s \<Rightarrow> go_error option) option"
  dep_RequestTimeout :: int
  dep_uuid_Scan :: "string \<Rightarrow> uuid option"
  dep_OpenAPISpec :: string

text \<open>What differs from request to request: random bytes, the clock and the measured time.\<close>

record request_env =
  re_random :: string
  re_now :: time
  re_duration :: string

subsection \<open>Middleware\<close>

definition validRequestID :: "string \<Rightarrow> bool" where
  "validRequestID i \<longleftrightarrow>
     1 \<le> length i \<and> length i \<le> 64 \<and>
     list_all (\<lambda>c. byte_in 0x41 0x5A c \<or> byte_in 0x61 0x7A c \<or> byte_in 0x30 0x39 c \<or> c \<in> set ''._-'') i"

definition hex_EncodeToString :: "string \<Rightarrow> string" where
  "hex_EncodeToString b =
     concat (map (\<lambda>c. [hex_char (of_char c div 16), hex_char (of_char c mod 16)]) b)"

definition requestID :: "request_env \<Rightarrow> 's handler \<Rightarrow> 's handler" where
  "requestID env next r wd =
     (let given = header_Get r ''X-Request-ID'';
          i = (if validRequestID given then given else hex_EncodeToString (re_random env))
      in next (r\<lparr>rq_request_id := Some i\<rparr>) (respond (header_Set ''X-Request-ID'' i) wd))"

text \<open>
  The recorder is wrapped around the writer for the inner handlers. When they panic, the
  panic passes through and nothing is logged here.
\<close>

definition access_level :: "http_request \<Rightarrow> nat \<Rightarrow> log_level" where
  "access_level r status =
     (if rq_path r = [''health''] \<or> rq_path r = [''ready''] then LevelDebug
      else if status \<ge> 500 then LevelError else LevelInfo)"

definition accessLog :: "request_env \<Rightarrow> (http_request \<Rightarrow> string) \<Rightarrow> 's handler \<Rightarrow> 's handler" where
  "accessLog env routeOf next r wd =
     (let rec = \<lparr>sr_duration = re_duration env, sr_status = 200, sr_wroteHeader = False\<rparr> in
      case next r (respond (rw_recorder_update (\<lambda>_. Some rec)) wd) of
        (wd', Some p) \<Rightarrow> (wd', Some p)
      | (wd', None) \<Rightarrow>
          let status = (case rw_recorder (wd_writer wd') of Some rec' \<Rightarrow> sr_status rec' | None \<Rightarrow> 200) in
          (respond (rw_recorder_update (\<lambda>_. None)) wd'
             \<lparr>wd_log := wd_log wd' @
               [AccessLog (access_level r status) (requestIDFrom r) (rq_method r) (rq_path r) (routeOf r) status]\<rparr>,
           None))"

definition withTimeout :: "request_env \<Rightarrow> int \<Rightarrow> 's handler \<Rightarrow> 's handler" where
  "withTimeout env timeout next r wd =
     (let deadline = re_now env + timeout in
      next (r\<lparr>rq_deadline :=
        Some (case rq_deadline r of None \<Rightarrow> deadline | Some d \<Rightarrow> min d deadline)\<rparr>) wd)"

text \<open>The recovering handler writes to the connection's writer, not to a recorder.\<close>

definition recoverPanics :: "'s handler \<Rightarrow> 's handler" where
  "recoverPanics next r wd =
     (case next r wd of
        (wd', None) \<Rightarrow> (wd', None)
      | (wd', Some AbortHandler) \<Rightarrow> (wd', Some AbortHandler)
      | (wd', Some p) \<Rightarrow>
          (respond (\<lambda>w. writeError 500 ''internal server error'' (w\<lparr>rw_recorder := None\<rparr>))
             (wd'\<lparr>wd_log := wd_log wd' @ [PanicLog (requestIDFrom r)]\<rparr>), None))"

subsection \<open>Routing\<close>

datatype segment = Exact string | Wildcard

datatype route =
    RouteHealth | RouteReady | RouteOpenAPI | RouteDocs | RouteLogin | RouteMe
  | RouteAccounts | RouteAccount | RouteCreateTransfer | RouteTransfer

definition routes :: "(string \<times> segment list \<times> string \<times> route) list" where
  "routes =
     [(''GET'', [Exact ''health''], ''GET /health'', RouteHealth),
      (''GET'', [Exact ''ready''], ''GET /ready'', RouteReady),
      (''GET'', [Exact ''openapi.yaml''], ''GET /openapi.yaml'', RouteOpenAPI),
      (''GET'', [Exact ''docs''], ''GET /docs'', RouteDocs),
      (''POST'', [Exact ''auth'', Exact ''login''], ''POST /auth/login'', RouteLogin),
      (''GET'', [Exact ''me''], ''GET /me'', RouteMe),
      (''GET'', [Exact ''accounts''], ''GET /accounts'', RouteAccounts),
      (''GET'', [Exact ''accounts'', Wildcard], ''GET /accounts/{id}'', RouteAccount),
      (''POST'', [Exact ''transfers''], ''POST /transfers'', RouteCreateTransfer),
      (''GET'', [Exact ''transfers'', Wildcard], ''GET /transfers/{id}'', RouteTransfer)]"

text \<open>A wildcard takes one non-empty segment; \<open>match_path\<close> gives the last one matched.\<close>

fun match_path :: "segment list \<Rightarrow> string list \<Rightarrow> string \<Rightarrow> string option" where
  "match_path [] [] i = Some i"
| "match_path (Exact s # ps) (t # ts) i = (if s = t then match_path ps ts i else None)"
| "match_path (Wildcard # ps) (t # ts) i = (if t \<noteq> '''' then match_path ps ts t else None)"
| "match_path _ _ i = None"

text \<open>A pattern for GET also serves HEAD.\<close>

definition match_method :: "string \<Rightarrow> string \<Rightarrow> bool" where
  "match_method pattern m \<longleftrightarrow> pattern = m \<or> (pattern = ''GET'' \<and> m = ''HEAD'')"

datatype mux_match = Matched string route string | MethodNotAllowed "string list" | NoMatch

definition mux_Handler :: "string \<Rightarrow> string list \<Rightarrow> mux_match" where
  "mux_Handler m path =
     (let here = filter (\<lambda>(_, segs, _, _). match_path segs path '''' \<noteq> None) routes in
      case List.find (\<lambda>(pm, _, _, _). match_method pm m) here of
        Some (_, segs, pattern, rt) \<Rightarrow> Matched pattern rt (the (match_path segs path ''''))
      | None \<Rightarrow>
          if here = [] then NoMatch
          else MethodNotAllowed (concat (map (\<lambda>(pm, _). if pm = ''GET'' then [''GET'', ''HEAD''] else [pm]) here)))"

lemma mux_Handler_Matched:
  assumes "mux_Handler m path = Matched p rt i"
  shows "\<exists>pm segs. (pm, segs, p, rt) \<in> set routes \<and> match_method pm m \<and> match_path segs path '''' = Some i"
proof -
  obtain pm segs where "List.find (\<lambda>(pm, _, _, _). match_method pm m)
      (filter (\<lambda>(_, segs, _, _). match_path segs path '''' \<noteq> None) routes) = Some (pm, segs, p, rt)"
    and i: "i = the (match_path segs path '''')"
    using assms by (auto simp: mux_Handler_def Let_def split: option.splits if_splits)
  then have "match_method pm m" and "(pm, segs, p, rt) \<in> set
      (filter (\<lambda>(_, segs, _, _). match_path segs path '''' \<noteq> None) routes)"
    unfolding find_Some_iff by (metis (mono_tags, lifting) case_prod_conv nth_mem)+
  with i show ?thesis by auto
qed

lemma mux_Handler_create:
  assumes "mux_Handler m path = Matched p RouteCreateTransfer i"
  shows "m = ''POST'' \<and> path = [''transfers'']"
  using mux_Handler_Matched [OF assms]
  by (auto simp: routes_def match_method_def elim!: match_path.elims match_path.elims [OF sym] split: if_splits)

definition routeOf :: "http_request \<Rightarrow> string" where
  "routeOf r = (case mux_Handler (rq_method r) (rq_path r) of Matched pattern _ _ \<Rightarrow> pattern | _ \<Rightarrow> '''')"

text \<open>\<^verbatim>\<open>http.Error\<close>, with which the router answers what it cannot route.\<close>

definition http_Error :: "string \<Rightarrow> nat \<Rightarrow> response_writer \<Rightarrow> response_writer" where
  "http_Error message status w =
     Write (TextBody (message @ [CHR 0x0A])) (WriteHeader status
       (header_Set ''X-Content-Type-Options'' ''nosniff''
         (header_Set ''Content-Type'' ''text/plain; charset=utf-8'' w)))"

subsection \<open>NewHandler\<close>

definition protect :: "'s dependencies \<Rightarrow> permission \<Rightarrow> 's handler \<Rightarrow> 's handler" where
  "protect d permission h = Authenticate (dep_Verify d) (RequirePermission permission h)"

definition route_handler :: "'s dependencies \<Rightarrow> route \<Rightarrow> 's handler" where
  "route_handler d rt =
     (case rt of
        RouteHealth \<Rightarrow> health
      | RouteReady \<Rightarrow> ready (dep_Ready d)
      | RouteOpenAPI \<Rightarrow> openAPISpec (dep_OpenAPISpec d)
      | RouteDocs \<Rightarrow> swaggerUI
      | RouteLogin \<Rightarrow> login (dep_Login d)
      | RouteMe \<Rightarrow> Authenticate (dep_Verify d) me
      | RouteAccounts \<Rightarrow> protect d PermissionAccountsRead (listAccounts (dep_ListAccounts d))
      | RouteAccount \<Rightarrow> protect d PermissionAccountsRead (getAccount (dep_GetAccount d))
      | RouteCreateTransfer \<Rightarrow>
          protect d PermissionTransfersCreate (createTransfer (dep_uuid_Scan d) (dep_CreateTransfer d))
      | RouteTransfer \<Rightarrow> protect d PermissionTransfersRead (getTransfer (dep_GetTransfer d)))"

definition mux_ServeHTTP :: "'s dependencies \<Rightarrow> 's handler" where
  "mux_ServeHTTP d r wd =
     (case mux_Handler (rq_method r) (rq_path r) of
        Matched _ rt i \<Rightarrow> route_handler d rt (r\<lparr>rq_path_id := i\<rparr>) wd
      | MethodNotAllowed allowed \<Rightarrow>
          (respond (\<lambda>w. http_Error ''Method Not Allowed'' 405
             (header_Set ''Allow'' (join_with '', '' allowed) w)) wd, None)
      | NoMatch \<Rightarrow> (respond (http_Error ''404 page not found'' 404) wd, None))"

definition effective_timeout :: "'s dependencies \<Rightarrow> int" where
  "effective_timeout d = (if dep_RequestTimeout d \<le> 0 then 10 * time_Second else dep_RequestTimeout d)"

definition NewHandler :: "'s dependencies \<Rightarrow> request_env \<Rightarrow> 's handler" where
  "NewHandler d env =
     recoverPanics (requestID env (accessLog env routeOf
       (withTimeout env (effective_timeout d) (mux_ServeHTTP d))))"

subsection \<open>Every request gets one response\<close>

text \<open>
  \<open>completes w w'\<close>: from the untouched writer \<open>w\<close> the handler has sent one complete response,
  and apart from the headers the handlers set themselves the response carries the headers of
  \<open>w\<close>.
\<close>

definition handler_headers :: "string set" where
  "handler_headers =
     {''Content-Type'', ''Server-Timing'', ''WWW-Authenticate'', ''Cache-Control'',
      ''Idempotent-Replayed'', ''X-Content-Type-Options'', ''Allow''}"

definition completes :: "response_writer \<Rightarrow> response_writer \<Rightarrow> bool" where
  "completes w w' \<longleftrightarrow>
     (\<exists>status b. answered status b w') \<and> (rw_recorder w' = None \<longleftrightarrow> rw_recorder w = None) \<and>
     (\<forall>k. k \<notin> handler_headers \<longrightarrow> rw_sent w' k = rw_header w k)"

lemma completes_writeJSON: "pristine w \<Longrightarrow> completes w (writeJSON status b w)"
  using answered_writeJSON(1) [where w = w and status = status and b = b] unfolding completes_def
  by (auto simp: handler_headers_def pristine_def writer_defs split: option.splits)

lemma completes_text: "pristine w \<Longrightarrow> completes w (Write (TextBody t) (WriteHeader status w))"
  using answered_text [of w status t] unfolding completes_def
  by (auto simp: handler_headers_def pristine_def writer_defs split: option.splits)

lemma completes_implicit: "pristine w \<Longrightarrow> completes w (Write (TextBody t) w)"
  using answered_implicit [of w t] unfolding completes_def
  by (auto simp: handler_headers_def pristine_def writer_defs split: option.splits)

lemma completes_header_Set:
  "k \<in> handler_headers \<Longrightarrow> completes (header_Set k v w) w' \<Longrightarrow> completes w w'"
  by (auto simp: completes_def header_Set_def)

lemma completes_writeError: "pristine w \<Longrightarrow> completes w (writeError status m w)"
  by (simp add: writeError_def completes_writeJSON)

lemmas completes_text2 = completes_header_Set [OF _ completes_header_Set [OF _ completes_text]]

lemma completes_unauthorized: "pristine w \<Longrightarrow> completes w (unauthorized w)"
  unfolding unauthorized_def by (rule completes_text2) (simp_all add: handler_headers_def)

lemma completes_forbidden: "pristine w \<Longrightarrow> completes w (forbidden w)"
  unfolding forbidden_def
  by (rule completes_header_Set [OF _ completes_text]) (simp_all add: handler_headers_def)

lemma completes_http_Error: "pristine w \<Longrightarrow> completes w (http_Error m status w)"
  unfolding http_Error_def by (rule completes_text2) (simp_all add: handler_headers_def)

lemma completes_decodeJSON:
  "pristine w \<Longrightarrow> decodeJSON fs zero r w = Inl w' \<Longrightarrow> completes w w'"
  by (auto simp: decodeJSON_def writeBodyError_def split: if_splits prod.splits sum.splits
      option.splits decode_error.splits intro!: completes_writeError)

lemmas completes_intros = completes_writeJSON completes_writeError completes_unauthorized
  completes_forbidden completes_http_Error completes_decodeJSON

text \<open>A handler that returns normally with one response.\<close>

definition serves :: "'s handler \<Rightarrow> http_request \<Rightarrow> bool" where
  "serves h r \<longleftrightarrow> (\<forall>wd. pristine (wd_writer wd) \<longrightarrow>
     snd (h r wd) = None \<and> completes (wd_writer wd) (wd_writer (fst (h r wd))))"

lemma no_store_header: "''Cache-Control'' \<in> handler_headers" "''Idempotent-Replayed'' \<in> handler_headers"
  by (simp_all add: handler_headers_def)

lemma completes_after_no_store:
  "completes (header_Set ''Cache-Control'' v w) w' \<Longrightarrow> completes w w'"
  "completes (header_Set ''Idempotent-Replayed'' v w) w' \<Longrightarrow> completes w w'"
  using completes_header_Set no_store_header by blast+

lemma create_response_completes:
  "pristine (wd_writer wd) \<Longrightarrow> completes (wd_writer wd) (wd_writer (create_response res r wd))"
  by (auto simp: create_response_def log_error_def split: sum.split prod.split
      intro!: completes_intros completes_after_no_store(2) [OF completes_writeJSON])

lemma createTransfer_serves: "serves (createTransfer scan create) r"
proof -
  have "completes (header_Set ''Cache-Control'' ''no-store'' (wd_writer wd)) (wd_writer (fst (createTransfer scan create r wd)))
      \<and> snd (createTransfer scan create r wd) = None" if "pristine (wd_writer wd)" for wd
    using that create_response_completes
      [of "wd\<lparr>wd_writer := header_Set ''Cache-Control'' ''no-store'' (wd_writer wd), wd_store := s\<rparr>" for s]
    by (auto simp: createTransfer_def Let_def split: option.split sum.split prod.split
        intro!: completes_intros intro: completes_decodeJSON)
  then show ?thesis using completes_after_no_store(1) by (auto simp: serves_def)
qed

lemma login_serves: "serves (login svc) r"
proof -
  have "completes (header_Set ''Cache-Control'' ''no-store'' (wd_writer wd)) (wd_writer (fst (login svc r wd)))
      \<and> snd (login svc r wd) = None" if "pristine (wd_writer wd)" for wd
    using that
    by (auto simp: login_def Let_def log_error_def split: sum.split
        intro!: completes_intros intro: completes_decodeJSON)
  then show ?thesis using completes_after_no_store(1) by (auto simp: serves_def)
qed

lemma reads_serve:
  assumes "rq_claims r = Some c"
  shows "serves (getTransfer gt) r" "serves (listAccounts la) r" "serves (getAccount ga) r" "serves me r"
  using assms
  by (auto simp: serves_def getTransfer_def listAccounts_def getAccount_def me_def ClaimsFromContext_def
      log_error_def split: sum.split
      intro!: completes_writeError completes_after_no_store(1) [OF completes_writeJSON])

lemma plain_serves:
  "serves health r" "serves (ready check) r" "serves (openAPISpec spec) r" "serves swaggerUI r"
  by (auto simp: serves_def health_def ready_def openAPISpec_def swaggerUI_def handler_headers_def
      split: option.split intro!: completes_writeJSON completes_writeError
      completes_header_Set [OF _ completes_implicit])

lemma Authenticate_serves:
  assumes "\<And>c. serves next (r\<lparr>rq_claims := Some c\<rparr>)"
  shows "serves (Authenticate verify next) r"
  using assms
  by (auto simp: serves_def Authenticate_cases split: option.split intro: completes_unauthorized)

lemma protect_serves:
  assumes "\<And>c. serves h (r\<lparr>rq_claims := Some c\<rparr>)"
  shows "serves (protect d p h) r"
  using assms
  by (auto simp: serves_def protect_def protected_cases split: option.split
      intro: completes_unauthorized completes_forbidden)

lemma route_serves: "serves (route_handler d rt) r"
  by (cases rt)
    (auto simp: route_handler_def intro!: plain_serves login_serves Authenticate_serves protect_serves
      createTransfer_serves reads_serve)

lemma mux_serves: "serves (mux_ServeHTTP d) r"
proof (cases "mux_Handler (rq_method r) (rq_path r)")
  case (Matched p rt i)
  with route_serves [of d rt "r\<lparr>rq_path_id := i\<rparr>"] show ?thesis
    by (simp add: serves_def mux_ServeHTTP_def)
qed (auto simp: serves_def mux_ServeHTTP_def handler_headers_def
    intro!: completes_http_Error completes_header_Set [OF _ completes_http_Error])

subsection \<open>Which requests change the store\<close>

text \<open>
  The arguments with which a request calls the transfer service, if it does: it matches
  \<^verbatim>\<open>POST /transfers\<close>, carries a token that verifies and grants the permission, exactly one
  idempotency key that is a nonzero UUID, and a body that decodes.
\<close>

definition decoded_transfer :: "http_request \<Rightarrow> create_transfer option" where
  "decoded_transfer r =
     (case decodeJSON create_transfer_fields zero_create_transfer r new_writer of
        Inl _ \<Rightarrow> None | Inr request \<Rightarrow> Some request)"

definition transfer_key_of :: "(string \<Rightarrow> uuid option) \<Rightarrow> http_request \<Rightarrow> string option" where
  "transfer_key_of scan r =
     (case rq_headers r ''Idempotency-Key'' of
        [k] \<Rightarrow> (case scan (TrimSpace k) of
            Some u \<Rightarrow> if u = 0 then None else Some (TrimSpace k) | None \<Rightarrow> None)
      | _ \<Rightarrow> None)"

definition transfer_call :: "'s dependencies \<Rightarrow> http_request \<Rightarrow> (string \<times> string \<times> create_transfer) option" where
  "transfer_call d r =
     (case mux_Handler (rq_method r) (rq_path r) of
        Matched _ RouteCreateTransfer _ \<Rightarrow>
          (case authenticated (dep_Verify d) r of
             Some c \<Rightarrow>
               (if HasPermission c PermissionTransfersCreate
                then case (transfer_key_of (dep_uuid_Scan d) r, decoded_transfer r) of
                    (Some key, Some request) \<Rightarrow> Some (cl_subject c, key, request)
                  | _ \<Rightarrow> None
                else None)
           | None \<Rightarrow> None)
      | _ \<Rightarrow> None)"

lemma decodeJSON_writer:
  "decodeJSON fs zero r w = Inr x \<longleftrightarrow> decodeJSON fs zero r w' = Inr x"
  by (auto simp: decodeJSON_def split: if_splits prod.splits sum.splits option.splits decode_error.splits)

lemma decoded_transfer_Some:
  "decodeJSON create_transfer_fields zero_create_transfer r w = Inr x \<longleftrightarrow> decoded_transfer r = Some x"
  using decodeJSON_writer [of create_transfer_fields zero_create_transfer r w x new_writer]
  by (auto simp: decoded_transfer_def split: sum.splits)

lemma decoded_transfer_request [simp]:
  "decoded_transfer (r\<lparr>rq_path_id := i\<rparr>) = decoded_transfer r"
  "decoded_transfer (r\<lparr>rq_claims := cl\<rparr>) = decoded_transfer r"
  "decoded_transfer (r\<lparr>rq_request_id := j\<rparr>) = decoded_transfer r"
  "decoded_transfer (r\<lparr>rq_deadline := t\<rparr>) = decoded_transfer r"
  by (simp_all add: decoded_transfer_def decodeJSON_def limited_body_def header_Get_def)

lemma headers_request [simp]:
  "authenticated v (r\<lparr>rq_path_id := i\<rparr>) = authenticated v r"
  "authenticated v (r\<lparr>rq_request_id := j\<rparr>) = authenticated v r"
  "authenticated v (r\<lparr>rq_deadline := t\<rparr>) = authenticated v r"
  "transfer_key_of s (r\<lparr>rq_path_id := i\<rparr>) = transfer_key_of s r"
  "transfer_key_of s (r\<lparr>rq_claims := cl\<rparr>) = transfer_key_of s r"
  "transfer_key_of s (r\<lparr>rq_request_id := j\<rparr>) = transfer_key_of s r"
  "transfer_key_of s (r\<lparr>rq_deadline := t\<rparr>) = transfer_key_of s r"
  by (simp_all add: transfer_key_of_def authenticated_def bearer_token_def)

lemma transfer_call_request [simp]:
  "transfer_call d (r\<lparr>rq_request_id := j\<rparr>) = transfer_call d r"
  "transfer_call d (r\<lparr>rq_deadline := t\<rparr>) = transfer_call d r"
  unfolding transfer_call_def headers_request decoded_transfer_request by simp_all

lemma create_response_store [simp]: "wd_store (create_response res r wd) = wd_store wd"
  by (simp add: create_response_def log_error_def split: sum.split prod.split)

lemma createTransfer_called:
  assumes "rq_claims r = Some c" and "transfer_key_of scan r = Some key" and "decoded_transfer r = Some request"
  shows "createTransfer scan create r wd =
    (case create (wd_store wd) (cl_subject c) key request of
       (s, res) \<Rightarrow> (create_response res r
          ((respond (header_Set ''Cache-Control'' ''no-store'') wd)\<lparr>wd_store := s\<rparr>), None))"
proof -
  obtain k u where k: "rq_headers r ''Idempotency-Key'' = [k]" "scan (TrimSpace k) = Some u" "u \<noteq> 0"
    "key = TrimSpace k"
    using assms(2) by (auto simp: transfer_key_of_def split: list.splits option.splits if_splits)
  have "decodeJSON create_transfer_fields zero_create_transfer r w = Inr request" for w
    using assms(3) by (simp add: decoded_transfer_Some)
  then show ?thesis
    using assms(1) k by (simp add: createTransfer_def ClaimsFromContext_def split: prod.split)
qed

lemma createTransfer_not_called:
  assumes "rq_claims r = Some c" and "transfer_key_of scan r = None \<or> decoded_transfer r = None"
  shows "wd_store (fst (createTransfer scan create r wd)) = wd_store wd"
proof -
  have key: "transfer_key_of scan r \<noteq> None"
    if "length (rq_headers r ''Idempotency-Key'') = 1"
      "scan (TrimSpace (rq_headers r ''Idempotency-Key'' ! 0)) = Some u" "u \<noteq> 0" for u
    using that by (auto simp: transfer_key_of_def length_Suc_conv)
  with assms show ?thesis
    by (auto simp: createTransfer_def ClaimsFromContext_def Let_def decoded_transfer_Some
        split: option.splits sum.splits prod.splits)
qed

lemma protected_store:
  assumes "\<And>r wd. wd_store (fst (h r wd)) = wd_store wd"
  shows "wd_store (fst (protect d p h r wd)) = wd_store wd"
  using assms by (simp add: protect_def protected_cases split: option.split)

lemma other_routes_store:
  "rt \<noteq> RouteCreateTransfer \<Longrightarrow> wd_store (fst (route_handler d rt r wd)) = wd_store wd"
  by (cases rt)
    (auto simp: route_handler_def health_def ready_def openAPISpec_def swaggerUI_def login_def me_def
      Authenticate_cases listAccounts_def getAccount_def getTransfer_def log_error_def Let_def
      split: option.split sum.split intro!: protected_store)

text \<open>The router calls the transfer service with these arguments, or leaves the store alone.\<close>

lemma mux_transfer_call:
  assumes "transfer_call d r = Some (u, key, request)"
  shows "\<exists>r'. rq_request_id r' = rq_request_id r \<and> mux_ServeHTTP d r wd =
    (case dep_CreateTransfer d (wd_store wd) u key request of
       (s, res) \<Rightarrow> (create_response res r'
          ((respond (header_Set ''Cache-Control'' ''no-store'') wd)\<lparr>wd_store := s\<rparr>), None))"
proof -
  from assms obtain p i c where m: "mux_Handler (rq_method r) (rq_path r) = Matched p RouteCreateTransfer i"
    and c: "authenticated (dep_Verify d) r = Some c" "HasPermission c PermissionTransfersCreate" "cl_subject c = u"
    and kq: "transfer_key_of (dep_uuid_Scan d) r = Some key" "decoded_transfer r = Some request"
    by (auto simp: transfer_call_def split: mux_match.splits route.splits option.splits if_splits)
  let ?r = "r\<lparr>rq_path_id := i, rq_claims := Some c\<rparr>"
  have "mux_ServeHTTP d r wd = createTransfer (dep_uuid_Scan d) (dep_CreateTransfer d) ?r wd"
    using m c by (simp add: mux_ServeHTTP_def route_handler_def protect_def protected_cases)
  with createTransfer_called [of ?r c "dep_uuid_Scan d" key request "dep_CreateTransfer d" wd] kq c
  show ?thesis by (intro exI [of _ ?r]) simp
qed

lemma mux_no_transfer_call:
  assumes "transfer_call d r = None"
  shows "wd_store (fst (mux_ServeHTTP d r wd)) = wd_store wd"
proof (cases "\<exists>p i. mux_Handler (rq_method r) (rq_path r) = Matched p RouteCreateTransfer i")
  case False
  then show ?thesis by (auto simp: mux_ServeHTTP_def other_routes_store split: mux_match.split)
next
  case True
  then obtain p i where m: "mux_Handler (rq_method r) (rq_path r) = Matched p RouteCreateTransfer i" by blast
  with assms have "wd_store (fst (createTransfer (dep_uuid_Scan d) (dep_CreateTransfer d)
      (r\<lparr>rq_path_id := i, rq_claims := Some c\<rparr>) wd)) = wd_store wd"
    if "authenticated (dep_Verify d) r = Some c" "HasPermission c PermissionTransfersCreate" for c
    using that by (intro createTransfer_not_called [of _ c]) (auto simp: transfer_call_def split: option.splits)
  with m show ?thesis
    by (auto simp: mux_ServeHTTP_def route_handler_def protect_def protected_cases split: option.split)
qed

lemma mux_store:
  "wd_store (fst (mux_ServeHTTP d r wd)) =
     (case transfer_call d r of
        None \<Rightarrow> wd_store wd
      | Some (u, key, request) \<Rightarrow> fst (dep_CreateTransfer d (wd_store wd) u key request))"
proof (cases "transfer_call d r")
  case (Some call)
  then obtain u key request where call: "transfer_call d r = Some (u, key, request)" by (cases call) auto
  from mux_transfer_call [OF this, of wd] show ?thesis
    by (cases "dep_CreateTransfer d (wd_store wd) u key request") (auto simp: call)
qed (simp add: mux_no_transfer_call)

subsection \<open>The whole handler\<close>

definition request_id_of :: "request_env \<Rightarrow> http_request \<Rightarrow> string" where
  "request_id_of env r =
     (if validRequestID (header_Get r ''X-Request-ID'') then header_Get r ''X-Request-ID''
      else hex_EncodeToString (re_random env))"

definition tagged :: "'s dependencies \<Rightarrow> request_env \<Rightarrow> http_request \<Rightarrow> http_request" where
  "tagged d env r =
     r\<lparr>rq_request_id := Some (request_id_of env r),
       rq_deadline := Some (case rq_deadline r of None \<Rightarrow> re_now env + effective_timeout d
         | Some t \<Rightarrow> min t (re_now env + effective_timeout d))\<rparr>"

definition inner_world :: "request_env \<Rightarrow> http_request \<Rightarrow> 's world \<Rightarrow> 's world" where
  "inner_world env r wd =
     respond (rw_recorder_update (\<lambda>_. Some \<lparr>sr_duration = re_duration env, sr_status = 200, sr_wroteHeader = False\<rparr>))
       (respond (header_Set ''X-Request-ID'' (request_id_of env r)) wd)"

lemma inner_world_pristine:
  "pristine (wd_writer wd) \<Longrightarrow> pristine (wd_writer (inner_world env r wd))"
  by (simp add: inner_world_def pristine_def header_Set_def)

lemma inner_world_store [simp]: "wd_store (inner_world env r wd) = wd_store wd"
  by (simp add: inner_world_def)

lemma NewHandler_mux:
  assumes "pristine (wd_writer wd)"
  shows "NewHandler d env r wd =
    (case fst (mux_ServeHTTP d (tagged d env r) (inner_world env r wd)) of wd' \<Rightarrow>
      let status = (case rw_recorder (wd_writer wd') of Some rec \<Rightarrow> sr_status rec | None \<Rightarrow> 200) in
      (respond (rw_recorder_update (\<lambda>_. None)) wd'
        \<lparr>wd_log := wd_log wd' @ [AccessLog (access_level r status) (request_id_of env r) (rq_method r)
           (rq_path r) (routeOf r) status]\<rparr>, None))"
proof -
  have "snd (mux_ServeHTTP d (tagged d env r) (inner_world env r wd)) = None"
    using mux_serves [of d "tagged d env r"] inner_world_pristine [OF assms] by (simp add: serves_def)
  then obtain wd' where m: "mux_ServeHTTP d (tagged d env r) (inner_world env r wd) = (wd', None)"
    by (cases "mux_ServeHTTP d (tagged d env r) (inner_world env r wd)") auto
  have t: "withTimeout env (effective_timeout d) (mux_ServeHTTP d) (r\<lparr>rq_request_id := Some (request_id_of env r)\<rparr>) wdi
      = mux_ServeHTTP d (tagged d env r) wdi" for wdi
    by (simp add: withTimeout_def tagged_def Let_def)
  have route: "routeOf (r\<lparr>rq_request_id := j\<rparr>) = routeOf r" for j by (simp add: routeOf_def)
  have level: "access_level (r\<lparr>rq_request_id := j\<rparr>) = access_level r" for j
    by (simp add: access_level_def fun_eq_iff)
  show ?thesis
    unfolding NewHandler_def recoverPanics_def requestID_def accessLog_def Let_def
      request_id_of_def [symmetric] t inner_world_def [symmetric] m
    by (simp add: route level requestIDFrom_def split: option.split)
qed

lemma NewHandler_answers:
  assumes "pristine (wd_writer wd)"
  shows "\<exists>wd' status b. NewHandler d env r wd = (wd', None) \<and>
    rw_status (wd_writer wd') = Some status \<and> rw_body (wd_writer wd') = [b] \<and>
    rw_recorder (wd_writer wd') = None \<and>
    rw_sent (wd_writer wd') ''X-Request-ID'' = Some (request_id_of env r) \<and>
    last (wd_log wd') = AccessLog (access_level r status) (request_id_of env r) (rq_method r) (rq_path r)
      (routeOf r) status \<and>
    wd_store wd' = wd_store (fst (mux_ServeHTTP d (tagged d env r) (inner_world env r wd)))"
proof -
  let ?wd = "inner_world env r wd"
  let ?wd' = "fst (mux_ServeHTTP d (tagged d env r) ?wd)"
  have c: "completes (wd_writer ?wd) (wd_writer ?wd')"
    using mux_serves [of d "tagged d env r"] inner_world_pristine [OF assms] by (simp add: serves_def)
  then obtain status b where ans: "answered status b (wd_writer ?wd')" by (auto simp: completes_def)
  have "rw_recorder (wd_writer ?wd) \<noteq> None" by (simp add: inner_world_def)
  with c ans obtain rec where rec: "rw_recorder (wd_writer ?wd') = Some rec" "sr_status rec = status"
    by (auto simp: completes_def answered_def)
  have "rw_sent (wd_writer ?wd') ''X-Request-ID'' = Some (request_id_of env r)"
    using c by (simp add: completes_def handler_headers_def inner_world_def header_Set_def)
  with ans rec show ?thesis
    by (simp add: NewHandler_mux [OF assms] Let_def answered_def)
qed

text \<open>What the recovering middleware does with a panic, and that it lets an abort through.\<close>

lemma recoverPanics_panic:
  assumes "next r wd = (wd', Some p)" and "p \<noteq> AbortHandler"
  shows "recoverPanics next r wd =
    (respond (\<lambda>w. writeError 500 ''internal server error'' (w\<lparr>rw_recorder := None\<rparr>))
       (wd'\<lparr>wd_log := wd_log wd' @ [PanicLog (requestIDFrom r)]\<rparr>), None)"
  using assms by (cases p) (simp_all add: recoverPanics_def)

end
