(* ===== verification/Auth_Login.thy ===== *)
theory Auth_Login
  imports Auth_Token Repositories
begin

text \<open>
  \<^verbatim>\<open>internal/service/auth/login.go\<close>: checking credentials and issuing a token. bcrypt is a
  parameter. \<open>Login\<close> also returns the hashes on which bcrypt was run, in order: this is the
  expensive part of a login, and what an observer of response times could tell apart.
\<close>

subsection \<open>The bcrypt library\<close>

text \<open>
  \<open>bc_GenerateFromPassword\<close> takes the random salt of the call; \<open>bc_matches hash password\<close> says
  that \<^verbatim>\<open>CompareHashAndPassword\<close> returns nil.
\<close>

record bcrypt =
  bc_GenerateFromPassword :: "string \<Rightarrow> string \<Rightarrow> go_error + string"
  bc_matches :: "string \<Rightarrow> string \<Rightarrow> bool"

definition bcrypt_documented :: "bcrypt \<Rightarrow> bool" where
  "bcrypt_documented B \<longleftrightarrow>
     (\<forall>salt password hash. bc_GenerateFromPassword B salt password = Inr hash \<longrightarrow> bc_matches B hash password)"

definition HashPassword :: "bcrypt \<Rightarrow> string \<Rightarrow> string \<Rightarrow> go_error + string" where
  "HashPassword B salt password = bc_GenerateFromPassword B salt password"

subsection \<open>The login service\<close>

record login_service =
  ls_tokens :: token_service
  ls_dummyHash :: string

text \<open>The error of hashing the dummy password is dropped; the hash is then empty.\<close>

definition NewLoginService :: "bcrypt \<Rightarrow> string \<Rightarrow> token_service \<Rightarrow> login_service" where
  "NewLoginService B salt tokens =
     \<lparr>ls_tokens = tokens,
      ls_dummyHash =
        (case bc_GenerateFromPassword B salt ''not-a-real-password'' of Inl _ \<Rightarrow> '''' | Inr hash \<Rightarrow> hash)\<rparr>"

definition Login ::
  "jwt \<Rightarrow> bcrypt \<Rightarrow> 's user_repository \<Rightarrow> login_service \<Rightarrow> 's \<Rightarrow> time \<Rightarrow> string \<Rightarrow> string \<Rightarrow>
    string list \<times> (go_error + string)" where
  "Login J B users s db now email password =
     (let email = TrimSpace email in
      if email = '''' \<or> password = '''' then ([], Inl ErrInvalidCredentials)
      else case ur_FindByEmail users db email of
        Inl e \<Rightarrow>
          if errors_Is e ErrNotFound then ([ls_dummyHash s], Inl ErrInvalidCredentials)
          else ([], Inl (Wrapped ''login'' e))
      | Inr user \<Rightarrow>
          if \<not> bc_matches B (usr_password_hash user) password
          then ([usr_password_hash user], Inl ErrInvalidCredentials)
          else ([usr_password_hash user], Issue J (ls_tokens s) now (usr_id user) (usr_permissions user)))"

subsection \<open>Users in the database\<close>

text \<open>
  The constraints of the \<^verbatim>\<open>users\<close> table: primary key, unique \<^verbatim>\<open>lower(email)\<close>, and every account
  belongs to a user.
\<close>

definition users_check :: "user \<Rightarrow> bool" where
  "users_check u \<longleftrightarrow> btrim (usr_id u) \<noteq> '''' \<and> btrim (usr_email u) \<noteq> ''''"

definition users_ok :: "pg \<Rightarrow> db \<Rightarrow> bool" where
  "users_ok P db \<longleftrightarrow>
     list_all users_check (db_users db) \<and> distinct (map usr_id (db_users db)) \<and>
     distinct (map (pg_lower P \<circ> usr_email) (db_users db)) \<and>
     list_all (\<lambda>a. list_ex (\<lambda>u. usr_id u = acc_user_id a) (db_users db)) (db_accounts db)"

lemma FindByEmail_Inr:
  assumes "users_ok P db"
  shows "FindByEmail P c db email = Inr u \<longleftrightarrow>
    call_fault c StmtFindByEmail = None \<and> pg_text email \<and>
    u \<in> set (db_users db) \<and> pg_lower P (usr_email u) = pg_lower P email"
proof -
  have one: "filter (\<lambda>v. pg_lower P (usr_email v) = pg_lower P email) (db_users db) = [u]"
    if "u \<in> set (db_users db)" "pg_lower P (usr_email u) = pg_lower P email"
    using filter_key_distinct [of "pg_lower P \<circ> usr_email" "db_users db" u] assms that
    by (simp add: users_ok_def)
  have "FindByEmail P c db email = Inr u \<longleftrightarrow> call_fault c StmtFindByEmail = None \<and> pg_text email \<and>
      first_row (filter (\<lambda>v. pg_lower P (usr_email v) = pg_lower P email) (db_users db)) = Inr u"
    by (auto simp: FindByEmail_def sql_find_by_email_def exec_no_fault split: sum.splits if_splits)
  also have "\<dots> \<longleftrightarrow> call_fault c StmtFindByEmail = None \<and> pg_text email \<and>
      u \<in> set (db_users db) \<and> pg_lower P (usr_email u) = pg_lower P email"
    using one by (auto dest: first_row_Inr)
  finally show ?thesis .
qed

lemma FindByEmail_Inl:
  assumes "call_fault c StmtFindByEmail = None" and "pg_text email" and "FindByEmail P c db email = Inl e"
  shows "e = ErrNotFound"
proof (cases "filter (\<lambda>v. pg_lower P (usr_email v) = pg_lower P email) (db_users db)")
  case Nil
  with assms show ?thesis
    by (simp add: FindByEmail_def exec_no_fault sql_find_by_email_def first_row_def)
next
  case (Cons u us)
  with assms show ?thesis
    by (simp add: FindByEmail_def exec_no_fault sql_find_by_email_def first_row_def)
qed

subsection \<open>The interface to the users\<close>

text \<open>
  The login service needs only this of \<^verbatim>\<open>UserRepository\<close>: a user it returns is the stored user
  with that address, and when the statement runs the only failure is not finding one.
\<close>

locale user_reads =
  fixes users :: "'s user_repository"
    and invar :: "'s \<Rightarrow> bool"
    and stored :: "'s \<Rightarrow> string \<Rightarrow> user \<Rightarrow> bool"
    and find_runs :: "'s \<Rightarrow> string \<Rightarrow> bool"
  assumes finds: "invar s \<Longrightarrow> ur_FindByEmail users s email = Inr u \<Longrightarrow> stored s email u"
    and found: "invar s \<Longrightarrow> find_runs s email \<Longrightarrow> stored s email u \<Longrightarrow> ur_FindByEmail users s email = Inr u"
    and missing: "find_runs s email \<Longrightarrow> ur_FindByEmail users s email = Inl e \<Longrightarrow> e = ErrNotFound"
    and fails: "\<not> find_runs s email \<Longrightarrow> \<exists>e. ur_FindByEmail users s email = Inl e \<and>
      \<not> errors_Is e ErrNotFound \<and> \<not> errors_Is e ErrInvalidCredentials"
begin

lemma Login_Inr:
  assumes inv: "invar s" and ok: "Login J B users ls s now email password = (hs, Inr raw)"
  shows "\<exists>u. stored s (TrimSpace email) u \<and> bc_matches B (usr_password_hash u) password \<and>
    hs = [usr_password_hash u] \<and> Issue J (ls_tokens ls) now (usr_id u) (usr_permissions u) = Inr raw"
  using ok finds [OF inv, of "TrimSpace email"]
  by (auto simp: Login_def Let_def split: if_splits sum.splits)

lemma Login_credentials:
  assumes "invar s" and "find_runs s (TrimSpace email)" and "stored s (TrimSpace email) u"
    and "TrimSpace email \<noteq> ''''" and "password \<noteq> ''''" and "bc_matches B (usr_password_hash u) password"
  shows "Login J B users ls s now email password =
    ([usr_password_hash u], Issue J (ls_tokens ls) now (usr_id u) (usr_permissions u))"
  using found [OF assms(1-3)] assms by (simp add: Login_def)

lemma Login_rejects:
  assumes "invar s" and "find_runs s (TrimSpace email)" and "TrimSpace email \<noteq> ''''" and "password \<noteq> ''''"
    and bad: "\<And>u. stored s (TrimSpace email) u \<Longrightarrow> \<not> bc_matches B (usr_password_hash u) password"
  shows "\<exists>h. Login J B users ls s now email password = ([h], Inl ErrInvalidCredentials)"
proof (cases "ur_FindByEmail users s (TrimSpace email)")
  case (Inl e)
  with missing [OF assms(2)] have "e = ErrNotFound" by blast
  with Inl assms show ?thesis by (simp add: Login_def)
next
  case (Inr u)
  with bad [OF finds [OF assms(1) Inr]] assms show ?thesis by (simp add: Login_def)
qed

lemma Login_broken:
  assumes "\<not> find_runs s (TrimSpace email)" and "TrimSpace email \<noteq> ''''" and "password \<noteq> ''''"
  shows "\<exists>e. Login J B users ls s now email password = ([], Inl e) \<and>
    \<not> errors_Is e ErrInvalidCredentials"
  using fails [OF assms(1)] assms(2,3) by (auto simp: Login_def)

end

definition email_runs :: "pg_call \<Rightarrow> db \<Rightarrow> string \<Rightarrow> bool" where
  "email_runs c db email \<longleftrightarrow> call_fault c StmtFindByEmail = None \<and> pg_text email"

definition user_with_email :: "pg \<Rightarrow> db \<Rightarrow> string \<Rightarrow> user \<Rightarrow> bool" where
  "user_with_email P db email u \<longleftrightarrow>
     u \<in> set (db_users db) \<and> pg_lower P (usr_email u) = pg_lower P email"

interpretation pg_users: user_reads "NewUserRepository P c" "users_ok P" "user_with_email P" "email_runs c"
  for P c
proof unfold_locales
  fix s email e
  assume "email_runs c s email" "ur_FindByEmail (NewUserRepository P c) s email = Inl e"
  then show "e = ErrNotFound" using FindByEmail_Inl by (auto simp: email_runs_def)
next
  fix s email
  assume "\<not> email_runs c s email"
  then show "\<exists>e. ur_FindByEmail (NewUserRepository P c) s email = Inl e \<and> \<not> errors_Is e ErrNotFound \<and>
      \<not> errors_Is e ErrInvalidCredentials"
    by (cases "call_fault c StmtFindByEmail")
      (auto simp: email_runs_def FindByEmail_def exec_def sql_find_by_email_def violation_def)
qed (auto simp: FindByEmail_Inr user_with_email_def email_runs_def)

end
