(* ===== verification/Account_Service.thy ===== *)
theory Account_Service
  imports Repositories
begin

text \<open>
  \<^verbatim>\<open>internal/service/account/service.go\<close>: \<open>Account_List\<close> and \<open>Account_Get\<close>. What they need of
  \<^verbatim>\<open>AccountRepository\<close> is the locale \<open>account_reads\<close>, interpreted on the PostgreSQL
  repository; inside it \<open>Account_Get\<close> is shown to depend on nothing but the caller's own
  accounts.
\<close>

record 's account_service =
  svc_accounts :: "'s account_repository"

definition NewAccountService :: "'s account_repository \<Rightarrow> 's account_service" where
  "NewAccountService accounts = \<lparr>svc_accounts = accounts\<rparr>"

definition Account_List :: "'s account_service \<Rightarrow> 's \<Rightarrow> string \<Rightarrow> go_error + account list" where
  "Account_List svc s userID = ar_ListByUser (svc_accounts svc) s userID"

definition Account_Get :: "'s account_service \<Rightarrow> 's \<Rightarrow> string \<Rightarrow> string \<Rightarrow> go_error + account" where
  "Account_Get svc s userID accountID =
     (case ar_FindOwned (svc_accounts svc) s userID accountID of
        Inl e \<Rightarrow> if errors_Is e ErrNotFound then Inl ErrAccountNotFound else Inl e
      | Inr account \<Rightarrow> Inr account)"

lemmas get_defs = Account_Get_def NewAccountService_def

lemmas list_defs = Account_List_def NewAccountService_def

subsection \<open>The interface to the repository\<close>

text \<open>
  \<open>owned_runs s i u\<close> and \<open>list_runs s u\<close> say that the statement runs: the connection works and
  its parameters are valid text.
\<close>

locale account_reads =
  fixes repo :: "'s account_repository"
    and invar :: "'s \<Rightarrow> bool"
    and accounts :: "'s \<Rightarrow> string \<Rightarrow> account option"
    and owned_runs :: "'s \<Rightarrow> string \<Rightarrow> string \<Rightarrow> bool"
    and list_runs :: "'s \<Rightarrow> string \<Rightarrow> bool"
  assumes found: "invar s \<Longrightarrow> ar_FindOwned repo s u i = Inr a \<Longrightarrow> accounts s i = Some a \<and> acc_user_id a = u"
    and absent: "invar s \<Longrightarrow> owned_runs s i u \<Longrightarrow> ar_FindOwned repo s u i = Inl e \<Longrightarrow>
      e = ErrNotFound \<and> (\<forall>a. accounts s i = Some a \<longrightarrow> acc_user_id a \<noteq> u)"
    and broken: "\<not> owned_runs s i u \<Longrightarrow>
      \<exists>e. ar_FindOwned repo s u i = Inl e \<and> \<not> errors_Is e ErrNotFound \<and> \<not> errors_Is e ErrAccountNotFound"
    and account_ids: "invar s \<Longrightarrow> accounts s i = Some a \<Longrightarrow> acc_id a = i"
    and listed: "invar s \<Longrightarrow> list_runs s u \<Longrightarrow> \<exists>as. ar_ListByUser repo s u = Inr as \<and>
      distinct (map acc_id as) \<and> set as = {a. accounts s (acc_id a) = Some a \<and> acc_user_id a = u}"
    and unlisted: "\<not> list_runs s u \<Longrightarrow> \<exists>e. ar_ListByUser repo s u = Inl e"
begin

lemma Get_answer:
  assumes "invar s" and "owned_runs s i u"
  shows "Account_Get (NewAccountService repo) s u i =
    (case accounts s i of
       Some a \<Rightarrow> if acc_user_id a = u then Inr a else Inl ErrAccountNotFound
     | None \<Rightarrow> Inl ErrAccountNotFound)"
proof (cases "ar_FindOwned repo s u i")
  case (Inl e)
  with absent [OF assms Inl] show ?thesis by (auto simp: get_defs split: option.split)
next
  case (Inr a)
  with found [OF assms(1) Inr] show ?thesis by (simp add: get_defs)
qed

lemma Get_broken:
  "\<not> owned_runs s i u \<Longrightarrow>
   \<exists>e. Account_Get (NewAccountService repo) s u i = Inl e \<and> \<not> errors_Is e ErrAccountNotFound"
  using broken [of s i u] by (auto simp: get_defs)

text \<open>The two reads agree: the listed accounts are exactly those that \<open>Account_Get\<close> returns.\<close>

lemma List_Get_agree:
  assumes "invar s" and "Account_List (NewAccountService repo) s u = Inr as" and "owned_runs s i u"
  shows "Account_Get (NewAccountService repo) s u i = Inr a \<longleftrightarrow> a \<in> set as \<and> acc_id a = i"
proof -
  have "list_runs s u" using unlisted assms(2) by (fastforce simp: list_defs)
  with listed [OF assms(1)] assms(2)
  have "set as = {a. accounts s (acc_id a) = Some a \<and> acc_user_id a = u}"
    by (fastforce simp: list_defs)
  moreover have "Account_Get (NewAccountService repo) s u i = Inr a \<longleftrightarrow> accounts s i = Some a \<and> acc_user_id a = u"
    unfolding Get_answer [OF assms(1,3)] by (auto split: option.split)
  ultimately show ?thesis using account_ids [OF assms(1)] by auto
qed

end

subsection \<open>On PostgreSQL\<close>

lemma owned_rows:
  assumes "db_ok db"
  shows "filter (\<lambda>a. acc_id a = i \<and> acc_user_id a = u) (db_accounts db) =
    (case account_at db i of Some a \<Rightarrow> if acc_user_id a = u then [a] else [] | None \<Rightarrow> [])"
proof (cases "account_at db i")
  case None
  then have "i \<notin> acc_id ` set (db_accounts db)" by (simp add: account_at_None)
  with None show ?thesis by (auto simp: filter_empty_conv)
next
  case (Some a)
  then have "filter (\<lambda>a. acc_id a = i) (db_accounts db) = [a]"
    using filter_key_distinct [of acc_id "db_accounts db" a] assms account_at_id by (auto simp: db_ok_def)
  then have "filter (\<lambda>a. acc_user_id a = u) (filter (\<lambda>a. acc_id a = i) (db_accounts db)) =
      (if acc_user_id a = u then [a] else [])" by simp
  with Some show ?thesis by (simp add: conj_commute)
qed

lemma FindOwned_answer:
  assumes "db_ok db"
  shows "FindOwned c db u i =
    (case call_fault c StmtFindOwned of
       Some m \<Rightarrow> Inl (Wrapped ''find account'' (DbError m))
     | None \<Rightarrow>
         if \<not> (pg_text i \<and> pg_text u)
         then Inl (Wrapped ''find account'' (violation ''invalid byte sequence''))
         else (case account_at db i of
             Some a \<Rightarrow> if acc_user_id a = u then Inr a else Inl ErrNotFound
           | None \<Rightarrow> Inl ErrNotFound))"
  by (simp add: FindOwned_def exec_def sql_find_owned_def owned_rows [OF assms] split: option.split)

definition owned_runs :: "pg_call \<Rightarrow> db \<Rightarrow> string \<Rightarrow> string \<Rightarrow> bool" where
  "owned_runs c db i u \<longleftrightarrow> call_fault c StmtFindOwned = None \<and> pg_text i \<and> pg_text u"

definition list_runs :: "pg_call \<Rightarrow> db \<Rightarrow> string \<Rightarrow> bool" where
  "list_runs c db u \<longleftrightarrow> call_fault c StmtListByUser = None \<and> pg_text u"

lemma FindOwned_broken:
  "\<not> owned_runs c db i u \<Longrightarrow>
   \<exists>e. FindOwned c db u i = Inl e \<and> \<not> errors_Is e ErrNotFound \<and> \<not> errors_Is e ErrAccountNotFound"
  by (cases "call_fault c StmtFindOwned")
    (auto simp: owned_runs_def FindOwned_def exec_def sql_find_owned_def violation_def)

lemma ListByUser_rows:
  "ListByUser P c db u =
     (if list_runs c db u
      then Inr (sort_by (pg_collate_le P) acc_id (filter (\<lambda>a. acc_user_id a = u) (db_accounts db)))
      else Inl (Wrapped ''list accounts''
        (case call_fault c StmtListByUser of Some m \<Rightarrow> DbError m | None \<Rightarrow> violation ''invalid byte sequence'')))"
  by (simp add: ListByUser_def list_runs_def exec_def sql_list_by_user_def split: option.split)

interpretation pg_accounts: account_reads "NewAccountRepository P c" db_ok account_at "owned_runs c" "list_runs c"
  for P c
proof unfold_locales
  fix s u i a
  assume "db_ok s" "ar_FindOwned (NewAccountRepository P c) s u i = Inr a"
  then show "account_at s i = Some a \<and> acc_user_id a = u"
    by (auto simp: FindOwned_answer split: option.splits if_splits)
next
  fix s u i e
  assume "db_ok s" "owned_runs c s i u" "ar_FindOwned (NewAccountRepository P c) s u i = Inl e"
  then show "e = ErrNotFound \<and> (\<forall>a. account_at s i = Some a \<longrightarrow> acc_user_id a \<noteq> u)"
    by (auto simp: FindOwned_answer owned_runs_def split: option.splits if_splits)
next
  fix s u
  assume ok: "db_ok s" and "list_runs c s u"
  then show "\<exists>as. ar_ListByUser (NewAccountRepository P c) s u = Inr as \<and> distinct (map acc_id as) \<and>
      set as = {a. account_at s (acc_id a) = Some a \<and> acc_user_id a = u}"
    by (auto simp: ListByUser_rows account_at_iff db_ok_def distinct_map_filter)
qed (auto simp: ListByUser_rows dest: account_at_id FindOwned_broken)

end
