(* ===== verification/Documented.thy ===== *)
theory Documented
  imports Transfer_Complete
begin

text \<open>
  What the documentation of the program says about \<^verbatim>\<open>POST /transfers\<close>, and how far the code
  agrees. The sources are the tables and the sequence diagram of \<^verbatim>\<open>README.md\<close>,
  \<^verbatim>\<open>api/openapi.yaml\<close>, and the messages of \<^verbatim>\<open>CreateTransfer.Validate\<close>. The code departs from
  them in two cases, which are named here and left out of the agreement: descriptions whose
  characters are within the limit and whose bytes are not, and retries of a transfer for
  which the destination has no room a second time.
\<close>

subsection \<open>Requests\<close>

text \<open>Unicode characters of a text: bytes that do not continue a character.\<close>

definition characters :: "string \<Rightarrow> nat" where
  "characters s = length (filter (\<lambda>b. \<not> byte_in 0x80 0xBF b) s)"

lemma characters_le: "characters s \<le> length s"
  by (simp add: characters_def)

text \<open>
  Both accounts are required and differ, the amount is at least 1, the currency matches
  \<^verbatim>\<open>^[A-Z]{3}$\<close>, and the description is limited to 255 characters.
\<close>

definition documented_request :: "create_transfer \<Rightarrow> bool" where
  "documented_request r \<longleftrightarrow>
     TrimSpace (req_from_account_id r) \<noteq> '''' \<and> TrimSpace (req_to_account_id r) \<noteq> '''' \<and>
     req_from_account_id r \<noteq> req_to_account_id r \<and> 1 \<le> sint (req_amount r) \<and>
     currency_regex (req_currency r) \<and> characters (req_description r) \<le> 255"

definition wide_description :: "create_transfer \<Rightarrow> bool" where
  "wide_description r \<longleftrightarrow> characters (req_description r) \<le> 255 \<and> 255 < length (req_description r)"

lemma valid_documented: "valid_request r \<longleftrightarrow> documented_request r \<and> \<not> wide_description r"
  using characters_le [of "req_description r"]
  by (auto simp: valid_request_def documented_request_def wide_description_def currency_regex_iso)

subsection \<open>Answers\<close>

datatype refusal = NotAllowed | InvalidRequest | KeyReused | NoDestination | OtherCurrency | BalanceLimit

text \<open>
  The answer to user \<open>u\<close> for the key \<open>k\<close>: a refusal, or the status of the transfer and whether
  it is created now. As in the sequence diagram, owner and currency come first and then the
  key decides: a used one is answered with the stored transfer, or refused when the body
  differs. Only for a new key does it matter what the accounts hold.
\<close>

definition documented_answer ::
  "string \<Rightarrow> uuid \<Rightarrow> create_transfer \<Rightarrow> bank \<Rightarrow> refusal + (transfer_status \<times> bool)" where
  "documented_answer u k r b =
     (if TrimSpace u = '''' then Inl NotAllowed
      else if \<not> documented_request r then Inl InvalidRequest
      else case bk_accounts b (req_from_account_id r) of
        None \<Rightarrow> Inl NotAllowed
      | Some src \<Rightarrow>
      if acc_user_id src \<noteq> u then Inl NotAllowed
      else case bk_accounts b (req_to_account_id r) of
        None \<Rightarrow> Inl NoDestination
      | Some dst \<Rightarrow>
      if acc_currency src \<noteq> req_currency r \<or> acc_currency dst \<noteq> req_currency r then Inl OtherCurrency
      else case bk_transfers b (u, k) of
        Some (stored, original) \<Rightarrow>
          if original = r then Inr (tr_status stored, False) else Inl KeyReused
      | None \<Rightarrow>
          if sint (acc_balance src) < sint (req_amount r) then Inr (TransferStatusFailed, True)
          else if 2 ^ 63 - 1 < sint (acc_balance dst) + sint (req_amount r) then Inl BalanceLimit
          else Inr (TransferStatusCompleted, True))"

text \<open>The key is used, the source could pay again, and the destination cannot take it again.\<close>

definition crowded_retry :: "string \<Rightarrow> uuid \<Rightarrow> create_transfer \<Rightarrow> bank \<Rightarrow> bool" where
  "crowded_retry u k r b \<longleftrightarrow>
     bk_transfers b (u, k) \<noteq> None \<and>
     (case (bk_accounts b (req_from_account_id r), bk_accounts b (req_to_account_id r)) of
        (Some src, Some dst) \<Rightarrow> sint (req_amount r) \<le> sint (acc_balance src) \<and>
          2 ^ 63 - 1 < sint (acc_balance dst) + sint (req_amount r)
      | _ \<Rightarrow> False)"

text \<open>The error of the service for each refusal. The handler tells them apart by \<open>errors_Is\<close>.\<close>

primrec refusal_error :: "refusal \<Rightarrow> go_error" where
  "refusal_error NotAllowed = ErrForbidden"
| "refusal_error InvalidRequest = ErrInvalidTransfer"
| "refusal_error KeyReused = ErrIdempotencyConflict"
| "refusal_error NoDestination = ErrDestinationNotFound"
| "refusal_error OtherCurrency = ErrCurrencyMismatch"
| "refusal_error BalanceLimit = ErrBalanceOverflow"

definition refused_as :: "refusal \<Rightarrow> go_error \<Rightarrow> bool" where
  "refused_as x e \<longleftrightarrow> (\<forall>y. errors_Is e (refusal_error y) \<longleftrightarrow> y = x)"

lemma refusal_error_is:
  "errors_Is (refusal_error x) (refusal_error y) \<longleftrightarrow> y = x"
  by (cases x; cases y) simp_all

lemma refusal_error_plain: "refusal_error y \<noteq> Wrapped m e" "refusal_error y \<noteq> Joined es"
  by (cases y; simp)+

lemma refused_plain: "refused_as x (refusal_error x)" "refused_as x (Wrapped m (refusal_error x))"
  using refusal_error_plain(1) by (auto simp: refused_as_def refusal_error_is dest: sym)

lemma invalid_refused:
  assumes "CreateTransfer_Validate r = Inl e"
  shows "refused_as InvalidRequest e"
proof -
  from assms obtain x where "e = Joined [ErrInvalidTransfer, x]" "x = ErrInvalidAmount \<or> (\<exists>m. x = ErrorsNew m)"
    by (auto simp: CreateTransfer_Validate_def split: if_splits)
  moreover have "\<not> errors_Is ErrInvalidAmount (refusal_error y)" "\<not> errors_Is (ErrorsNew m) (refusal_error y)"
    "errors_Is ErrInvalidTransfer (refusal_error y) \<longleftrightarrow> y = InvalidRequest" for y m
    by (cases y; simp)+
  ultimately show ?thesis using refusal_error_plain(2) by (auto simp: refused_as_def dest: sym)
qed

text \<open>Where the code agrees with the documentation.\<close>

lemma code_agrees:
  assumes key: "parseKey P key = Inr k" and "\<not> wide_description r" and "\<not> crowded_retry u k r b"
  shows "case documented_answer u k r b of
      Inl x \<Rightarrow> \<exists>e. code_answer P u key r b = Inl e \<and> refused_as x e
    | Inr y \<Rightarrow> code_answer P u key r b = Inr y"
proof (cases "TrimSpace u = '''' \<or> \<not> documented_request r")
  case True
  show ?thesis
  proof (cases "TrimSpace u = ''''")
    case True
    then show ?thesis using refused_plain(1) [of NotAllowed] by (simp add: documented_answer_def code_answer_def)
  next
    case False
    with True have "\<not> valid_request r" by (simp add: valid_documented)
    with Validate_Inl obtain e where "CreateTransfer_Validate r = Inl e" by blast
    then show ?thesis
      using True False invalid_refused by (auto simp: documented_answer_def code_answer_def)
  qed
next
  case False
  then have "CreateTransfer_Validate r = Inr ()" using assms(2) by (simp add: Validate_Inr_iff valid_documented)
  moreover note refused_plain(2) [of NotAllowed "''create transfer''"] refused_plain(2) [of NoDestination "''create transfer''"]
    refused_plain(2) [of OtherCurrency "''create transfer''"] refused_plain(2) [of KeyReused "''create transfer''"]
    refused_plain(2) [of BalanceLimit "''create transfer''"]
  ultimately show ?thesis
    using False key assms(3)
    by (auto simp: documented_answer_def code_answer_def code_answer_tx_def crowded_retry_def Let_def
        split: option.splits)
qed

text \<open>The whole call on PostgreSQL.\<close>

lemma service_documented:
  assumes inv: "pg_inv P db" and c: "healthy c" "fresh_draw c db" and texts: "texts_ok u r"
    and key: "key_of P key = Some k"
    and agree: "\<not> wide_description r" "\<not> crowded_retry u k r (db_bank P db)"
  shows "case documented_answer u k r (db_bank P db) of
      Inl x \<Rightarrow> \<exists>e. service_Create P c u key r db = (db, Inl e) \<and> refused_as x e
    | Inr (st, created) \<Rightarrow> \<exists>db' tr. service_Create P c u key r db = (db', Inr (tr, created)) \<and>
        tr_status tr = st \<and> transfer_at P db' (u, k) = Some (tr, r) \<and>
        (created \<longleftrightarrow> transfer_at P db (u, k) = None) \<and> (\<not> created \<longrightarrow> db' = db)"
proof -
  have "parseKey P key = Inr k" using key by (simp add: key_of_Some)
  note code = code_agrees [OF this agree] and run = service_answers [OF inv c texts, of key]
  show ?thesis
  proof (cases "documented_answer u k r (db_bank P db)")
    case (Inl x)
    with code run show ?thesis by auto
  next
    case (Inr y)
    then obtain st created where y: "y = (st, created)" by (cases y)
    with Inr code run obtain db' tr where res: "service_Create P c u key r db = (db', Inr (tr, created))"
      and st: "tr_status tr = st" by auto
    from service_stored [OF inv res] key have stored: "transfer_at P db' (u, k) = Some (tr, r)"
      "created \<longleftrightarrow> transfer_at P db (u, k) = None" by auto
    have "db' = db" if "\<not> created" using service_replay_keeps [OF inv] res that by simp
    with res st stored Inr y show ?thesis by auto
  qed
qed

end
