(* ===== verification/Api.thy ===== *)
theory Api
  imports Http_Routes Auth_Login Account_Service Documented
begin

text \<open>
  \<^verbatim>\<open>cmd/api/main.go\<close>, the wiring of \<^verbatim>\<open>run\<close>: the handler of \<^verbatim>\<open>internal/httpapi\<close> over the
  services, and the services over the PostgreSQL repositories. A request is served with
  \<open>api_serve\<close>; \<open>serve_all\<close> serves a sequence of requests. The lemmas reduce what a request does
  to the database to at most one call of the transfer service, and say how it is answered.
\<close>

subsection \<open>Wiring\<close>

text \<open>The libraries and the embedded document that the process is linked with.\<close>

record externals =
  ex_pg :: pg
  ex_jwt :: jwt
  ex_bcrypt :: bcrypt
  ex_openapi :: string

text \<open>What \<^verbatim>\<open>run\<close> builds before it serves: the two services with state of their own.\<close>

record app =
  app_tokens :: token_service
  app_login :: login_service
  app_timeout :: int

text \<open>
  The literal \<^verbatim>\<open>httpapi.Dependencies\<close> of \<^verbatim>\<open>run\<close>. \<open>c\<close> is what happens at the database during the
  request and \<open>now\<close> the clock that the token service reads.
\<close>

definition api_dependencies :: "externals \<Rightarrow> app \<Rightarrow> pg_call \<Rightarrow> time \<Rightarrow> db dependencies" where
  "api_dependencies X app c now =
     \<lparr>dep_Verify = Verify (ex_jwt X) (app_tokens app) now,
      dep_Login = (\<lambda>db email password.
        snd (Login (ex_jwt X) (ex_bcrypt X) (NewUserRepository (ex_pg X) c) (app_login app) db now email password)),
      dep_CreateTransfer = (\<lambda>db u key r. service_Create (ex_pg X) c u key r db),
      dep_GetTransfer = service_Get (ex_pg X) c,
      dep_ListAccounts = Account_List (NewAccountService (NewAccountRepository (ex_pg X) c)),
      dep_GetAccount = Account_Get (NewAccountService (NewAccountRepository (ex_pg X) c)),
      dep_Ready = Some (\<lambda>db. case exec c StmtPing (Inr ()) of Inl e \<Rightarrow> Some e | Inr _ \<Rightarrow> None),
      dep_RequestTimeout = app_timeout app,
      dep_uuid_Scan = pg_uuid_scan (ex_pg X),
      dep_OpenAPISpec = ex_openapi X\<rparr>"

subsection \<open>Serving requests\<close>

type_synonym api_request = "pg_call \<times> request_env \<times> http_request"

definition fresh_world :: "'s \<Rightarrow> 's world" where
  "fresh_world s = \<lparr>wd_store = s, wd_writer = new_writer, wd_log = []\<rparr>"

definition api_serve :: "externals \<Rightarrow> app \<Rightarrow> api_request \<Rightarrow> db \<Rightarrow> db world" where
  "api_serve X app q db =
     (case q of (c, env, r) \<Rightarrow>
        fst (NewHandler (api_dependencies X app c (re_now env)) env r (fresh_world db)))"

primrec serve_all :: "externals \<Rightarrow> app \<Rightarrow> api_request list \<Rightarrow> db \<Rightarrow> db" where
  "serve_all X app [] db = db"
| "serve_all X app (q # qs) db = serve_all X app qs (wd_store (api_serve X app q db))"

text \<open>The call of the transfer service that a request makes, if it makes one.\<close>

definition api_call :: "externals \<Rightarrow> app \<Rightarrow> api_request \<Rightarrow> request_call option" where
  "api_call X app q =
     (case q of (c, env, r) \<Rightarrow>
        map_option (\<lambda>(u, key, request). (c, u, key, request))
          (transfer_call (api_dependencies X app c (re_now env)) r))"

lemma pristine_fresh [simp]: "pristine (wd_writer (fresh_world s))"
  by (simp add: pristine_def fresh_world_def new_writer_def)

lemma fresh_world_sel [simp]: "wd_store (fresh_world s) = s" "wd_log (fresh_world s) = []"
  by (simp_all add: fresh_world_def)

lemma transfer_call_tagged [simp]: "transfer_call d (tagged d env r) = transfer_call d r"
  by (simp add: tagged_def)

lemma api_serve_store:
  "wd_store (api_serve X app q db) =
     (case api_call X app q of
        None \<Rightarrow> db
      | Some (c, u, key, request) \<Rightarrow> fst (service_Create (ex_pg X) c u key request db))"
proof (cases q)
  case (fields c env r)
  let ?d = "api_dependencies X app c (re_now env)"
  have "wd_store (api_serve X app q db) =
      wd_store (fst (mux_ServeHTTP ?d (tagged ?d env r) (inner_world env r (fresh_world db))))"
    using NewHandler_answers [of "fresh_world db" ?d env r] by (auto simp: api_serve_def fields)
  also have "\<dots> = (case transfer_call ?d r of None \<Rightarrow> db
      | Some (u, key, request) \<Rightarrow> fst (dep_CreateTransfer ?d db u key request))"
    by (simp add: mux_store inner_world_def split: option.split)
  finally show ?thesis
    by (simp add: api_call_def fields api_dependencies_def split: option.split)
qed

text \<open>A history of requests is the history of the calls they make.\<close>

lemma serve_all_calls:
  "serve_all X app qs db = run_calls (ex_pg X) (List.map_filter (api_call X app) qs) db"
proof (induction qs arbitrary: db)
  case (Cons q qs)
  then show ?case
    by (cases "api_call X app q") (auto simp: api_serve_store List.map_filter_simps)
qed (simp add: List.map_filter_simps)

text \<open>Who stands behind a call.\<close>

lemma api_call_Some:
  assumes "api_call X app (c, env, r) = Some (c', u, key, request)"
  shows "c' = c" and "\<exists>raw cl. bearer_token r = Some raw \<and>
    Verify (ex_jwt X) (app_tokens app) (re_now env) raw = Inr cl \<and> cl_subject cl = u \<and>
    HasPermission cl PermissionTransfersCreate"
    "decoded_transfer r = Some request" "transfer_key_of (pg_uuid_scan (ex_pg X)) r = Some key"
    "rq_method r = ''POST''" "rq_path r = [''transfers'']"
proof -
  from assms show "c' = c" by (auto simp: api_call_def)
  from assms have t: "transfer_call (api_dependencies X app c (re_now env)) r = Some (u, key, request)"
    by (auto simp: api_call_def)
  then show "\<exists>raw cl. bearer_token r = Some raw \<and>
    Verify (ex_jwt X) (app_tokens app) (re_now env) raw = Inr cl \<and> cl_subject cl = u \<and>
    HasPermission cl PermissionTransfersCreate"
    by (auto simp: transfer_call_def authenticated_def api_dependencies_def
        split: mux_match.splits route.splits option.splits if_splits sum.splits)
  from t show "decoded_transfer r = Some request" "transfer_key_of (pg_uuid_scan (ex_pg X)) r = Some key"
    by (auto simp: transfer_call_def api_dependencies_def
        split: mux_match.splits route.splits option.splits if_splits)
  from t show "rq_method r = ''POST''" "rq_path r = [''transfers'']"
    using mux_Handler_create by (auto simp: transfer_call_def split: mux_match.splits route.splits)
qed

subsection \<open>The answer to POST /transfers\<close>

text \<open>
  The status that the tables of \<^verbatim>\<open>README.md\<close> and \<^verbatim>\<open>openapi.yaml\<close> give for each refusal, and the
  message of the error object.
\<close>

primrec refusal_status :: "refusal \<Rightarrow> nat" where
  "refusal_status NotAllowed = 403"
| "refusal_status InvalidRequest = 400"
| "refusal_status KeyReused = 409"
| "refusal_status NoDestination = 422"
| "refusal_status OtherCurrency = 422"
| "refusal_status BalanceLimit = 422"

primrec refusal_message :: "refusal \<Rightarrow> string" where
  "refusal_message NotAllowed = ''forbidden''"
| "refusal_message InvalidRequest = ''invalid transfer request''"
| "refusal_message KeyReused = ''idempotency key already used with a different request''"
| "refusal_message NoDestination = ''destination account not found''"
| "refusal_message OtherCurrency = ''currency does not match the accounts''"
| "refusal_message BalanceLimit = ''destination balance limit reached''"

lemma create_response_refusal:
  assumes "refused_as x e"
  shows "create_response (Inl e) q wd = respond (writeError (refusal_status x) (refusal_message x)) wd"
proof -
  have "errors_Is e ErrForbidden \<longleftrightarrow> x = NotAllowed" "errors_Is e ErrInvalidTransfer \<longleftrightarrow> x = InvalidRequest"
    "errors_Is e ErrIdempotencyConflict \<longleftrightarrow> x = KeyReused" "errors_Is e ErrDestinationNotFound \<longleftrightarrow> x = NoDestination"
    "errors_Is e ErrCurrencyMismatch \<longleftrightarrow> x = OtherCurrency" "errors_Is e ErrBalanceOverflow \<longleftrightarrow> x = BalanceLimit"
    using assms [unfolded refused_as_def, rule_format, of NotAllowed] assms [unfolded refused_as_def, rule_format, of InvalidRequest]
      assms [unfolded refused_as_def, rule_format, of KeyReused] assms [unfolded refused_as_def, rule_format, of NoDestination]
      assms [unfolded refused_as_def, rule_format, of OtherCurrency] assms [unfolded refused_as_def, rule_format, of BalanceLimit]
    by auto
  then show ?thesis by (cases x) (simp_all add: create_response_def)
qed

lemma create_response_ok:
  assumes "pristine (wd_writer wd)"
  shows "answered (transferStatusCode tr created) (JsonTransfer tr)
      (wd_writer (create_response (Inr (tr, created)) q wd))"
    and "rw_sent (wd_writer (create_response (Inr (tr, created)) q wd)) ''Idempotent-Replayed'' =
      (if created then rw_header (wd_writer wd) ''Idempotent-Replayed'' else Some ''true'')"
  using assms answered_writeJSON(2)
  by (auto simp: create_response_def header_Set_def intro!: answered_writeJSON)
     (auto simp: header_Set_def pristine_def)

text \<open>
  What reaches the client of a request that makes a call: the response of the handler to the
  answer of the service. It does not depend on the database in any other way.
\<close>

definition api_respond :: "externals \<Rightarrow> app \<Rightarrow> api_request \<Rightarrow> go_error + (transfer \<times> bool) \<Rightarrow> response_writer" where
  "api_respond X app q res =
     (case q of (c, env, r) \<Rightarrow>
        wd_writer (fst (NewHandler
          ((api_dependencies X app c (re_now env))\<lparr>dep_CreateTransfer := (\<lambda>db u key request. (db, res))\<rparr>)
          env r (fresh_world \<lparr>db_users = [], db_accounts = [], db_transfers = [], db_ledger = []\<rparr>))))"

lemma create_response_writer:
  "wd_writer wd = wd_writer wd' \<Longrightarrow> wd_writer (create_response res q wd) = wd_writer (create_response res q' wd')"
  by (simp add: create_response_def log_error_def split: sum.split prod.split)

text \<open>The writer as the handler of \<^verbatim>\<open>POST /transfers\<close> finds it.\<close>

definition post_writer :: "request_env \<Rightarrow> http_request \<Rightarrow> response_writer" where
  "post_writer env r = header_Set ''Cache-Control'' ''no-store'' (wd_writer (inner_world env r (fresh_world ())))"

lemma post_writer_fresh [simp]: "pristine (post_writer env r)" "rw_header (post_writer env r) ''Idempotent-Replayed'' = None"
  by (simp_all add: post_writer_def inner_world_def pristine_def header_Set_def fresh_world_def new_writer_def)

lemma NewHandler_call:
  assumes "transfer_call d r = Some (u, key, request)"
  shows "wd_writer (fst (NewHandler d env r (fresh_world s))) =
    (wd_writer (create_response (snd (dep_CreateTransfer d s u key request)) q
      \<lparr>wd_store = s', wd_writer = post_writer env r, wd_log = []\<rparr>))\<lparr>rw_recorder := None\<rparr>"
proof -
  let ?wd = "inner_world env r (fresh_world s)"
  have "transfer_call d (tagged d env r) = Some (u, key, request)" using assms by simp
  from mux_transfer_call [OF this, of ?wd] obtain q' where
    mux: "wd_writer (fst (mux_ServeHTTP d (tagged d env r) ?wd)) =
      wd_writer (create_response (snd (dep_CreateTransfer d s u key request)) q'
        ((respond (header_Set ''Cache-Control'' ''no-store'') ?wd)\<lparr>wd_store := fst (dep_CreateTransfer d s u key request)\<rparr>))"
    by (cases "dep_CreateTransfer d s u key request") auto
  have "wd_writer (fst (NewHandler d env r (fresh_world s))) =
      (wd_writer (fst (mux_ServeHTTP d (tagged d env r) ?wd)))\<lparr>rw_recorder := None\<rparr>"
    using NewHandler_mux [of "fresh_world s" d env r] by (simp add: Let_def)
  also have "wd_writer (fst (mux_ServeHTTP d (tagged d env r) ?wd)) =
      wd_writer (create_response (snd (dep_CreateTransfer d s u key request)) q
        \<lparr>wd_store = s', wd_writer = post_writer env r, wd_log = []\<rparr>)"
    unfolding mux by (rule create_response_writer) (simp add: post_writer_def inner_world_def fresh_world_def)
  finally show ?thesis .
qed

lemma api_respond_call:
  assumes "api_call X app (c, env, r) = Some (c', u, key, request)"
  shows "api_respond X app (c, env, r) res =
    (wd_writer (create_response res r \<lparr>wd_store = (), wd_writer = post_writer env r, wd_log = []\<rparr>))\<lparr>rw_recorder := None\<rparr>"
proof -
  let ?d = "(api_dependencies X app c (re_now env))\<lparr>dep_CreateTransfer := (\<lambda>db u key request. (db, res))\<rparr>"
  have same: "dep_Verify ?d = dep_Verify (api_dependencies X app c (re_now env))"
    "dep_uuid_Scan ?d = dep_uuid_Scan (api_dependencies X app c (re_now env))" by simp_all
  have "transfer_call ?d r = transfer_call (api_dependencies X app c (re_now env)) r"
    unfolding transfer_call_def same ..
  then have "transfer_call ?d r = Some (u, key, request)"
    using assms by (auto simp: api_call_def)
  from NewHandler_call [OF this] show ?thesis by (simp add: api_respond_def)
qed

lemma api_serve_writer:
  assumes "api_call X app (c, env, r) = Some (c', u, key, request)"
  shows "wd_writer (api_serve X app (c, env, r) db) =
    api_respond X app (c, env, r) (snd (service_Create (ex_pg X) c u key request db))"
proof -
  let ?d = "api_dependencies X app c (re_now env)"
  have "transfer_call ?d r = Some (u, key, request)" using assms by (auto simp: api_call_def)
  from NewHandler_call [OF this, of env db r] show ?thesis
    by (simp add: api_serve_def api_respond_call [OF assms] api_dependencies_def)
qed

lemma api_respond_refusal:
  assumes "api_call X app (c, env, r) = Some (c', u, key, request)" and "refused_as x e"
  shows "rw_status (api_respond X app (c, env, r) (Inl e)) = Some (refusal_status x)"
    and "rw_body (api_respond X app (c, env, r) (Inl e)) = [JsonError (refusal_message x)]"
proof -
  let ?wd = "\<lparr>wd_store = (), wd_writer = post_writer env r, wd_log = []\<rparr>"
  have "pristine (wd_writer ?wd)" by simp
  from answered_writeError [OF this] show
    "rw_status (api_respond X app (c, env, r) (Inl e)) = Some (refusal_status x)"
    "rw_body (api_respond X app (c, env, r) (Inl e)) = [JsonError (refusal_message x)]"
    unfolding api_respond_call [OF assms(1)] create_response_refusal [OF assms(2)] answered_def by simp_all
qed

lemma api_respond_ok:
  assumes "api_call X app (c, env, r) = Some (c', u, key, request)"
  shows "rw_status (api_respond X app (c, env, r) (Inr (tr, created))) = Some (transferStatusCode tr created)"
    and "rw_body (api_respond X app (c, env, r) (Inr (tr, created))) = [JsonTransfer tr]"
    and "rw_sent (api_respond X app (c, env, r) (Inr (tr, created))) ''Idempotent-Replayed'' =
      (if created then None else Some ''true'')"
proof -
  let ?wd = "\<lparr>wd_store = (), wd_writer = post_writer env r, wd_log = []\<rparr>"
  have "pristine (wd_writer ?wd)" by simp
  note response = create_response_ok [OF this, of tr created r]
  from response(1) show "rw_status (api_respond X app (c, env, r) (Inr (tr, created))) = Some (transferStatusCode tr created)"
    "rw_body (api_respond X app (c, env, r) (Inr (tr, created))) = [JsonTransfer tr]"
    unfolding api_respond_call [OF assms] answered_def by simp_all
  from response(2) show "rw_sent (api_respond X app (c, env, r) (Inr (tr, created))) ''Idempotent-Replayed'' =
      (if created then None else Some ''true'')"
    unfolding api_respond_call [OF assms] by simp
qed

end
