(* ===== verification/Sample_Access.thy ===== *)
theory Sample_Access
  imports Sample Auth_Login
begin

text \<open>
  Concrete instances of the libraries behind tokens and passwords, on which the documented
  behaviour assumed of them is seen to be possible: a token that is its own signed content in
  the clear, and a password hash that is the password with a mark.
\<close>

subsection \<open>Packing strings\<close>

definition pack :: "string list \<Rightarrow> string" where
  "pack ss = concat (map (\<lambda>s. concat (map (\<lambda>c. [CHR ''+'', c]) s) @ ''.'') ss)"

fun unpack :: "string \<Rightarrow> string \<Rightarrow> string list" where
  "unpack acc (m # cs) =
     (if m = CHR ''+'' then (case cs of c # cs' \<Rightarrow> unpack (acc @ [c]) cs' | [] \<Rightarrow> [])
      else acc # unpack [] cs)"
| "unpack acc [] = []"

lemma unpack_word: "unpack acc (concat (map (\<lambda>c. [CHR ''+'', c]) s) @ ''.'' @ rest) = (acc @ s) # unpack [] rest"
  by (induction s arbitrary: acc) auto

lemma unpack_pack [simp]: "unpack [] (pack ss) = ss"
proof (induction ss)
  case (Cons s ss)
  have "unpack [] (pack (s # ss)) = unpack [] (concat (map (\<lambda>c. [CHR ''+'', c]) s) @ ''.'' @ pack ss)"
    by (simp add: pack_def)
  with Cons show ?case by (simp only: unpack_word) simp
qed (simp add: pack_def)

subsection \<open>Tokens\<close>

definition pack_int :: "int \<Rightarrow> string" where
  "pack_int n = (if n < 0 then CHR ''-'' # nat_decimal (nat (- n)) else CHR ''+'' # nat_decimal (nat n))"

definition unpack_int :: "string \<Rightarrow> int" where
  "unpack_int s = (if hd s = CHR ''-'' then - int (decimal_val (tl s)) else int (decimal_val (tl s)))"

lemma unpack_pack_int [simp]: "unpack_int (pack_int n) = n"
  by (simp add: pack_int_def unpack_int_def decimal_val_nat_decimal)

lemma pack_int_not_Nil [simp]: "pack_int n \<noteq> []"
  by (simp add: pack_int_def)

definition pack_date :: "time option \<Rightarrow> string" where
  "pack_date t = (case t of None \<Rightarrow> '''' | Some t \<Rightarrow> pack_int t)"

definition unpack_date :: "string \<Rightarrow> time option" where
  "unpack_date s = (if s = '''' then None else Some (unpack_int s))"

lemma unpack_pack_date [simp]: "unpack_date (pack_date t) = t"
  by (cases t) (simp_all add: pack_date_def unpack_date_def)

definition pack_token :: "string \<Rightarrow> string \<Rightarrow> claims \<Rightarrow> string" where
  "pack_token alg key c =
     pack [alg, key, cl_issuer c, cl_subject c, pack (cl_audience c), pack_date (cl_expires_at c),
       pack_date (cl_not_before c), pack_date (cl_issued_at c), cl_id c, pack (cl_permissions c)]"

definition unpack_token :: "string \<Rightarrow> (string \<times> string \<times> claims) option" where
  "unpack_token raw =
     (case unpack [] raw of
        [alg, key, iss, sub, aud, ex, nb, iat, i, perms] \<Rightarrow>
          Some (alg, key, \<lparr>cl_issuer = iss, cl_subject = sub, cl_audience = unpack [] aud,
            cl_expires_at = unpack_date ex, cl_not_before = unpack_date nb, cl_issued_at = unpack_date iat,
            cl_id = i, cl_permissions = unpack [] perms\<rparr>)
      | _ \<Rightarrow> None)"

lemma unpack_pack_token [simp]: "unpack_token (pack_token alg key c) = Some (alg, key, c)"
  by (simp add: unpack_token_def pack_token_def)

definition sample_jwt :: jwt where
  "sample_jwt =
     \<lparr>jwt_NewNumericDate = (\<lambda>t. t - t mod time_Second),
      jwt_SignedString = (\<lambda>alg c key. Inr (pack_token alg key c)),
      jwt_parse = (\<lambda>opts validate key now raw.
        case unpack_token raw of
          Some (alg, k, c) \<Rightarrow>
            if k = key \<and> alg \<in> set (opt_valid_methods opts) \<and> options_hold opts validate now c
            then Inr (c, True) else Inl ErrInvalidToken
        | None \<Rightarrow> Inl ErrInvalidToken),
      jwt_signed = (\<lambda>alg key raw c. unpack_token raw = Some (alg, key, c))\<rparr>"

lemma sample_jwt_documented: "jwt_documented sample_jwt"
  unfolding jwt_documented_def
proof (intro conjI)
  show "dates_truncate sample_jwt" by (simp add: dates_truncate_def sample_jwt_def)
  show "parse_sound sample_jwt"
    by (auto simp: parse_sound_def sample_jwt_def split: option.splits if_splits)
  show "parse_complete sample_jwt"
    by (auto simp: parse_complete_def sample_jwt_def)
qed

subsection \<open>Passwords and users\<close>

definition sample_bcrypt :: bcrypt where
  "sample_bcrypt =
     \<lparr>bc_GenerateFromPassword = (\<lambda>salt password. Inr (''hash:'' @ password)),
      bc_matches = (\<lambda>hash password. hash = ''hash:'' @ password)\<rparr>"

lemma sample_bcrypt_documented: "bcrypt_documented sample_bcrypt"
  by (simp add: bcrypt_documented_def sample_bcrypt_def)

definition sample_user :: "string \<Rightarrow> string \<Rightarrow> user" where
  "sample_user i email =
     \<lparr>usr_id = i, usr_email = email, usr_password_hash = ''hash:secret'',
      usr_permissions = [PermissionAccountsRead, PermissionTransfersCreate]\<rparr>"

definition sample_bank :: db where
  "sample_bank = sample_db\<lparr>db_users := [sample_user ''alice'' ''alice@x'', sample_user ''bob'' ''bob@x'',
     sample_user ''carol'' ''carol@x'']\<rparr>"

lemma sample_bank_inv: "pg_inv sample_pg sample_bank" and sample_bank_users: "users_ok sample_pg sample_bank"
proof -
  have "db_ok sample_bank" by code_simp
  then show "pg_inv sample_pg sample_bank" by (simp add: pg_inv_def sample_documented)
  show "users_ok sample_pg sample_bank" by code_simp
qed

definition sample_key :: string where
  "sample_key = ''key''"

definition sample_tokens :: token_service where
  "sample_tokens = \<lparr>ts_key = sample_key, ts_issuer = ''bank'', ts_audience = ''api''\<rparr>"

definition sample_login :: login_service where
  "sample_login = NewLoginService sample_bcrypt '''' sample_tokens"

text \<open>The token that Alice gets when she logs in at time 5.\<close>

definition sample_claims :: claims where
  "sample_claims = issued_claims sample_jwt sample_tokens 5 ''alice''
     [PermissionAccountsRead, PermissionTransfersCreate]"

definition sample_token :: string where
  "sample_token = pack_token HS256 sample_key sample_claims"

lemma sample_issues:
  "Issue sample_jwt sample_tokens 5 ''alice'' [PermissionAccountsRead, PermissionTransfersCreate] = Inr sample_token"
proof -
  have "TrimSpace ''alice'' \<noteq> ''''" by code_simp
  then show ?thesis
    by (simp add: Issue_def sample_token_def sample_claims_def sample_jwt_def sample_tokens_def)
qed

lemma sample_utf8:
  "list_all utf8_valid (''alice'' # ts_issuer sample_tokens # ts_audience sample_tokens #
     [PermissionAccountsRead, PermissionTransfersCreate])"
  by code_simp

lemma sample_verifies: "5 \<le> now \<Longrightarrow> now < 100 \<Longrightarrow> Verify sample_jwt sample_tokens now sample_token = Inr sample_claims"
  unfolding sample_claims_def
  by (rule Issue_verifies [OF sample_jwt_documented sample_issues sample_utf8])
    (simp_all add: sample_jwt_def AccessTokenTTL_def time_Minute_def time_Second_def)

lemma sample_logs_in:
  "Login sample_jwt sample_bcrypt (NewUserRepository sample_pg (sample_call 1)) sample_login sample_bank 5
     '' alice@x '' ''secret'' = ([''hash:secret''], Inr sample_token)"
proof -
  have "TrimSpace '' alice@x '' = ''alice@x''" by code_simp
  moreover have "FindByEmail sample_pg (sample_call 1) sample_bank ''alice@x'' = Inr (sample_user ''alice'' ''alice@x'')"
    by code_simp
  ultimately show ?thesis
    using sample_issues
    by (simp add: Login_def sample_user_def sample_bcrypt_def sample_login_def NewLoginService_def)
qed

end
