(* ===== verification/Sample_Api.thy ===== *)
theory Sample_Api
  imports Api Sample_Access
begin

text \<open>
  A concrete deployment of the API and a request to it: Alice, holding the token of her login,
  pays Bob 30 by \<^verbatim>\<open>POST /transfers\<close>.
\<close>

subsection \<open>Bodies\<close>

lemma scan_blank: "scan_value ''  '' = NeedMore"
  by code_simp

lemma decode_object:
  assumes "json_ok max_nesting_depth (JObject kvs)" and "limited_body r = (encode_json (JObject kvs), StreamEOF)"
    and "ParseMediaType (header_Get r ''Content-Type'') = Some ''application/json''"
    and "decode_members True fs kvs zero None = Inr x"
  shows "decodeJSON fs zero r w = Inr x"
proof -
  have "scan_value (encode_json (JObject kvs) @ '' '') = Scanned (JObject kvs) '' ''"
    using assms(1) by (rule scan_encoded_object)
  then have "decode_next (encode_json (JObject kvs)) StreamEOF = Inr (JObject kvs, '' '')"
    by (simp add: decode_next_def)
  moreover have "decode_next '' '' StreamEOF = Inl DecodeEOF"
    using scan_blank by (simp add: decode_next_def is_json_space_def)
  ultimately show ?thesis
    using assms(2-4) by (simp add: decodeJSON_def decode_pointer_def)
qed

lemma decode_transfer_body:
  assumes "request_utf8 q" and "distinct (map fst kvs)" and "set kvs = set (marshal_create_transfer q)"
    and "ParseMediaType (header_Get r ''Content-Type'') = Some ''application/json''"
    and "rq_body r = encode_json (JObject kvs)" and "length (rq_body r) \<le> maxBodyBytes" and "\<not> rq_broken r"
  shows "decodeJSON create_transfer_fields zero_create_transfer r w = Inr q"
proof (rule decode_object [OF _ _ assms(4) decode_marshal [OF assms(1-3)]])
  have "json_ok max_nesting_depth (JObject (marshal_create_transfer q))"
    using marshal_json_ok [OF assms(1), of "max_nesting_depth - 1"] by (simp add: max_nesting_depth_def)
  with assms(3) show "json_ok max_nesting_depth (JObject kvs)"
    by (simp add: max_nesting_depth_def numeral_eq_Suc list_all_iff)
  show "limited_body r = (encode_json (JObject kvs), StreamEOF)"
    using assms(5-7) by (simp add: limited_body_def)
qed

subsection \<open>A deployment and a request\<close>

definition sample_externals :: externals where
  "sample_externals = \<lparr>ex_pg = sample_pg, ex_jwt = sample_jwt, ex_bcrypt = sample_bcrypt, ex_openapi = ''openapi''\<rparr>"

definition sample_app :: app where
  "sample_app = \<lparr>app_tokens = sample_tokens, app_login = sample_login, app_timeout = 10 * time_Second\<rparr>"

definition sample_env :: request_env where
  "sample_env = \<lparr>re_random = ''12345678'', re_now = 7, re_duration = ''app;dur=0.1''\<rparr>"

definition sample_headers :: "string \<Rightarrow> string list" where
  "sample_headers name =
     (if name = ''Authorization'' then [''bearer '' @ sample_token]
      else if name = ''Idempotency-Key'' then [''42'']
      else if name = ''Content-Type'' then [''application/json'']
      else [])"

definition sample_body :: string where
  "sample_body = encode_json (JObject (marshal_create_transfer (sample_request ''a'' ''b'' 30)))"

definition sample_http :: http_request where
  "sample_http =
     \<lparr>rq_method = ''POST'', rq_path = [''transfers''], rq_headers = sample_headers, rq_body = sample_body,
      rq_broken = False, rq_claims = None, rq_request_id = None, rq_deadline = None, rq_path_id = ''''\<rparr>"

lemma sample_digits: "digit_char 9 = CHR ''9''" "digit_char 0 = CHR ''0''"
  by code_simp+

lemma sample_token_text:
  "sample_token = pack [''HS256'', sample_key, ''bank'', ''alice'', pack [''api''], ''+900000000000'', '''', ''+0'', '''',
     pack [PermissionAccountsRead, PermissionTransfersCreate]]"
  by (simp add: sample_token_def sample_claims_def pack_token_def issued_claims_def sample_tokens_def HS256_def
      sample_jwt_def pack_date_def pack_int_def time_Second_def AccessTokenTTL_def time_Minute_def
      nat_decimal.simps sample_digits)

lemma sample_bearer: "bearer_token sample_http = Some sample_token"
  unfolding bearer_token_def sample_http_def sample_headers_def sample_token_text
  by code_simp

lemma sample_body_length: "length sample_body \<le> maxBodyBytes"
proof -
  have "length sample_body \<le> 200" by code_simp
  then show ?thesis by (simp add: maxBodyBytes_def)
qed

lemma sample_content_type: "ParseMediaType (header_Get sample_http ''Content-Type'') = Some ''application/json''"
proof -
  have "ParseMediaType ''application/json'' = Some ''application/json''" by code_simp
  then show ?thesis by (simp add: header_Get_def sample_http_def sample_headers_def)
qed

lemma sample_request_utf8: "request_utf8 (sample_request ''a'' ''b'' 30)"
  by code_simp

lemma sample_decodes: "decoded_transfer sample_http = Some (sample_request ''a'' ''b'' 30)"
proof -
  have "decodeJSON create_transfer_fields zero_create_transfer sample_http new_writer =
      Inr (sample_request ''a'' ''b'' 30)"
    by (rule decode_transfer_body [OF sample_request_utf8 marshal_distinct refl sample_content_type])
      (use sample_body_length in \<open>simp_all add: sample_http_def sample_body_def\<close>)
  then show ?thesis by (simp add: decoded_transfer_Some)
qed

lemma sample_api_call:
  "api_call sample_externals sample_app (c, sample_env, sample_http) =
     Some (c, ''alice'', ''42'', sample_request ''a'' ''b'' 30)"
proof -
  let ?d = "api_dependencies sample_externals sample_app c 7"
  have m: "mux_Handler ''POST'' [''transfers''] = Matched ''POST /transfers'' RouteCreateTransfer ''''"
    by code_simp
  have "transfer_key_of (pg_uuid_scan sample_pg) sample_http = Some ''42''"
  proof -
    have "TrimSpace ''42'' = ''42''" "pg_uuid_scan sample_pg ''42'' = Some 42" by code_simp+
    then show ?thesis by (simp add: transfer_key_of_def sample_http_def sample_headers_def)
  qed
  moreover have "authenticated (Verify sample_jwt sample_tokens 7) sample_http = Some sample_claims"
    using sample_verifies [of 7] by (simp add: authenticated_def sample_bearer)
  moreover have "HasPermission sample_claims PermissionTransfersCreate"
    by (simp add: HasPermission_iff sample_claims_def issued_claims_def PermissionTransfersCreate_def)
  moreover have "cl_subject sample_claims = ''alice''" by (simp add: sample_claims_def issued_claims_def)
  ultimately show ?thesis
    using m sample_decodes
    by (simp add: api_call_def transfer_call_def api_dependencies_def sample_externals_def sample_app_def
        sample_env_def sample_http_def)
qed

end
