(* ===== verification/Http_Results.thy ===== *)
theory Http_Results
  imports Sample_Api
begin

text \<open>
  What the HTTP interface promises: decoding of bodies, protection of routes, one logged
  response per request, and the answers to \<^verbatim>\<open>POST /transfers\<close> over the whole stack from the
  bytes of the request to the rows of the database.
\<close>

subsection \<open>Request bodies\<close>

text \<open>
  C33. A transfer request that a client encodes as one JSON object, with its members in any
  order, is decoded to exactly that request when it fits the size limit and is declared as
  JSON.
\<close>

theorem request_body_round_trip:
  assumes "request_utf8 q" and "distinct (map fst kvs)" and "set kvs = set (marshal_create_transfer q)"
    and "ParseMediaType (header_Get r ''Content-Type'') = Some ''application/json''"
    and "rq_body r = encode_json (JObject kvs)" and "length (rq_body r) \<le> maxBodyBytes" and "\<not> rq_broken r"
  shows "decodeJSON create_transfer_fields zero_create_transfer r w = Inr q"
  using assms by (rule decode_transfer_body)

theorem request_body_round_trip_witness:
  "decodeJSON create_transfer_fields zero_create_transfer sample_http new_writer =
     Inr (sample_request ''a'' ''b'' 30)"
  by (rule request_body_round_trip [OF sample_request_utf8 marshal_distinct refl sample_content_type])
    (use sample_body_length in \<open>simp_all add: sample_http_def sample_body_def\<close>)

text \<open>
  C34. A body is accepted only if it is declared as JSON, is not longer than 64 KiB and arrives
  completely; every other body is answered with 400, 413 or 415.
\<close>

theorem accepted_body_is_bounded:
  assumes "pristine w"
  shows "case decodeJSON fs zero r w of
      Inr x \<Rightarrow> ParseMediaType (header_Get r ''Content-Type'') = Some ''application/json'' \<and>
        length (rq_body r) \<le> 64 * 1024 \<and> \<not> rq_broken r
    | Inl w' \<Rightarrow> rw_status w' \<in> Some ` {400, 413, 415} \<and> length (rw_body w') = 1"
proof (cases "decodeJSON fs zero r w")
  case (Inl w')
  from answered_decodeJSON [OF assms Inl] Inl show ?thesis by (auto simp: answered_def)
next
  case (Inr x)
  have eof: "decode_next data ending = Inl DecodeEOF \<Longrightarrow> ending = StreamEOF" for data ending
    by (auto simp: decode_next_def split: scan_outcome.splits stream_end.splits if_splits)
  from Inr obtain data ending rest where b: "limited_body r = (data, ending)"
    and e: "decode_next rest ending = Inl DecodeEOF"
    and t: "ParseMediaType (header_Get r ''Content-Type'') = Some ''application/json''"
    by (auto simp: decodeJSON_def split: if_splits prod.splits sum.splits option.splits decode_error.splits)
  from b eof [OF e] have "length (rq_body r) \<le> maxBodyBytes" "\<not> rq_broken r"
    by (auto simp: limited_body_def split: if_splits)
  with Inr t show ?thesis by (simp add: maxBodyBytes_def)
qed

theorem accepted_body_is_bounded_witness:
  "rw_status (projl (decodeJSON create_transfer_fields zero_create_transfer
     (sample_http\<lparr>rq_headers := (\<lambda>_. [])\<rparr>) new_writer)) \<in> Some ` {400, 413, 415}"
proof -
  let ?r = "sample_http\<lparr>rq_headers := (\<lambda>_. [])\<rparr>"
  have "ParseMediaType '''' = None" by code_simp
  then have "isl (decodeJSON create_transfer_fields zero_create_transfer ?r new_writer)"
    by (simp add: decodeJSON_def header_Get_def)
  moreover have "pristine new_writer" by (simp add: pristine_def new_writer_def)
  ultimately show ?thesis
    using accepted_body_is_bounded
      [where w = new_writer and fs = create_transfer_fields and zero = zero_create_transfer and r = ?r]
    by (auto simp: isl_def)
qed

subsection \<open>Who gets through\<close>

text \<open>The permission that each protected route asks for.\<close>

definition route_permission :: "route \<Rightarrow> permission option" where
  "route_permission rt =
     (case rt of
        RouteAccounts \<Rightarrow> Some ''accounts:read'' | RouteAccount \<Rightarrow> Some ''accounts:read''
      | RouteCreateTransfer \<Rightarrow> Some ''transfers:create'' | RouteTransfer \<Rightarrow> Some ''transfers:read''
      | _ \<Rightarrow> None)"

lemma route_permission_handler:
  "route_permission rt = Some p \<Longrightarrow> \<exists>h. route_handler d rt = protect d p h"
  by (cases rt) (auto simp: route_permission_def route_handler_def PermissionAccountsRead_def
      PermissionTransfersCreate_def PermissionTransfersRead_def)

lemma NewHandler_writer:
  assumes "mux_ServeHTTP d (tagged d env r) (inner_world env r (fresh_world db)) = (respond f (inner_world env r (fresh_world db)), None)"
    and "answered status b (f (wd_writer (inner_world env r (fresh_world db))))"
  shows "rw_status (wd_writer (fst (NewHandler d env r (fresh_world db)))) = Some status"
    "rw_body (wd_writer (fst (NewHandler d env r (fresh_world db)))) = [b]"
    "wd_store (fst (NewHandler d env r (fresh_world db))) = db"
  using assms(2) by (simp_all add: NewHandler_mux Let_def assms(1) answered_def)

text \<open>
  C23. A protected route answers 401 to a request without one acceptable bearer token and 403
  to a token that lacks the permission of the route, in both cases without touching the
  database; only otherwise does its handler run.
\<close>

theorem protected_routes_refuse:
  assumes "mux_Handler (rq_method r) (rq_path r) = Matched pattern rt i" and "route_permission rt = Some p"
  shows "case authenticated (dep_Verify d) r of
      None \<Rightarrow> rw_status (wd_writer (fst (NewHandler d env r (fresh_world db)))) = Some 401 \<and>
        wd_store (fst (NewHandler d env r (fresh_world db))) = db
    | Some c \<Rightarrow> p \<notin> set (cl_permissions c) \<longrightarrow>
        rw_status (wd_writer (fst (NewHandler d env r (fresh_world db)))) = Some 403 \<and>
        wd_store (fst (NewHandler d env r (fresh_world db))) = db"
proof -
  from route_permission_handler [OF assms(2)] obtain h where h: "route_handler d rt = protect d p h" ..
  let ?wd = "inner_world env r (fresh_world db)"
  have w: "pristine (wd_writer ?wd)" by (simp add: inner_world_pristine)
  have mux: "mux_ServeHTTP d (tagged d env r) ?wd =
      (case authenticated (dep_Verify d) r of
         None \<Rightarrow> (respond unauthorized ?wd, None)
       | Some c \<Rightarrow> if HasPermission c p then h ((tagged d env r)\<lparr>rq_path_id := i, rq_claims := Some c\<rparr>) ?wd
                  else (respond forbidden ?wd, None))"
    using assms(1) by (simp add: mux_ServeHTTP_def h protect_def protected_cases tagged_def split: option.split)
  show ?thesis
  proof (cases "authenticated (dep_Verify d) r")
    case None
    then show ?thesis
      using NewHandler_writer(1,3) [where f = unauthorized, OF _ answered_unauthorized [OF w]] mux by simp
  next
    case (Some c)
    then show ?thesis
      using NewHandler_writer(1,3) [where f = forbidden, OF _ answered_forbidden [OF w]] mux by (simp add: HasPermission_iff)
  qed
qed

theorem protected_routes_refuse_witness:
  "rw_status (wd_writer (fst (NewHandler (api_dependencies sample_externals sample_app (sample_call 7) 7) sample_env
     (sample_http\<lparr>rq_headers := (\<lambda>_. [])\<rparr>) (fresh_world sample_db)))) = Some 401"
proof -
  let ?r = "sample_http\<lparr>rq_headers := (\<lambda>_. [])\<rparr>"
  have "mux_Handler ''POST'' [''transfers''] = Matched ''POST /transfers'' RouteCreateTransfer ''''"
    by code_simp
  then have m: "mux_Handler (rq_method ?r) (rq_path ?r) = Matched ''POST /transfers'' RouteCreateTransfer ''''"
    by (simp add: sample_http_def)
  have p: "route_permission RouteCreateTransfer = Some ''transfers:create''" by (simp add: route_permission_def)
  have "authenticated v ?r = None" for v by (simp add: authenticated_def bearer_token_def)
  with protected_routes_refuse [OF m p, of "api_dependencies sample_externals sample_app (sample_call 7) 7"
      sample_env sample_db] show ?thesis by simp
qed

text \<open>
  C21. A history of HTTP requests changes the database exactly as a history of calls of the
  transfer service, and behind every such call stands a \<^verbatim>\<open>POST /transfers\<close> of that history with
  a token that the service's key signed for the calling user and that grants the permission to
  create transfers. No currency gains or loses money.
\<close>

theorem requests_act_for_token_holders:
  assumes "jwt_documented (ex_jwt X)" and "pg_inv (ex_pg X) db"
  shows "\<exists>calls. serve_all X app qs db = run_calls (ex_pg X) calls db \<and>
    (\<forall>(c, u, key, q) \<in> set calls. \<exists>env r raw cl. (c, env, r) \<in> set qs \<and>
       rq_method r = ''POST'' \<and> rq_path r = [''transfers''] \<and> bearer_token r = Some raw \<and>
       jwt_signed (ex_jwt X) HS256 (ts_key (app_tokens app)) raw cl \<and> cl_subject cl = u \<and>
       ''transfers:create'' \<in> set (cl_permissions cl)) \<and>
    currency_sum cur (serve_all X app qs db) = currency_sum cur db"
proof (intro exI conjI)
  let ?calls = "List.map_filter (api_call X app) qs"
  show "serve_all X app qs db = run_calls (ex_pg X) ?calls db" by (rule serve_all_calls)
  show "\<forall>(c, u, key, q) \<in> set ?calls. \<exists>env r raw cl. (c, env, r) \<in> set qs \<and>
       rq_method r = ''POST'' \<and> rq_path r = [''transfers''] \<and> bearer_token r = Some raw \<and>
       jwt_signed (ex_jwt X) HS256 (ts_key (app_tokens app)) raw cl \<and> cl_subject cl = u \<and>
       ''transfers:create'' \<in> set (cl_permissions cl)"
  proof clarify
    fix c u key q
    assume "(c, u, key, q) \<in> set ?calls"
    then obtain c0 env r where r: "(c0, env, r) \<in> set qs" and call: "api_call X app (c0, env, r) = Some (c, u, key, q)"
      by (force simp: List.map_filter_def)
    note facts = api_call_Some [OF call]
    from facts(2) obtain raw cl where "bearer_token r = Some raw" "cl_subject cl = u"
      "Verify (ex_jwt X) (app_tokens app) (re_now env) raw = Inr cl" "HasPermission cl PermissionTransfersCreate"
      by blast
    with Verify_accepts(2) [OF assms(1)] r facts(1,5,6)
    show "\<exists>env r raw cl. (c, env, r) \<in> set qs \<and>
       rq_method r = ''POST'' \<and> rq_path r = [''transfers''] \<and> bearer_token r = Some raw \<and>
       jwt_signed (ex_jwt X) HS256 (ts_key (app_tokens app)) raw cl \<and> cl_subject cl = u \<and>
       ''transfers:create'' \<in> set (cl_permissions cl)"
      by (fastforce simp: HasPermission_iff PermissionTransfersCreate_def)
  qed
  show "currency_sum cur (serve_all X app qs db) = currency_sum cur db"
    unfolding serve_all_calls by (rule run_calls_currency_sum [OF assms(2)])
qed

theorem requests_act_for_token_holders_witness:
  "serve_all sample_externals sample_app [(sample_call 7, sample_env, sample_http)] sample_db = sample_paid \<and>
   currency_sum ''PEN'' sample_paid = currency_sum ''PEN'' sample_db"
proof -
  have paid: "serve_all sample_externals sample_app [(sample_call 7, sample_env, sample_http)] sample_db = sample_paid"
    by (simp add: api_serve_store sample_api_call) (simp add: sample_externals_def sample_pays)
  moreover have "jwt_documented (ex_jwt sample_externals)" "pg_inv (ex_pg sample_externals) sample_db"
    by (simp_all add: sample_externals_def sample_jwt_documented sample_inv)
  ultimately show ?thesis
    using requests_act_for_token_holders [of sample_externals sample_db sample_app
        "[(sample_call 7, sample_env, sample_http)]" "''PEN''"] by auto
qed

subsection \<open>Answers to POST /transfers\<close>



subsection \<open>Every request\<close>

lemma hex_char_valid: "n < 16 \<Longrightarrow> byte_in 0x61 0x7A (hex_char n) \<or> byte_in 0x30 0x39 (hex_char n)"
  by (auto simp: byte_in_def hex_char_def)

lemma hex_length: "length (hex_EncodeToString b) = 2 * length b"
  by (induction b) (simp_all add: hex_EncodeToString_def)

lemma hex_valid: "1 \<le> length b \<Longrightarrow> length b \<le> 32 \<Longrightarrow> validRequestID (hex_EncodeToString b)"
proof -
  have "list_all (\<lambda>c. byte_in 0x61 0x7A c \<or> byte_in 0x30 0x39 c) (hex_EncodeToString b)"
  proof (induction b)
    case (Cons c b)
    have "of_char c div 16 < (16 :: nat)" using nat_of_char_less_256 [of c] by linarith
    with Cons show ?case by (simp add: hex_EncodeToString_def hex_char_valid)
  qed (simp add: hex_EncodeToString_def)
  then show "1 \<le> length b \<Longrightarrow> length b \<le> 32 \<Longrightarrow> validRequestID (hex_EncodeToString b)"
    by (auto simp: validRequestID_def hex_length list_all_iff)
qed

text \<open>
  C22. Every request, whatever its method, path, headers and body and however the database
  fails, is answered exactly once: no handler panics, one status and one body are sent, and
  the response carries a well-formed request ID under which the access log records the same
  status.
\<close>

theorem every_request_answered_once:
  assumes "length (re_random env) = 8"
  shows "\<exists>wd status b. NewHandler d env r (fresh_world db) = (wd, None) \<and>
    rw_status (wd_writer wd) = Some status \<and> rw_body (wd_writer wd) = [b] \<and>
    rw_sent (wd_writer wd) ''X-Request-ID'' = Some (request_id_of env r) \<and>
    validRequestID (request_id_of env r) \<and>
    last (wd_log wd) = AccessLog (access_level r status) (request_id_of env r) (rq_method r) (rq_path r)
      (routeOf r) status"
proof -
  have "validRequestID (request_id_of env r)"
    using assms hex_valid [of "re_random env"] by (simp add: request_id_of_def)
  with NewHandler_answers [of "fresh_world db" d env r] show ?thesis by auto
qed

theorem every_request_answered_once_witness:
  "\<exists>status. rw_status (wd_writer (fst (NewHandler (api_dependencies sample_externals sample_app
     (broken_call StmtBegin 7) 7) sample_env sample_http (fresh_world sample_db)))) = Some status"
proof -
  have "length (re_random sample_env) = 8" by (simp add: sample_env_def)
  from every_request_answered_once [OF this, of "api_dependencies sample_externals sample_app
     (broken_call StmtBegin 7) 7" sample_http sample_db] show ?thesis by auto
qed

text \<open>
  When a handler panics, the client still gets a 500 with a JSON body if nothing was sent
  before, but the entry in the log names no request: the recovering middleware is outside the
  one that assigns the request ID and looks for it in the request it was given itself.
\<close>

lemma panic_log_without_request_id:
  assumes "requestID env next r wd = (wd', Some p)" and "p \<noteq> AbortHandler" and "rq_request_id r = None"
    and "rw_status (wd_writer wd') = None"
  shows "\<exists>wd''. recoverPanics (requestID env next) r wd = (wd'', None) \<and>
    rw_status (wd_writer wd'') = Some 500 \<and> wd_log wd'' = wd_log wd' @ [PanicLog '''']"
  using assms(3,4)
  by (simp add: recoverPanics_panic [of "requestID env next" r wd, OF assms(1,2)] requestIDFrom_def writer_defs)

lemma panic_log_of_handler:
  "wd_log (fst (recoverPanics (requestID sample_env (getAccount (\<lambda>_ _ _. Inl ErrAccountNotFound))) sample_http
     (fresh_world sample_db))) = [PanicLog '''']"
proof -
  let ?next = "getAccount (\<lambda>_ _ _. Inl ErrAccountNotFound) :: db handler"
  have "requestID sample_env ?next sample_http (fresh_world sample_db) =
      (respond (header_Set ''X-Request-ID'' (request_id_of sample_env sample_http)) (fresh_world sample_db),
       Some NilDereference)"
    by (simp add: requestID_def request_id_of_def getAccount_def ClaimsFromContext_def sample_http_def)
  from panic_log_without_request_id [OF this] show ?thesis
    by (auto simp: sample_http_def header_Set_def fresh_world_def new_writer_def)
qed

text \<open>
  The liveness probe \<^verbatim>\<open>GET /health\<close> answers 200 whatever happens at the database; the readiness
  probe \<^verbatim>\<open>GET /ready\<close> answers 200 exactly when the database answers a ping, and 503 otherwise.
\<close>

lemma probe_status:
  assumes "rq_method r = ''GET''"
  shows "(rq_path r = [''health''] \<longrightarrow>
      rw_status (wd_writer (api_serve X app (c, env, r) db)) = Some 200) \<and>
    (rq_path r = [''ready''] \<longrightarrow>
      rw_status (wd_writer (api_serve X app (c, env, r) db)) =
        Some (if call_fault c StmtPing = None then 200 else 503))"
proof -
  let ?d = "api_dependencies X app c (re_now env)"
  let ?wd = "inner_world env r (fresh_world db)"
  have w: "pristine (wd_writer ?wd)" by (simp add: inner_world_pristine)
  have m: "mux_Handler ''GET'' [''health''] = Matched ''GET /health'' RouteHealth ''''"
    "mux_Handler ''GET'' [''ready''] = Matched ''GET /ready'' RouteReady ''''" by code_simp+
  have ok: "rw_status (wd_writer (api_serve X app (c, env, r) db)) = Some 200"
    if "mux_ServeHTTP ?d (tagged ?d env r) ?wd = (respond (writeJSON 200 (JsonStatus s)) ?wd, None)" for s
    using NewHandler_writer(1) [where f = "writeJSON 200 (JsonStatus s)", OF that answered_writeJSON(1) [OF w]] by (simp add: api_serve_def)
  have down: "rw_status (wd_writer (api_serve X app (c, env, r) db)) = Some 503"
    if "mux_ServeHTTP ?d (tagged ?d env r) ?wd = (respond (writeError 503 ''database unavailable'') ?wd, None)"
    using NewHandler_writer(1) [where f = "writeError 503 ''database unavailable''", OF that answered_writeError [OF w]] by (simp add: api_serve_def)
  have h: "mux_ServeHTTP ?d (tagged ?d env r) ?wd = health (tagged ?d env r\<lparr>rq_path_id := ''''\<rparr>) ?wd"
    if "rq_path r = [''health'']"
    using assms that m by (simp add: mux_ServeHTTP_def route_handler_def tagged_def)
  have rd: "mux_ServeHTTP ?d (tagged ?d env r) ?wd = ready (dep_Ready ?d) (tagged ?d env r\<lparr>rq_path_id := ''''\<rparr>) ?wd"
    if "rq_path r = [''ready'']"
    using assms that m by (simp add: mux_ServeHTTP_def route_handler_def tagged_def)
  have "rw_status (wd_writer (api_serve X app (c, env, r) db)) = Some 200" if "rq_path r = [''health'']"
    using ok h [OF that] by (simp add: health_def)
  moreover have "rw_status (wd_writer (api_serve X app (c, env, r) db)) =
      Some (if call_fault c StmtPing = None then 200 else 503)" if "rq_path r = [''ready'']"
  proof -
    have "dep_Ready ?d = Some (\<lambda>db. map_option DbError (call_fault c StmtPing))"
      by (simp add: api_dependencies_def exec_def fun_eq_iff split: option.split)
    with ok down rd [OF that] show ?thesis by (cases "call_fault c StmtPing") (simp_all add: ready_def)
  qed
  ultimately show ?thesis by blast
qed

end
