(* ===== verification/Server.thy ===== *)
theory Server
  imports Tx_Progress Api
begin

text \<open>
  The server at work on many requests. \<^verbatim>\<open>net/http\<close> serves each request in a goroutine of its own:
  the statements of the requests that create a transfer are interleaved as in \<open>Tx_Machine\<close>, and
  at any moment another request may be served. Those requests run at most one statement (a
  lookup of accounts, of a transfer, of a user, or a ping), which sees the committed rows and
  waits for no lock, so each is a single step.
\<close>

subsection \<open>Requests and their calls\<close>

text \<open>
  A request that makes no call of \<open>Create\<close> has no transaction: its place among the transactions
  is over from the start, and the call that stands there is never run.
\<close>

definition call_or_none :: "externals \<Rightarrow> app \<Rightarrow> api_request \<Rightarrow> request_call" where
  "call_or_none X app q =
     (case api_call X app q of
        Some call \<Rightarrow> call
      | None \<Rightarrow> (fst q, '''', '''', zero_create_transfer))"

definition request_calls :: "externals \<Rightarrow> app \<Rightarrow> api_request list \<Rightarrow> request_call list" where
  "request_calls X app qs = map (call_or_none X app) qs"

definition start_tx :: "externals \<Rightarrow> app \<Rightarrow> api_request \<Rightarrow> tx_state" where
  "start_tx X app q = (case api_call X app q of Some _ \<Rightarrow> Idle | None \<Rightarrow> Finished (Inl ErrForbidden))"

subsection \<open>Steps\<close>

record server =
  sv_system :: system
  sv_responses :: "nat \<rightharpoonup> response_writer"

definition sv_db :: "server \<Rightarrow> db" where
  "sv_db s = sy_db (sv_system s)"

text \<open>The handler responds as soon as its call has returned.\<close>

definition respond_to :: "externals \<Rightarrow> app \<Rightarrow> api_request list \<Rightarrow> nat \<Rightarrow> system \<Rightarrow> (nat \<rightharpoonup> response_writer) \<Rightarrow>
    (nat \<rightharpoonup> response_writer)" where
  "respond_to X app qs n sy out =
     (case answer_of sy n of None \<Rightarrow> out | Some res \<Rightarrow> out(n \<mapsto> api_respond X app (qs ! n) res))"

inductive serve_step :: "externals \<Rightarrow> app \<Rightarrow> api_request list \<Rightarrow> nat \<Rightarrow> server \<Rightarrow> server \<Rightarrow> bool" for X app qs where
  serve_statement:
  "step (ex_pg X) (request_calls X app qs) n (sv_system s) sy \<Longrightarrow>
   serve_step X app qs n s \<lparr>sv_system = sy, sv_responses = respond_to X app qs n sy (sv_responses s)\<rparr>"
| serve_at_once:
  "n < length qs \<Longrightarrow> api_call X app (qs ! n) = None \<Longrightarrow> sv_responses s n = None \<Longrightarrow>
   serve_step X app qs n s (s\<lparr>sv_responses := (sv_responses s)(n \<mapsto> wd_writer (api_serve X app (qs ! n) (sv_db s)))\<rparr>)"

inductive_simps serve_step_iff: "serve_step X app qs n s s'"

definition start_server :: "externals \<Rightarrow> app \<Rightarrow> api_request list \<Rightarrow> db \<Rightarrow> server" where
  "start_server X app qs db =
     \<lparr>sv_system = \<lparr>sy_db = db, sy_txs = map (start_tx X app) qs\<rparr>, sv_responses = Map.empty\<rparr>"

inductive server_runs :: "externals \<Rightarrow> app \<Rightarrow> api_request list \<Rightarrow> db \<Rightarrow> nat list \<Rightarrow> server \<Rightarrow> bool" for X app qs db where
  begin_server: "server_runs X app qs db [] (start_server X app qs db)"
| more_server: "server_runs X app qs db ns s \<Longrightarrow> serve_step X app qs n s s' \<Longrightarrow> server_runs X app qs db (ns @ [n]) s'"

subsection \<open>Invariant\<close>

definition server_inv :: "externals \<Rightarrow> app \<Rightarrow> api_request list \<Rightarrow> server \<Rightarrow> bool" where
  "server_inv X app qs s \<longleftrightarrow>
     sys_inv (ex_pg X) (request_calls X app qs) (sv_system s) \<and>
     (\<forall>n < length qs. case api_call X app (qs ! n) of
        None \<Rightarrow> finished (sy_txs (sv_system s) ! n)
      | Some _ \<Rightarrow> (sv_responses s n = None \<longleftrightarrow> \<not> finished (sy_txs (sv_system s) ! n)))"

lemma request_calls_sel [simp]:
  "length (request_calls X app qs) = length qs"
  "n < length qs \<Longrightarrow> request_calls X app qs ! n = call_or_none X app (qs ! n)"
  by (simp_all add: request_calls_def)

lemma start_server_inv: "pg_inv (ex_pg X) db \<Longrightarrow> server_inv X app qs (start_server X app qs db)"
  by (auto simp: server_inv_def sys_inv_def start_server_def start_tx_def apart_def finished_def split: option.split)

lemma server_inv_len: "server_inv X app qs s \<Longrightarrow> length (sy_txs (sv_system s)) = length qs"
  by (simp add: server_inv_def sys_inv_def)

text \<open>A statement is run only for a request that makes a call.\<close>

lemma statement_call:
  assumes "server_inv X app qs s" and "step (ex_pg X) (request_calls X app qs) n (sv_system s) sy"
  shows "n < length qs" and "api_call X app (qs ! n) = Some (request_calls X app qs ! n)" and "sv_responses s n = None"
proof -
  from assms(2) have n: "n < length (sy_txs (sv_system s))" "\<not> finished (sy_txs (sv_system s) ! n)"
    by (auto simp: step_iff)
  then show len: "n < length qs" using server_inv_len [OF assms(1)] by simp
  with assms(1) n(2) show "api_call X app (qs ! n) = Some (request_calls X app qs ! n)" "sv_responses s n = None"
    by (auto simp: server_inv_def call_or_none_def split: option.splits)
qed

lemma serve_step_inv:
  assumes inv: "server_inv X app qs s" and "serve_step X app qs n s s'"
  shows "server_inv X app qs s'"
  using assms(2)
proof cases
  case (serve_statement sy)
  note call = statement_call [OF inv serve_statement(2)]
  from inv have sys: "sys_inv (ex_pg X) (request_calls X app qs) (sv_system s)" by (simp add: server_inv_def)
  obtain st where st: "sy_txs sy = (sy_txs (sv_system s))[n := st]" using step_serial [OF sys serve_statement(2)] by blast
  have "sys_inv (ex_pg X) (request_calls X app qs) sy" using step_inv [OF sys serve_statement(2)] .
  moreover have "case api_call X app (qs ! m) of None \<Rightarrow> finished (sy_txs sy ! m)
      | Some _ \<Rightarrow> (respond_to X app qs n sy (sv_responses s) m = None \<longleftrightarrow> \<not> finished (sy_txs sy ! m))"
    if m: "m < length qs" for m
  proof (cases "m = n")
    case True
    then show ?thesis
      using call answer_of_None [of sy n] by (auto simp: respond_to_def split: option.split)
  next
    case False
    then have "sy_txs sy ! m = sy_txs (sv_system s) ! m" by (simp add: st)
    then show ?thesis using False inv m by (auto simp: server_inv_def respond_to_def split: option.split)
  qed
  ultimately show ?thesis unfolding serve_statement(1) server_inv_def server.simps by blast
next
  case serve_at_once
  then show ?thesis using inv by (auto simp: server_inv_def split: option.splits)
qed

interpretation server_turns: turn_taking "serve_step X app qs" "server_inv X app qs" for X app qs
  by unfold_locales (rule serve_step_inv)

lemma server_runs_reaches: "server_runs X app qs db ns s \<longleftrightarrow> server_turns.reaches X app qs (start_server X app qs db) ns s"
proof
  show "server_runs X app qs db ns s \<Longrightarrow> server_turns.reaches X app qs (start_server X app qs db) ns s"
    by (induction rule: server_runs.induct) (auto intro: server_turns.reaches.intros)
  show "server_turns.reaches X app qs (start_server X app qs db) ns s \<Longrightarrow> server_runs X app qs db ns s"
    by (induction rule: server_turns.reaches.induct) (auto intro: server_runs.intros)
qed

subsection \<open>The serial order\<close>

definition serve_request :: "externals \<Rightarrow> app \<Rightarrow> api_request list \<Rightarrow> nat \<Rightarrow> db \<Rightarrow> db \<times> response_writer" where
  "serve_request X app qs n db =
     (wd_store (api_serve X app (qs ! n) db), wd_writer (api_serve X app (qs ! n) db))"

lemma serve_request_call:
  assumes "api_call X app (qs ! n) = Some (c, u, key, r)" and "service_Create (ex_pg X) c u key r db = (db', res)"
  shows "serve_request X app qs n db = (db', api_respond X app (qs ! n) res)"
proof -
  obtain c' env q where q: "qs ! n = (c', env, q)" by (metis prod_cases3)
  note call = assms(1) [unfolded q]
  from api_call_Some(1) [OF call] assms(2) api_serve_writer [OF call, of db] show ?thesis
    by (simp add: serve_request_def q api_serve_store call)
qed

lemma statement_serves:
  assumes inv: "server_inv X app qs s" and step: "step (ex_pg X) (request_calls X app qs) n (sv_system s) sy"
  shows "answer_of sy n = None \<and> sy_db sy = sv_db s \<or>
    (\<exists>res. answer_of sy n = Some res \<and> serve_request X app qs n (sv_db s) = (sy_db sy, api_respond X app (qs ! n) res))"
proof -
  note call = statement_call [OF inv step]
  obtain c u key r where c: "request_calls X app qs ! n = (c, u, key, r)" by (metis prod_cases4)
  from inv have "sys_inv (ex_pg X) (request_calls X app qs) (sv_system s)" by (simp add: server_inv_def)
  from step_serial [OF this step, unfolded c] show ?thesis
    using serve_request_call [OF call(2) [unfolded c], OF prod.collapse [symmetric], of "sv_db s"]
    by (auto simp: answer_of_None answer_of_Some sv_db_def)
qed

interpretation server_order: serialized "serve_step X app qs" "server_inv X app qs" "{..<length qs}" sv_db
  sv_responses "serve_request X app qs" for X app qs
proof unfold_locales
  fix s n s'
  assume inv: "server_inv X app qs s" and step: "serve_step X app qs n s s'"
  from step show "n \<in> {..<length qs} \<and> sv_responses s n = None"
    by cases (use statement_call [OF inv] in auto)
  from step show "sv_responses s' m = sv_responses s m" if "m \<noteq> n" for m
    by cases (use that in \<open>auto simp: respond_to_def split: option.split\<close>)
  from step show "sv_responses s' n = None \<and> sv_db s' = sv_db s \<or>
      sv_db s' = fst (serve_request X app qs n (sv_db s)) \<and>
      sv_responses s' n = Some (snd (serve_request X app qs n (sv_db s)))"
  proof cases
    case (serve_statement sy)
    with statement_serves [OF inv serve_statement(2)] statement_call(3) [OF inv serve_statement(2)]
    show ?thesis by (auto simp: respond_to_def sv_db_def)
  next
    case serve_at_once
    then show ?thesis by (simp add: serve_request_def api_serve_store sv_db_def)
  qed
qed

text \<open>The order in which requests were answered.\<close>

definition answer_order :: "nat list \<Rightarrow> server \<Rightarrow> nat list" where
  "answer_order ns s = filter (\<lambda>n. sv_responses s n \<noteq> None) (remdups ns)"

lemma serve_all_serial: "server_order.serve_in_order X app qs os db = serve_all X app (map ((!) qs) os) db"
  unfolding server_order.serve_in_order_def
  by (induction os arbitrary: db) (simp_all add: serve_request_def)

lemma server_runs_serial:
  assumes "server_runs X app qs db ns s" and "pg_inv (ex_pg X) db"
  shows "set (answer_order ns s) = {n. n < length qs \<and> sv_responses s n \<noteq> None}"
    and "sv_db s = serve_all X app (map ((!) qs) (answer_order ns s)) db"
    and "k < length (answer_order ns s) \<Longrightarrow> sv_responses s (answer_order ns s ! k) =
      Some (wd_writer (api_serve X app (qs ! (answer_order ns s ! k))
        (serve_all X app (map ((!) qs) (take k (answer_order ns s))) db)))"
proof -
  have "server_order.explained qs X app (sv_db (start_server X app qs db)) (server_order.serial_order ns s) s"
    using assms start_server_inv by (intro server_order.serial) (auto simp: server_runs_reaches start_server_def)
  moreover have "server_order.serial_order ns s = answer_order ns s"
    unfolding server_order.serial_order_def answer_order_def ..
  ultimately have explained: "server_order.explained qs X app db (answer_order ns s) s"
    by (simp add: start_server_def sv_db_def)
  note facts = explained [unfolded server_order.explained_def serve_all_serial]
  from facts show "set (answer_order ns s) = {n. n < length qs \<and> sv_responses s n \<noteq> None}" by auto
  from facts show "sv_db s = serve_all X app (map ((!) qs) (answer_order ns s)) db" by blast
  from facts show "sv_responses s (answer_order ns s ! k) = Some (wd_writer (api_serve X app (qs ! (answer_order ns s ! k))
      (serve_all X app (map ((!) qs) (take k (answer_order ns s))) db)))" if "k < length (answer_order ns s)"
    using that by (simp add: serve_request_def)
qed

subsection \<open>Every request is answered\<close>

text \<open>The statements that may still be run, and the requests that are served at once.\<close>

definition at_once_left :: "externals \<Rightarrow> app \<Rightarrow> api_request list \<Rightarrow> server \<Rightarrow> nat set" where
  "at_once_left X app qs s = {n. n < length qs \<and> api_call X app (qs ! n) = None \<and> sv_responses s n = None}"

definition server_work :: "externals \<Rightarrow> app \<Rightarrow> api_request list \<Rightarrow> server \<Rightarrow> nat" where
  "server_work X app qs s =
     sum_list (map remaining (sy_txs (sv_system s))) + card (at_once_left X app qs s)"

lemma serve_step_work:
  assumes inv: "server_inv X app qs s" and "serve_step X app qs n s s'"
  shows "server_work X app qs s' < server_work X app qs s"
  using assms(2)
proof cases
  case (serve_statement sy)
  have "sys_inv (ex_pg X) (request_calls X app qs) (sv_system s)" using inv by (simp add: server_inv_def)
  from step_remaining [OF this serve_statement(2)]
  have "sum_list (map remaining (sy_txs sy)) < sum_list (map remaining (sy_txs (sv_system s)))" .
  moreover have "at_once_left X app qs s' = at_once_left X app qs s"
    using statement_call(2) [OF inv serve_statement(2)] serve_statement(1)
    by (auto simp: at_once_left_def respond_to_def split: option.splits if_splits)
  ultimately show ?thesis using serve_statement(1) by (simp add: server_work_def)
next
  case serve_at_once
  have "at_once_left X app qs s' = at_once_left X app qs s - {n}" "n \<in> at_once_left X app qs s"
    using serve_at_once by (auto simp: at_once_left_def)
  moreover have "finite (at_once_left X app qs s)" by (simp add: at_once_left_def)
  ultimately have "card (at_once_left X app qs s') < card (at_once_left X app qs s)"
    by (metis card_Diff1_less)
  then show ?thesis using serve_at_once by (simp add: server_work_def)
qed

lemma serve_step_exists:
  assumes inv: "server_inv X app qs s" and "collation_orders (ex_pg X)" and n: "n < length qs" "sv_responses s n = None"
  shows "\<exists>m s'. serve_step X app qs m s s'"
proof (cases "api_call X app (qs ! n)")
  case None
  then show ?thesis using n serve_at_once by blast
next
  case (Some call)
  then have "\<not> finished (sy_txs (sv_system s) ! n)" using inv n by (auto simp: server_inv_def)
  with inv never_stuck [OF _ assms(2), of "request_calls X app qs" "sv_system s" n] n(1) show ?thesis
    unfolding server_inv_def by (auto intro: serve_statement)
qed

interpretation server_progress: progressing "serve_step X app qs"
  "\<lambda>s. server_inv X app qs s \<and> collation_orders (ex_pg X)" "server_work X app qs"
  "\<lambda>s. \<forall>n < length qs. sv_responses s n \<noteq> None" for X app qs
  by unfold_locales (auto intro: serve_step_inv serve_step_work dest: serve_step_exists)

lemma start_server_work: "server_work X app qs (start_server X app qs db) \<le> 8 * length qs"
proof -
  have "at_once_left X app qs (start_server X app qs db) = {n. n < length qs \<and> api_call X app (qs ! n) = None}"
    by (simp add: at_once_left_def start_server_def)
  then have "card (at_once_left X app qs (start_server X app qs db)) = length (filter (\<lambda>q. api_call X app q = None) qs)"
    by (simp add: length_filter_conv_card)
  moreover have "sum_list (map (remaining \<circ> start_tx X app) qs) + length (filter (\<lambda>q. api_call X app q = None) qs) \<le> 8 * length qs"
    by (induction qs) (auto simp: start_tx_def split: option.split)
  ultimately show ?thesis by (simp add: server_work_def start_server_def)
qed

end
