(* ===== verification/Api_Results.thy ===== *)
theory Api_Results
  imports Concurrency_Results Http_Results Server
begin

text \<open>
  The HTTP interface over concurrent transactions: any requests that are served at the same
  time, with the statements of their transactions interleaved.
\<close>

subsection \<open>Results\<close>

text \<open>
  C19. Concurrent requests are answered as if they came one after the other. For every
  interleaving of requests of any kind, the database is the one that serving the answered
  requests one by one leaves, in the order in which they were answered, and each response is
  the response that the request gets in that sequence, with the same status, headers and body.
  In particular a request that reads never sees a half-done transfer.
\<close>

theorem concurrent_requests_serializable:
  assumes "pg_inv (ex_pg X) db" and "server_runs X app qs db ns s"
  shows "let order = answer_order ns s; serial = map ((!) qs) order in
    distinct order \<and> set order = {n. n < length qs \<and> sv_responses s n \<noteq> None} \<and>
    sv_db s = serve_all X app serial db \<and>
    (\<forall>k < length order. sv_responses s (order ! k) =
       Some (wd_writer (api_serve X app (serial ! k) (serve_all X app (take k serial) db))))"
  using server_runs_serial [OF assms(2,1)] by (simp add: Let_def take_map answer_order_def)

text \<open>A schedule of statements, as a part of a run of the server.\<close>

lemma run_schedule_serves:
  assumes "run_schedule (ex_pg X) (request_calls X app qs) ns (sv_system s) = Some sy"
    and "server_runs X app qs db ns0 s"
  shows "\<exists>s'. server_runs X app qs db (ns0 @ ns) s' \<and> sv_system s' = sy \<and>
    (\<forall>m. m \<notin> set ns \<longrightarrow> sv_responses s' m = sv_responses s m)"
  using assms
proof (induction ns arbitrary: s ns0)
  case (Cons n ns)
  then obtain sy1 where step: "step (ex_pg X) (request_calls X app qs) n (sv_system s) sy1"
    and rest: "run_schedule (ex_pg X) (request_calls X app qs) ns sy1 = Some sy"
    by (auto simp: Option.bind_eq_Some_conv try_step_iff)
  let ?s1 = "\<lparr>sv_system = sy1, sv_responses = respond_to X app qs n sy1 (sv_responses s)\<rparr>"
  have "server_runs X app qs db (ns0 @ [n]) ?s1"
    using Cons.prems(2) serve_statement [OF step] by (rule more_server)
  from Cons.IH [OF _ this] rest obtain s' where "server_runs X app qs db (ns0 @ n # ns) s'" "sv_system s' = sy"
    "\<forall>m. m \<notin> set ns \<longrightarrow> sv_responses s' m = respond_to X app qs n sy1 (sv_responses s) m" by auto
  moreover have "respond_to X app qs n sy1 (sv_responses s) m = sv_responses s m" if "m \<noteq> n" for m
    using that by (simp add: respond_to_def split: option.split)
  ultimately show ?case by auto
qed auto

text \<open>
  Two clients send the same payment with the same key at the same time, and Alice asks for
  her accounts while the payment is under way.
\<close>

definition sample_read :: http_request where
  "sample_read = sample_http\<lparr>rq_method := ''GET'', rq_path := [''accounts''], rq_body := ''''\<rparr>"

definition sample_requests :: "api_request list" where
  "sample_requests = [(sample_call 7, sample_env, sample_http), (sample_call 8, sample_env, sample_http),
     (sample_call 9, sample_env, sample_read)]"

definition sample_turns :: "nat list" where
  "sample_turns = [1, 0, 0, 0, 0] @ [2] @ [0, 0, 0, 0, 1, 1, 1, 1, 1, 1]"

lemma sample_read_call: "api_call X app (c, env, sample_read) = None"
proof (rule ccontr)
  assume "api_call X app (c, env, sample_read) \<noteq> None"
  then obtain c' u key r where "api_call X app (c, env, sample_read) = Some (c', u, key, r)"
    by (metis option.exhaust prod_cases4)
  from api_call_Some(5) [OF this] show False by (simp add: sample_read_def)
qed

lemma sample_request_calls:
  "request_calls sample_externals sample_app sample_requests =
     [(sample_call 7, ''alice'', ''42'', sample_request ''a'' ''b'' 30),
      (sample_call 8, ''alice'', ''42'', sample_request ''a'' ''b'' 30), (sample_call 9, '''', '''', zero_create_transfer)]"
  by (simp add: request_calls_def call_or_none_def sample_requests_def sample_api_call sample_read_call)

definition sample_half :: system where
  "sample_half =
     the (run_schedule sample_pg
       [(sample_call 7, ''alice'', ''42'', sample_request ''a'' ''b'' 30),
        (sample_call 8, ''alice'', ''42'', sample_request ''a'' ''b'' 30), (sample_call 9, '''', '''', zero_create_transfer)]
       [1, 0, 0, 0, 0] \<lparr>sy_db = sample_db, sy_txs = [Idle, Idle, Finished (Inl ErrForbidden)]\<rparr>)"

definition sample_final :: system where
  "sample_final = \<lparr>sy_db = sample_paid, sy_txs = [Finished (Inr (sample_transfer, True)),
     Finished (Inr (sample_transfer, False)), Finished (Inl ErrForbidden)]\<rparr>"

lemma sample_schedules:
  "run_schedule sample_pg (request_calls sample_externals sample_app sample_requests) [1, 0, 0, 0, 0]
     \<lparr>sy_db = sample_db, sy_txs = [Idle, Idle, Finished (Inl ErrForbidden)]\<rparr> = Some sample_half"
  "sy_db sample_half = sample_db"
  "run_schedule sample_pg (request_calls sample_externals sample_app sample_requests) [0, 0, 0, 0, 1, 1, 1, 1, 1, 1]
     sample_half = Some sample_final"
  unfolding sample_request_calls by code_simp+

lemma sample_server_run:
  "\<exists>s. server_runs sample_externals sample_app sample_requests sample_db sample_turns s \<and>
     answer_order sample_turns s = [2, 0, 1] \<and>
     sv_responses s 2 = Some (wd_writer (api_serve sample_externals sample_app (sample_call 9, sample_env, sample_read) sample_db))"
proof -
  let ?runs = "server_runs sample_externals sample_app sample_requests sample_db"
  have P: "ex_pg sample_externals = sample_pg" by (simp add: sample_externals_def)
  let ?s0 = "start_server sample_externals sample_app sample_requests sample_db"
  have "sv_system ?s0 = \<lparr>sy_db = sample_db, sy_txs = [Idle, Idle, Finished (Inl ErrForbidden)]\<rparr>"
    by (simp add: start_server_def start_tx_def sample_requests_def sample_api_call sample_read_call)
  then have "run_schedule (ex_pg sample_externals) (request_calls sample_externals sample_app sample_requests)
      [1, 0, 0, 0, 0] (sv_system ?s0) = Some sample_half"
    using sample_schedules(1) by (simp only: P)
  from run_schedule_serves [OF this begin_server] obtain s1 where s1: "?runs ([] @ [1, 0, 0, 0, 0]) s1"
    "sv_system s1 = sample_half" "\<forall>m. m \<notin> set [1, 0, 0, 0, 0] \<longrightarrow> sv_responses s1 m = sv_responses ?s0 m" by blast
  have none: "sv_responses s1 2 = None" using s1(3) by (simp add: start_server_def)
  let ?out = "wd_writer (api_serve sample_externals sample_app (sample_call 9, sample_env, sample_read) sample_db)"
  let ?s2 = "s1\<lparr>sv_responses := (sv_responses s1)(2 \<mapsto> ?out)\<rparr>"
  have "serve_step sample_externals sample_app sample_requests 2 s1 ?s2"
    using serve_at_once [of 2 sample_requests sample_externals sample_app s1] s1(2) none sample_schedules(2)
    by (simp add: sample_requests_def sample_read_call sv_db_def)
  with s1(1) have run: "?runs (([] @ [1, 0, 0, 0, 0]) @ [2]) ?s2" by (rule more_server)
  have "run_schedule (ex_pg sample_externals) (request_calls sample_externals sample_app sample_requests)
      [0, 0, 0, 0, 1, 1, 1, 1, 1, 1] (sv_system ?s2) = Some sample_final"
    using sample_schedules(3) s1(2) by (simp del: run_schedule.simps add: P)
  from run_schedule_serves [OF this run] obtain s where s: "?runs sample_turns s" "sv_system s = sample_final"
    "\<forall>m. m \<notin> set [0, 0, 0, 0, 1, 1, 1, 1, 1, 1] \<longrightarrow> sv_responses s m = sv_responses ?s2 m"
    unfolding sample_turns_def append.assoc append_Nil by blast
  then have out: "sv_responses s 2 = Some ?out" by simp
  have "server_inv sample_externals sample_app sample_requests s"
    using server_turns.reaches_inv s(1) start_server_inv sample_inv unfolding server_runs_reaches P [symmetric] by blast
  then have "sv_responses s 0 \<noteq> None" "sv_responses s 1 \<noteq> None"
    unfolding server_inv_def s(2) sample_final_def
    by (auto simp: sample_requests_def sample_api_call finished_def dest: spec [of _ 0] spec [of _ 1])
  with out have "answer_order sample_turns s = [2, 0, 1]"
    by (simp add: answer_order_def sample_turns_def)
  with s(1) out show ?thesis by blast
qed

theorem concurrent_requests_serializable_witness:
  "\<exists>s. server_runs sample_externals sample_app sample_requests sample_db sample_turns s \<and>
     sv_db s = serve_all sample_externals sample_app (map ((!) sample_requests) [2, 0, 1]) sample_db \<and>
     sv_responses s 1 = Some (wd_writer (api_serve sample_externals sample_app (sample_requests ! 1)
       (serve_all sample_externals sample_app [sample_requests ! 2, sample_requests ! 0] sample_db)))"
proof -
  from sample_server_run obtain s where
    s: "server_runs sample_externals sample_app sample_requests sample_db sample_turns s" "answer_order sample_turns s = [2, 0, 1]"
    by blast
  have "pg_inv (ex_pg sample_externals) sample_db" by (simp add: sample_externals_def sample_inv)
  note serial = concurrent_requests_serializable [OF this s(1), unfolded s(2) Let_def, THEN conjunct2, THEN conjunct2]
  then show ?thesis using s(1) serial [THEN conjunct2, rule_format, of 2] by auto
qed

text \<open>
  C20. Every request is answered: \<open>n\<close> requests of any kind that are served at the same time run
  at most \<open>8 * n\<close> statements, however they are scheduled and whatever statements fail, and from
  every state of the server there is a continuation in which all of them have a response.
\<close>

theorem concurrent_requests_answered:
  assumes "pg_inv (ex_pg X) db" and "collation_orders (ex_pg X)" and "server_runs X app qs db ns s"
  shows "length ns \<le> 8 * length qs \<and>
    (\<exists>ns' s'. server_runs X app qs db (ns @ ns') s' \<and> (\<forall>n < length qs. sv_responses s' n \<noteq> None))"
proof -
  have start: "server_inv X app qs (start_server X app qs db) \<and> collation_orders (ex_pg X)"
    using assms start_server_inv by blast
  have run: "server_turns.reaches X app qs (start_server X app qs db) ns s" using assms(3) by (simp add: server_runs_reaches)
  have "length ns \<le> 8 * length qs"
    using server_progress.runs_short [OF run start] start_server_work [of X app qs db] by linarith
  moreover have "\<exists>ns' s'. server_runs X app qs db (ns @ ns') s' \<and> (\<forall>n < length qs. sv_responses s' n \<noteq> None)"
    using server_progress.can_complete [OF run start] unfolding server_runs_reaches .
  ultimately show ?thesis ..
qed

theorem concurrent_requests_answered_witness:
  "\<exists>ns s. server_runs sample_externals sample_app sample_requests sample_db ns s \<and>
     (\<forall>n < length sample_requests. sv_responses s n \<noteq> None)"
proof -
  have "pg_inv (ex_pg sample_externals) sample_db" "collation_orders (ex_pg sample_externals)"
    by (simp_all add: sample_externals_def sample_inv sample_collation)
  from concurrent_requests_answered [OF this begin_server] show ?thesis by blast
qed

end
