(* ===== verification/Responses.thy ===== *)
theory Responses
  imports Http_Base
begin

text \<open>
  The bytes of a response. \<open>writeJSON\<close> hands a Go value to \<^verbatim>\<open>json.NewEncoder(w).Encode\<close>; here is
  the JSON form of each value that the handlers write, by the struct tags of
  \<^verbatim>\<open>internal/domain/entities\<close> and \<^verbatim>\<open>internal/httpapi\<close>, and the text of a whole body. The same tags
  let a client written in Go decode a transfer or an account; what it then holds is the
  subject of the lemmas.
\<close>

subsection \<open>Times\<close>

text \<open>
  \<^verbatim>\<open>time.Time\<close> is written as an RFC 3339 text in the zone of the server and read back. Writing
  fails for a year that has not four digits. The text depends on the zone, so both directions
  are parameters.
\<close>

record time_codec =
  tm_MarshalText :: "time \<Rightarrow> string option"
  tm_UnmarshalText :: "string \<Rightarrow> time option"

definition time_documented :: "time_codec \<Rightarrow> bool" where
  "time_documented T \<longleftrightarrow>
     (\<forall>t s. tm_MarshalText T t = Some s \<longrightarrow> utf8_valid s \<and> tm_UnmarshalText T s = Some t)"

subsection \<open>JSON forms\<close>

definition string_member :: "string \<Rightarrow> string \<Rightarrow> string \<times> json" where
  "string_member k s = (k, JString (to_valid_utf8 s))"

definition int_member_of :: "string \<Rightarrow> i64 \<Rightarrow> string \<times> json" where
  "int_member_of k n = (k, JNumber (FormatInt (sint n)))"

text \<open>\<^verbatim>\<open>omitempty\<close>\<close>

definition omit_empty :: "string \<Rightarrow> string \<Rightarrow> (string \<times> json) list" where
  "omit_empty k s = (if s = '''' then [] else [string_member k s])"

definition time_members :: "time_codec \<Rightarrow> time \<Rightarrow> time \<Rightarrow> (string \<times> json) list option" where
  "time_members T created updated =
     (case (tm_MarshalText T created, tm_MarshalText T updated) of
        (Some c, Some u) \<Rightarrow> Some [(''created_at'', JString c), (''updated_at'', JString u)]
      | _ \<Rightarrow> None)"

definition marshal_transfer :: "time_codec \<Rightarrow> transfer \<Rightarrow> json option" where
  "marshal_transfer T t =
     map_option (\<lambda>times. JObject (
       [string_member ''id'' (tr_id t), string_member ''idempotency_key'' (tr_idempotency_key t),
        string_member ''from_account_id'' (tr_from_account_id t), string_member ''to_account_id'' (tr_to_account_id t),
        int_member_of ''amount'' (tr_amount t), string_member ''currency'' (tr_currency t)] @
       omit_empty ''description'' (tr_description t) @ [string_member ''status'' (tr_status t)] @
       omit_empty ''failure_reason'' (tr_failure_reason t) @ times))
     (time_members T (tr_created_at t) (tr_updated_at t))"

text \<open>The owner of an account is tagged \<^verbatim>\<open>json:"-"\<close> and never written.\<close>

definition marshal_account :: "time_codec \<Rightarrow> account \<Rightarrow> json option" where
  "marshal_account T a =
     map_option (\<lambda>times. JObject (
       [string_member ''id'' (acc_id a), string_member ''currency'' (acc_currency a),
        int_member_of ''balance'' (acc_balance a)] @ times))
     (time_members T (acc_created_at a) (acc_updated_at a))"

text \<open>
  The value of each body; \<open>None\<close> when it cannot be encoded. An empty list of permissions is an
  empty slice, as in every token that the service issues.
\<close>

fun marshal_body :: "time_codec \<Rightarrow> response_body \<Rightarrow> json option" where
  "marshal_body T (JsonError m) = Some (JObject [string_member ''error'' m])"
| "marshal_body T (JsonStatus s) = Some (JObject [string_member ''status'' s])"
| "marshal_body T (JsonTransfer t) = marshal_transfer T t"
| "marshal_body T (JsonAccount a) = marshal_account T a"
| "marshal_body T (JsonAccounts as) =
     map_option (\<lambda>vs. JObject [(''accounts'', JArray vs)]) (those (map (marshal_account T) as))"
| "marshal_body T (JsonLogin token typ seconds) =
     Some (JObject [string_member ''access_token'' token, string_member ''token_type'' typ,
       (''expires_in'', JNumber (FormatInt seconds))])"
| "marshal_body T (JsonMe user permissions) =
     Some (JObject [string_member ''user_id'' user,
       (''permissions'', JArray (map (\<lambda>p. JString (to_valid_utf8 p)) permissions))])"
| "marshal_body T (TextBody s) = Some (JString s)"

text \<open>
  What \<^verbatim>\<open>Encode\<close> writes: nothing when the value cannot be encoded, otherwise the value and a
  newline. Text is written as it is.
\<close>

definition Encode :: "time_codec \<Rightarrow> response_body \<Rightarrow> string" where
  "Encode T b =
     (case b of
        TextBody s \<Rightarrow> s
      | _ \<Rightarrow> (case marshal_body T b of None \<Rightarrow> '''' | Some v \<Rightarrow> encode_json v @ [CHR 0x0A]))"

definition response_bytes :: "time_codec \<Rightarrow> response_writer \<Rightarrow> string" where
  "response_bytes T w = concat (map (Encode T) (rw_body w))"

subsection \<open>A client in Go\<close>

definition time_field :: "time_codec \<Rightarrow> (time \<Rightarrow> 'a \<Rightarrow> 'a) \<Rightarrow> 'a setter" where
  "time_field T upd v x =
     (case v of
        JString s \<Rightarrow> (case tm_UnmarshalText T s of Some t \<Rightarrow> Inr (upd t x) | None \<Rightarrow> Inl UnmarshalTypeError)
      | JNull \<Rightarrow> Inr x
      | _ \<Rightarrow> Inl UnmarshalTypeError)"

definition transfer_fields :: "time_codec \<Rightarrow> (string \<times> transfer setter) list" where
  "transfer_fields T =
     [(''id'', string_field (\<lambda>s. tr_id_update (\<lambda>_. s))),
      (''idempotency_key'', string_field (\<lambda>s. tr_idempotency_key_update (\<lambda>_. s))),
      (''from_account_id'', string_field (\<lambda>s. tr_from_account_id_update (\<lambda>_. s))),
      (''to_account_id'', string_field (\<lambda>s. tr_to_account_id_update (\<lambda>_. s))),
      (''amount'', int64_field (\<lambda>n. tr_amount_update (\<lambda>_. n))),
      (''currency'', string_field (\<lambda>s. tr_currency_update (\<lambda>_. s))),
      (''description'', string_field (\<lambda>s. tr_description_update (\<lambda>_. s))),
      (''status'', string_field (\<lambda>s. tr_status_update (\<lambda>_. s))),
      (''failure_reason'', string_field (\<lambda>s. tr_failure_reason_update (\<lambda>_. s))),
      (''created_at'', time_field T (\<lambda>t. tr_created_at_update (\<lambda>_. t))),
      (''updated_at'', time_field T (\<lambda>t. tr_updated_at_update (\<lambda>_. t)))]"

definition account_fields :: "time_codec \<Rightarrow> (string \<times> account setter) list" where
  "account_fields T =
     [(''id'', string_field (\<lambda>s. acc_id_update (\<lambda>_. s))),
      (''currency'', string_field (\<lambda>s. acc_currency_update (\<lambda>_. s))),
      (''balance'', int64_field (\<lambda>n. acc_balance_update (\<lambda>_. n))),
      (''created_at'', time_field T (\<lambda>t. acc_created_at_update (\<lambda>_. t))),
      (''updated_at'', time_field T (\<lambda>t. acc_updated_at_update (\<lambda>_. t)))]"

text \<open>The zero time of Go is the first second of year 1, in nanoseconds before 1970.\<close>

definition zero_time :: time where
  "zero_time = - 62135596800000000000"

definition zero_transfer :: transfer where
  "zero_transfer =
     \<lparr>tr_id = '''', tr_idempotency_key = '''', tr_from_account_id = '''', tr_to_account_id = '''', tr_amount = 0,
      tr_currency = '''', tr_description = '''', tr_status = '''', tr_failure_reason = '''',
      tr_created_at = zero_time, tr_updated_at = zero_time\<rparr>"

definition zero_account :: account where
  "zero_account =
     \<lparr>acc_id = '''', acc_user_id = '''', acc_currency = '''', acc_balance = 0,
      acc_created_at = zero_time, acc_updated_at = zero_time\<rparr>"

definition client_decode :: "(string \<times> 'a setter) list \<Rightarrow> 'a \<Rightarrow> string \<Rightarrow> go_error + 'a" where
  "client_decode fs zero data =
     (case decode_next data StreamEOF of
        Inr (JObject kvs, _) \<Rightarrow> decode_members False fs kvs zero None
      | Inr (JNull, _) \<Rightarrow> Inr zero
      | _ \<Rightarrow> Inl UnmarshalTypeError)"

subsection \<open>Reading what was written\<close>

definition transfer_utf8 :: "transfer \<Rightarrow> bool" where
  "transfer_utf8 t \<longleftrightarrow>
     list_all utf8_valid [tr_id t, tr_idempotency_key t, tr_from_account_id t, tr_to_account_id t, tr_currency t,
       tr_description t, tr_status t, tr_failure_reason t]"

definition account_utf8 :: "account \<Rightarrow> bool" where
  "account_utf8 a \<longleftrightarrow> utf8_valid (acc_id a) \<and> utf8_valid (acc_currency a)"

lemma time_members_Some:
  "time_members T c u = Some ms \<longleftrightarrow>
     (\<exists>c' u'. tm_MarshalText T c = Some c' \<and> tm_MarshalText T u = Some u' \<and>
       ms = [(''created_at'', JString c'), (''updated_at'', JString u')])"
  by (auto simp: time_members_def split: option.splits)

lemma int64_field_FormatInt: "int64_field upd (JNumber (FormatInt (sint n))) x = Inr (upd n x)"
  using ParseInt_FormatInt [of 64 "sint n"] sint_i64_bounds [of n] by (simp add: int64_field_def)

lemma string_field_string [simp]: "string_field upd (JString s) x = Inr (upd s x)"
  by (simp add: string_field_def)

lemma time_field_text: "tm_UnmarshalText T s = Some t \<Longrightarrow> time_field T upd (JString s) x = Inr (upd t x)"
  by (simp add: time_field_def)

lemma decode_member:
  "map_of fs k = Some f \<Longrightarrow> f v x = Inr x' \<Longrightarrow>
     decode_members strict fs ((k, v) # kvs) x None = decode_members strict fs kvs x' None"
  by (simp add: field_for_def)

lemma decode_none: "decode_members strict fs [] x None = Inr x"
  by simp

lemmas member_defs = string_member_def int_member_of_def omit_empty_def

lemma member_names_utf8:
  "list_all utf8_valid [''id'', ''idempotency_key'', ''from_account_id'', ''to_account_id'', ''amount'', ''currency'',
     ''description'', ''status'', ''failure_reason'', ''created_at'', ''updated_at'', ''balance'']"
  by code_simp

lemma time_documentedD:
  assumes "time_documented T" and "tm_MarshalText T t = Some s"
  shows "utf8_valid s" and "tm_UnmarshalText T s = Some t"
  using assms by (auto simp: time_documented_def)

lemma decode_transfer:
  assumes "time_documented T" and "transfer_utf8 t" and "marshal_transfer T t = Some v"
  shows "\<exists>kvs. v = JObject kvs \<and> json_ok (Suc n) v \<and>
    decode_members False (transfer_fields T) kvs zero_transfer None = Inr t"
proof -
  from assms(3) obtain c u where times: "tm_MarshalText T (tr_created_at t) = Some c"
      "tm_MarshalText T (tr_updated_at t) = Some u"
    by (auto simp: marshal_transfer_def time_members_Some)
  note read = times [THEN time_documentedD(1) [OF assms(1)]] times [THEN time_documentedD(2) [OF assms(1)]]
  show ?thesis
  proof (cases "tr_description t = ''''"; cases "tr_failure_reason t = ''''")
  qed (use assms(2,3) times read member_names_utf8 FormatInt_literal in
      \<open>auto simp: marshal_transfer_def time_members_def member_defs transfer_utf8_def to_valid_utf8_id
        transfer_fields_def zero_transfer_def field_for_def int64_field_FormatInt time_field_text\<close>)
qed

lemma decode_account:
  assumes "time_documented T" and "account_utf8 a" and "marshal_account T a = Some v"
  shows "\<exists>kvs. v = JObject kvs \<and> json_ok (Suc n) v \<and>
    decode_members False (account_fields T) kvs zero_account None = Inr (a\<lparr>acc_user_id := ''''\<rparr>)"
proof -
  from assms(3) obtain c u where times: "tm_MarshalText T (acc_created_at a) = Some c"
      "tm_MarshalText T (acc_updated_at a) = Some u"
    by (auto simp: marshal_account_def time_members_Some)
  note read = times [THEN time_documentedD(1) [OF assms(1)]] times [THEN time_documentedD(2) [OF assms(1)]]
  show ?thesis
    using assms(2,3) times read member_names_utf8 FormatInt_literal
    by (auto simp: marshal_account_def time_members_def member_defs account_utf8_def to_valid_utf8_id
        account_fields_def zero_account_def field_for_def int64_field_FormatInt time_field_text)
qed

text \<open>An object that the encoder has written reaches the client's decoder.\<close>

lemma client_reads_object:
  assumes "\<And>n. json_ok (Suc n) (JObject kvs)"
  shows "client_decode fs zero (encode_json (JObject kvs) @ [CHR 0x0A]) = decode_members False fs kvs zero None"
proof -
  obtain m where "max_nesting_depth = Suc m" by (simp add: max_nesting_depth_def numeral_eq_Suc)
  with assms have "json_ok max_nesting_depth (JObject kvs)" by metis
  from scan_encoded_object [OF this] show ?thesis
    by (simp add: client_decode_def decode_next_def del: encode_json.simps)
qed

lemma client_reads_transfer:
  assumes "time_documented T" and "transfer_utf8 t" and "marshal_transfer T t \<noteq> None"
  shows "client_decode (transfer_fields T) zero_transfer (Encode T (JsonTransfer t)) = Inr t"
proof -
  from assms(3) obtain v where v: "marshal_transfer T t = Some v" by blast
  from decode_transfer [OF assms(1,2) v] obtain kvs where "v = JObject kvs" "\<And>n. json_ok (Suc n) v"
    "decode_members False (transfer_fields T) kvs zero_transfer None = Inr t" by blast
  with v client_reads_object [of kvs "transfer_fields T" zero_transfer] show ?thesis by (simp add: Encode_def del: encode_json.simps json_ok.simps)
qed

lemma client_reads_account:
  assumes "time_documented T" and "account_utf8 a" and "marshal_account T a \<noteq> None"
  shows "client_decode (account_fields T) zero_account (Encode T (JsonAccount a)) = Inr (a\<lparr>acc_user_id := ''''\<rparr>)"
proof -
  from assms(3) obtain v where v: "marshal_account T a = Some v" by blast
  from decode_account [OF assms(1,2) v] obtain kvs where "v = JObject kvs" "\<And>n. json_ok (Suc n) v"
    "decode_members False (account_fields T) kvs zero_account None = Inr (a\<lparr>acc_user_id := ''''\<rparr>)" by blast
  with v client_reads_object [of kvs "account_fields T" zero_account] show ?thesis by (simp add: Encode_def del: encode_json.simps json_ok.simps)
qed

end
