(* ===== verification/Response_Results.thy ===== *)
theory Response_Results
  imports Http_Results Responses
begin

text \<open>
  What a client of the API reads: the bytes of the answer to \<^verbatim>\<open>POST /transfers\<close>, from the tables
  over the service and the handler to the encoder, and back through the client's decoder.
\<close>

subsection \<open>Text in the tables\<close>

text \<open>Every row of \<^verbatim>\<open>transfers\<close> was inserted by a statement that checked its text.\<close>

definition rows_text :: "db \<Rightarrow> bool" where
  "rows_text db \<longleftrightarrow> list_all (\<lambda>t. list_all pg_text (transfers_texts t)) (db_transfers db)"

definition uuid_text_utf8 :: "pg \<Rightarrow> bool" where
  "uuid_text_utf8 P \<longleftrightarrow> (\<forall>u. utf8_valid (pg_uuid_text P u))"

lemma create_tx_rows:
  assumes "create_tx (txRepositories P c) u key r db = (db', Inr (tr, created))" and "rows_text db"
  shows "rows_text db'"
  using assms(1)
proof (cases rule: create_tx_InrE)
  case (1 m src dst st reason src' dst' s1)
  have "rows_text s1"
    using 1(8) assms(2)
    by (auto simp: txRepositories_def CreateIdempotent_Inr rows_text_def sql_insert_transfer_Inr
        dest!: insert_new_Inr(1))
  moreover have "db_transfers db' = db_transfers s1"
    using 1(9)
    by (auto simp: txRepositories_def Append_def sql_insert_ledger_def dest!: SaveBalances_eq(1)
        split: if_splits option.splits)
  ultimately show ?thesis by (simp add: rows_text_def)
qed

lemma service_rows:
  assumes "rows_text db"
  shows "rows_text (fst (service_Create P c u key r db))"
proof -
  obtain db' res where run: "Create (pg_transfer_service P c) u key r db = (db', res)" by fastforce
  then have "rows_text db'"
  proof (cases rule: Create_cases)
    case (ran res')
    then show ?thesis
      using pg_store.keeps [of "\<lambda>tx. create_tx tx u key r" P c db rows_text] create_tx_rows assms by force
  qed (use assms in simp_all)
  with run show ?thesis by (simp add: service_Create_def)
qed

lemma row_transfer_utf8:
  assumes "uuid_text_utf8 P" and "list_all pg_text (transfers_texts t)"
  shows "transfer_utf8 (transfer_of_row P t)"
proof -
  have "utf8_valid []" by (simp add: utf8_valid.simps)
  with assms show ?thesis
    by (auto simp: uuid_text_utf8_def transfers_texts_def transfer_utf8_def transfer_of_row_def pg_text_def
        split: option.splits)
qed

lemma stored_transfer_utf8:
  assumes "pg_inv P db" and "rows_text db" and "uuid_text_utf8 P" and "transfer_at P db k = Some (tr, r)"
  shows "transfer_utf8 tr"
  using assms row_transfer_utf8 [OF assms(3)]
  by (auto simp: transfer_at_Some pg_inv_def rows_text_def list_all_iff)

subsection \<open>Answers with a transfer\<close>

lemma create_response_refused:
  assumes "pristine (wd_writer wd)"
  shows "\<exists>st m. answered st (JsonError m) (wd_writer (create_response (Inl e) q wd))"
  using answered_writeError [OF assms] by (auto simp: create_response_def log_error_def)

text \<open>The handler answers with a transfer exactly when the service returned it.\<close>

lemma api_serve_transfer:
  assumes call: "api_call X app (c, env, r) = Some (c', u, key, q)"
    and body: "rw_body (wd_writer (api_serve X app (c, env, r) db)) = [JsonTransfer tr]"
  obtains created where "service_Create (ex_pg X) c u key q db = (wd_store (api_serve X app (c, env, r) db), Inr (tr, created))"
    "rw_status (wd_writer (api_serve X app (c, env, r) db)) = Some (transferStatusCode tr created)"
    "rw_sent (wd_writer (api_serve X app (c, env, r) db)) ''Idempotent-Replayed'' =
      (if created then None else Some ''true'')"
proof -
  obtain db' res where run: "service_Create (ex_pg X) c u key q db = (db', res)" by fastforce
  note w = api_serve_writer [OF call, of db, unfolded run snd_conv]
  have store: "db' = wd_store (api_serve X app (c, env, r) db)"
    using call api_call_Some(1) [OF call] run by (simp add: api_serve_store)
  show ?thesis
  proof (cases res)
    case (Inl e)
    have "pristine (wd_writer \<lparr>wd_store = (), wd_writer = post_writer env r, wd_log = []\<rparr>)" by simp
    from create_response_refused [OF this, of e r] obtain st m where
      "rw_body (api_respond X app (c, env, r) res) = [JsonError m]"
      unfolding Inl api_respond_call [OF call] answered_def by auto
    with body w show ?thesis by simp
  next
    case (Inr x)
    then obtain tr' created where x: "res = Inr (tr', created)" by (cases x) auto
    then have "tr' = tr" using body w api_respond_ok(2) [OF call] by simp
    with that run store x w api_respond_ok [OF call, of tr created] show ?thesis by simp
  qed
qed

subsection \<open>A sample of times and text\<close>

lemma ascii_utf8: "list_all (\<lambda>c. byte_in 0x00 0x7F c) s \<Longrightarrow> utf8_valid s"
proof (induction s)
  case (Cons c s)
  then have "utf8_size (c # s) = 1" by (simp add: utf8_size.simps byte_in_def)
  with Cons show ?case by (subst utf8_valid.simps) simp
qed (simp add: utf8_valid.simps)

lemma digits_ascii: "list_all is_digit s \<Longrightarrow> list_all (\<lambda>c. byte_in 0x00 0x7F c) s"
  by (auto simp: list_all_iff is_digit_def byte_in_def)

lemma decimal_utf8: "utf8_valid (nat_decimal n)"
  by (rule ascii_utf8) (rule digits_ascii [OF nat_decimal_digits])

lemma pack_int_utf8: "utf8_valid (pack_int n)"
  by (rule ascii_utf8) (use digits_ascii [OF nat_decimal_digits] in \<open>auto simp: pack_int_def byte_in_def\<close>)

definition sample_times :: time_codec where
  "sample_times = \<lparr>tm_MarshalText = (\<lambda>t. Some (pack_int t)), tm_UnmarshalText = (\<lambda>s. Some (unpack_int s))\<rparr>"

lemma sample_times_documented: "time_documented sample_times"
  by (simp add: time_documented_def sample_times_def pack_int_utf8)

lemma sample_uuid_utf8: "uuid_text_utf8 sample_pg"
  by (simp add: uuid_text_utf8_def sample_pg_def decimal_utf8)

lemma sample_marshals: "marshal_transfer sample_times t \<noteq> None"
  by (simp add: marshal_transfer_def time_members_def sample_times_def)

lemma sample_answers:
  "rw_body (wd_writer (api_serve sample_externals sample_app (sample_call 7, sample_env, sample_http) sample_db))
     = [JsonTransfer sample_transfer]"
  "wd_store (api_serve sample_externals sample_app (sample_call 7, sample_env, sample_http) sample_db) = sample_paid"
  by (simp_all add: api_serve_writer [OF sample_api_call] api_respond_ok(2) [OF sample_api_call] api_serve_store
      sample_api_call)
    (simp_all add: sample_externals_def sample_pays api_respond_ok(2) [OF sample_api_call, unfolded sample_externals_def])

subsection \<open>What the client holds\<close>

text \<open>
  C17. A client that decodes the bytes of a successful answer holds exactly the transfer that
  the database stores under its key: identifier, accounts, amount, currency, description,
  status, failure reason and times, for an amount of any size and any text in the description.
\<close>

theorem client_reads_stored_transfer:
  assumes call: "api_call X app (c, env, r) = Some (c', u, key, q)"
    and inv: "pg_inv (ex_pg X) db" "rows_text db" "uuid_text_utf8 (ex_pg X)" and T: "time_documented T"
    and body: "rw_body (wd_writer (api_serve X app (c, env, r) db)) = [JsonTransfer tr]" "marshal_transfer T tr \<noteq> None"
  shows "client_decode (transfer_fields T) zero_transfer (response_bytes T (wd_writer (api_serve X app (c, env, r) db)))
      = Inr tr \<and>
    (\<exists>k. key_of (ex_pg X) key = Some k \<and>
      transfer_at (ex_pg X) (wd_store (api_serve X app (c, env, r) db)) (u, k) = Some (tr, q)) \<and>
    tr_amount tr = req_amount q \<and> tr_description tr = req_description q"
proof -
  let ?db = "wd_store (api_serve X app (c, env, r) db)"
  from api_serve_transfer [OF call body(1)] obtain created where
    run: "service_Create (ex_pg X) c u key q db = (?db, Inr (tr, created))" .
  from service_stored [OF inv(1) run] obtain k where k: "key_of (ex_pg X) key = Some k"
    "transfer_at (ex_pg X) ?db (u, k) = Some (tr, q)" by blast
  have inv': "pg_inv (ex_pg X) ?db" "rows_text ?db"
    using service_invar [OF inv(1), of c u key q] service_rows [OF inv(2), of "ex_pg X" c u key q] run by simp_all
  have "transfer_utf8 tr" using stored_transfer_utf8 [OF inv' inv(3) k(2)] .
  from client_reads_transfer [OF T this body(2)] have
    "client_decode (transfer_fields T) zero_transfer (response_bytes T (wd_writer (api_serve X app (c, env, r) db))) = Inr tr"
    by (simp add: response_bytes_def body(1))
  moreover have "tr_amount tr = req_amount q \<and> tr_description tr = req_description q"
    using k(2) inv'(1) by (auto simp: transfer_at_Some pg_inv_def transfer_of_row_def request_of_row_def)
  ultimately show ?thesis using k by blast
qed

theorem client_reads_stored_transfer_witness:
  "client_decode (transfer_fields sample_times) zero_transfer (response_bytes sample_times
     (wd_writer (api_serve sample_externals sample_app (sample_call 7, sample_env, sample_http) sample_db)))
     = Inr sample_transfer"
proof -
  have "rows_text sample_db" by (simp add: rows_text_def sample_db_def)
  then have "pg_inv (ex_pg sample_externals) sample_db" "rows_text sample_db" "uuid_text_utf8 (ex_pg sample_externals)"
    by (simp_all add: sample_externals_def sample_inv sample_uuid_utf8)
  from client_reads_stored_transfer [OF sample_api_call this sample_times_documented sample_answers(1) sample_marshals]
  show ?thesis by blast
qed

text \<open>
  C18. Retries are idempotent for the client: whatever requests are served between, a request
  under the same key that is answered with a transfer again gets, byte for byte, the same
  body, is marked as a replay, and changes nothing.
\<close>

theorem retry_gets_same_bytes:
  assumes inv: "pg_inv (ex_pg X) db"
    and first: "api_call X app (c, env, r) = Some (c1, u, key, q)"
      "rw_body (wd_writer (api_serve X app (c, env, r) db)) = [JsonTransfer tr]"
    and later: "db' = serve_all X app qs (wd_store (api_serve X app (c, env, r) db))"
    and retry: "api_call X app (c', env', r') = Some (c2, u, key', q')" "key_of (ex_pg X) key' = key_of (ex_pg X) key"
      "rw_body (wd_writer (api_serve X app (c', env', r') db')) = [JsonTransfer tr']"
  shows "response_bytes T (wd_writer (api_serve X app (c', env', r') db')) =
      response_bytes T (wd_writer (api_serve X app (c, env, r) db)) \<and>
    rw_sent (wd_writer (api_serve X app (c', env', r') db')) ''Idempotent-Replayed'' = Some ''true'' \<and>
    rw_status (wd_writer (api_serve X app (c', env', r') db')) = Some (if tr_status tr = TransferStatusFailed then 422 else 200) \<and>
    wd_store (api_serve X app (c', env', r') db') = db' \<and> q' = q"
proof -
  let ?db1 = "wd_store (api_serve X app (c, env, r) db)"
  from api_serve_transfer [OF first] obtain created where
    run: "service_Create (ex_pg X) c u key q db = (?db1, Inr (tr, created))" .
  from service_stored [OF inv run] obtain k where k: "key_of (ex_pg X) key = Some k"
    "transfer_at (ex_pg X) ?db1 (u, k) = Some (tr, q)" by blast
  have inv1: "pg_inv (ex_pg X) ?db1" using service_invar [OF inv, of c u key q] run by simp
  have inv': "pg_inv (ex_pg X) db'" and at: "transfer_at (ex_pg X) db' (u, k) = Some (tr, q)"
    unfolding later serve_all_calls using run_calls_inv [OF inv1] run_calls_transfers [OF inv1 k(2)] by simp_all
  from api_serve_transfer [OF retry(1,3)] obtain created' where
    again: "service_Create (ex_pg X) c' u key' q' db' = (wd_store (api_serve X app (c', env', r') db'), Inr (tr', created'))"
      "rw_status (wd_writer (api_serve X app (c', env', r') db')) = Some (transferStatusCode tr' created')"
      "rw_sent (wd_writer (api_serve X app (c', env', r') db')) ''Idempotent-Replayed'' =
        (if created' then None else Some ''true'')" .
  have "key_of (ex_pg X) key' = Some k" using k(1) retry(2) by simp
  from service_same_key [OF inv' this at again(1)] have
    "wd_store (api_serve X app (c', env', r') db') = db'" "q' = q" "tr' = tr" "\<not> created'" by blast+
  with again first(2) retry(3) show ?thesis by (simp add: response_bytes_def transferStatusCode_def)
qed

theorem retry_gets_same_bytes_witness:
  "response_bytes sample_times (wd_writer (api_serve sample_externals sample_app (sample_call 8, sample_env, sample_http)
     sample_paid)) =
   response_bytes sample_times (wd_writer (api_serve sample_externals sample_app (sample_call 7, sample_env, sample_http)
     sample_db))"
proof -
  have P: "ex_pg sample_externals = sample_pg" by (simp add: sample_externals_def)
  have "service_Create sample_pg (sample_call 8) ''alice'' ''42'' (sample_request ''a'' ''b'' 30) sample_paid
      = (sample_paid, Inr (sample_transfer, False))" by code_simp
  then have body: "rw_body (wd_writer (api_serve sample_externals sample_app (sample_call 8, sample_env, sample_http)
      sample_paid)) = [JsonTransfer sample_transfer]"
    by (simp add: api_serve_writer [OF sample_api_call] P api_respond_ok(2) [OF sample_api_call])
  have "sample_paid = serve_all sample_externals sample_app []
      (wd_store (api_serve sample_externals sample_app (sample_call 7, sample_env, sample_http) sample_db))"
    by (simp add: sample_answers)
  from retry_gets_same_bytes [OF _ sample_api_call sample_answers(1) this sample_api_call refl body, where T = sample_times]
  show ?thesis by (simp add: P sample_inv)
qed

end
