(* ===== verification/Access_Results.thy ===== *)
theory Access_Results
  imports Sample_Access Account_Service
begin

text \<open>
  What the account service, the token service and the login service promise, stated over the
  PostgreSQL repositories. Each result is the instance of a fact of the locales
  \<open>account_reads\<close> and \<open>user_reads\<close>, or combines it with the facts about tokens.
\<close>

subsection \<open>Accounts\<close>

text \<open>
  C31. Reading an account answers the account exactly when the caller owns it, and "not found"
  otherwise: an account of somebody else and one that does not exist cannot be told apart.
\<close>

theorem account_of_owner_only:
  assumes "db_ok db" and "owned_runs c db i u"
  shows "Account_Get (NewAccountService (NewAccountRepository P c)) db u i =
    (case account_at db i of
       Some a \<Rightarrow> if acc_user_id a = u then Inr a else Inl ErrAccountNotFound
     | None \<Rightarrow> Inl ErrAccountNotFound)"
  using assms by (rule pg_accounts.Get_answer)

theorem account_of_owner_only_witness:
  "Account_Get (NewAccountService (NewAccountRepository sample_pg (sample_call 1))) sample_db ''mallory'' ''a'' =
   Account_Get (NewAccountService (NewAccountRepository sample_pg (sample_call 1))) sample_db ''mallory'' ''nope''"
proof -
  have ok: "db_ok sample_db" using sample_inv by (simp add: pg_inv_def)
  have runs: "owned_runs (sample_call 1) sample_db ''a'' ''mallory''"
    "owned_runs (sample_call 1) sample_db ''nope'' ''mallory''" by code_simp+
  have "account_at sample_db ''a'' = Some (sample_account ''a'' ''alice'' ''PEN'' 100)"
    "account_at sample_db ''nope'' = None" by code_simp+
  then show ?thesis
    by (simp add: account_of_owner_only [OF ok runs(1)] account_of_owner_only [OF ok runs(2)]
        sample_account_def)
qed

text \<open>
  The list of a user's accounts and the single read agree: an account can be read by its
  identifier exactly when it is in the list, and with the same content; no account is listed
  twice.
\<close>

lemma account_list_agrees:
  assumes "db_ok db" and "Account_List (NewAccountService (NewAccountRepository P c)) db u = Inr as" and "owned_runs c db i u"
  shows "(Account_Get (NewAccountService (NewAccountRepository P c)) db u i = Inr a \<longleftrightarrow> a \<in> set as \<and> acc_id a = i) \<and>
    distinct (map acc_id as)"
proof
  show "Account_Get (NewAccountService (NewAccountRepository P c)) db u i = Inr a \<longleftrightarrow> a \<in> set as \<and> acc_id a = i"
    using assms by (rule pg_accounts.List_Get_agree)
  have "list_runs c db u"
    using pg_accounts.unlisted [of c db u P] assms(2) by (cases "list_runs c db u") (auto simp: list_defs)
  with pg_accounts.listed [OF assms(1) this, of P] assms(2) show "distinct (map acc_id as)"
    by (auto simp: list_defs)
qed

subsection \<open>Tokens\<close>

text \<open>
  C27. A token that is accepted was signed with the service's key by HS256, names the service
  as issuer and audience, has a subject, and was issued at most the token lifetime of 15
  minutes ago; it is refused from its expiry on.
\<close>

theorem accepted_token_is_bounded:
  assumes "jwt_documented J" and "Verify J s now raw = Inr c"
  shows "jwt_signed J HS256 (ts_key s) raw c \<and> cl_issuer c = ts_issuer s \<and> ts_audience s \<in> set (cl_audience c) \<and>
    TrimSpace (cl_subject c) \<noteq> '''' \<and>
    (\<exists>issued expires. cl_issued_at c = Some issued \<and> cl_expires_at c = Some expires \<and>
       issued \<le> now \<and> now < expires \<and> expires \<le> issued + 15 * 60 * 1000000000)"
  using Verify_accepts [OF assms]
  by (auto simp: options_hold_def verify_options_def Claims_Validate_Inr AccessTokenTTL_def
      time_Minute_def time_Second_def)

theorem accepted_token_is_bounded_witness:
  "jwt_signed sample_jwt HS256 sample_key sample_token sample_claims"
  using accepted_token_is_bounded [OF sample_jwt_documented sample_verifies, of 7]
  by (simp add: sample_tokens_def)

text \<open>
  C28. A token issued at time \<open>t\<close> verifies, for the same user and permissions, at every moment
  until 15 minutes after the second of \<open>t\<close>.
\<close>

theorem issued_token_round_trip:
  assumes "jwt_documented J" and "Issue J s t u ps = Inr raw"
    and "list_all utf8_valid (u # ts_issuer s # ts_audience s # ps)"
    and "t \<le> now" and "now < t - t mod time_Second + AccessTokenTTL"
  shows "\<exists>c. Verify J s now raw = Inr c \<and> cl_subject c = u \<and> cl_permissions c = ps"
proof -
  have "now < jwt_NewNumericDate J t + AccessTokenTTL"
    using assms(1,5) by (simp add: jwt_documented_def dates_truncate_def)
  from Issue_verifies [OF assms(1-4) this] show ?thesis by (simp add: issued_claims_def)
qed

theorem issued_token_round_trip_witness:
  "\<exists>c. Verify sample_jwt sample_tokens 899999999999 sample_token = Inr c \<and> cl_subject c = ''alice''"
  using issued_token_round_trip [OF sample_jwt_documented sample_issues sample_utf8, of 899999999999]
  by (auto simp: time_Second_def AccessTokenTTL_def time_Minute_def)

subsection \<open>Login\<close>

text \<open>
  C29. A login succeeds exactly when the database can be asked, the trimmed address belongs to a
  user, ignoring case as \<^verbatim>\<open>lower\<close> does, the password matches that user's hash, and a token for
  this user with the stored permissions can be issued, which is then the answer.
\<close>

theorem login_exactly_with_credentials:
  assumes "users_ok P db"
  shows "(\<exists>hs. Login J B (NewUserRepository P c) ls db now email password = (hs, Inr raw)) \<longleftrightarrow>
    TrimSpace email \<noteq> '''' \<and> password \<noteq> '''' \<and> email_runs c db (TrimSpace email) \<and>
    (\<exists>u. user_with_email P db (TrimSpace email) u \<and> bc_matches B (usr_password_hash u) password \<and>
       Issue J (ls_tokens ls) now (usr_id u) (usr_permissions u) = Inr raw)"
    (is "?ok \<longleftrightarrow> ?creds")
proof
  assume ?ok
  then obtain hs where ok: "Login J B (NewUserRepository P c) ls db now email password = (hs, Inr raw)" ..
  from pg_users.Login_Inr [OF assms ok] obtain u where "user_with_email P db (TrimSpace email) u"
    "bc_matches B (usr_password_hash u) password" "Issue J (ls_tokens ls) now (usr_id u) (usr_permissions u) = Inr raw"
    by blast
  moreover have "TrimSpace email \<noteq> ''''" "password \<noteq> ''''"
    using ok by (auto simp: Login_def Let_def split: if_splits)
  moreover from this have "email_runs c db (TrimSpace email)"
    using pg_users.Login_broken [of c db email password J B P ls now] ok by auto
  ultimately show ?creds by blast
next
  assume ?creds
  then show ?ok using pg_users.Login_credentials [OF assms] by metis
qed

theorem login_exactly_with_credentials_witness:
  "\<exists>u. user_with_email sample_pg sample_bank ''alice@x'' u \<and>
     Issue sample_jwt sample_tokens 5 (usr_id u) (usr_permissions u) = Inr sample_token"
proof -
  have "TrimSpace '' alice@x '' = ''alice@x''" by code_simp
  with login_exactly_with_credentials [OF sample_bank_users, of sample_jwt sample_bcrypt "sample_call 1"
      sample_login 5 "'' alice@x ''" "''secret''" sample_token] sample_logs_in
  show ?thesis by (auto simp: sample_login_def NewLoginService_def)
qed

text \<open>
  C30. A failed login does not tell whether the address exists: with a working database, every
  attempt with an address and a password that do not match a user gives the same error after
  exactly one comparison by bcrypt.
\<close>

theorem failed_logins_alike:
  assumes "users_ok P db" and "email_runs c db (TrimSpace email)" and "TrimSpace email \<noteq> ''''"
    and "password \<noteq> ''''"
    and "\<forall>u. user_with_email P db (TrimSpace email) u \<longrightarrow> \<not> bc_matches B (usr_password_hash u) password"
  shows "snd (Login J B (NewUserRepository P c) ls db now email password) = Inl ErrInvalidCredentials \<and>
    length (fst (Login J B (NewUserRepository P c) ls db now email password)) = 1"
proof -
  have "\<not> bc_matches B (usr_password_hash u) password" if "user_with_email P db (TrimSpace email) u" for u
    using assms(5) that by blast
  from pg_users.Login_rejects [OF assms(1-4) this, of J ls now] show ?thesis by auto
qed

theorem failed_logins_alike_witness:
  "snd (Login sample_jwt sample_bcrypt (NewUserRepository sample_pg (sample_call 1)) sample_login sample_bank 5
     ''alice@x'' ''wrong'') =
   snd (Login sample_jwt sample_bcrypt (NewUserRepository sample_pg (sample_call 1)) sample_login sample_bank 5
     ''nobody@x'' ''wrong'')"
proof -
  note alike = failed_logins_alike [OF sample_bank_users, of "sample_call 1"]
  have t: "TrimSpace ''alice@x'' = ''alice@x''" "TrimSpace ''nobody@x'' = ''nobody@x''" by code_simp+
  have r: "email_runs (sample_call 1) sample_bank ''alice@x''" "email_runs (sample_call 1) sample_bank ''nobody@x''"
    by code_simp+
  have m: "\<not> bc_matches sample_bcrypt (usr_password_hash u) ''wrong''" if "u \<in> set (db_users sample_bank)" for u
    using that by (auto simp: sample_bank_def sample_user_def sample_bcrypt_def)
  show ?thesis
    using alike [of "''alice@x''" "''wrong''"] alike [of "''nobody@x''" "''wrong''"] t r m
    by (simp add: user_with_email_def)
qed

end
