(* ===== verification/Config.thy ===== *)
theory Config
  imports Auth_Token Json_Codec
begin

text \<open>
  \<^verbatim>\<open>internal/config/config.go\<close>: reading the settings from the environment, with the parsers of
  the standard library it relies on. An environment is a function from names to values. The
  only part that is left open is the float64 arithmetic of fractional durations, the
  parameter \<open>fraction\<close>. The lemmas say what a configuration that was accepted guarantees to
  the rest of the program.
\<close>

subsection \<open>Base64\<close>

definition base64_alphabet :: string where
  "base64_alphabet = ''ABCDEFGHIJKLMNOPQRSTUVWXYZabcdefghijklmnopqrstuvwxyz0123456789+/''"

definition base64_val :: "char \<Rightarrow> nat option" where
  "base64_val c = map_of (zip base64_alphabet [0..<64]) c"

definition base64_bytes :: "nat \<Rightarrow> nat \<Rightarrow> nat \<Rightarrow> nat \<Rightarrow> string" where
  "base64_bytes a b c d =
     [char_of (a * 4 + b div 16), char_of (b mod 16 * 16 + c div 4), char_of (c mod 4 * 64 + d)]"

text \<open>
  Groups of four characters without the line breaks; the result is the decoded bytes and
  whether the input was corrupt. Bytes decoded before the corruption are kept.
\<close>

fun base64_groups :: "string \<Rightarrow> string \<times> bool" where
  "base64_groups [] = ([], False)"
| "base64_groups (a # b # c # d # rest) =
     (case (base64_val a, base64_val b, base64_val c, base64_val d) of
        (Some x, Some y, Some z, Some w) \<Rightarrow>
          (case base64_groups rest of (bs, err) \<Rightarrow> (base64_bytes x y z w @ bs, err))
      | (Some x, Some y, Some z, None) \<Rightarrow>
          if d = CHR ''='' then (take 2 (base64_bytes x y z 0), rest \<noteq> []) else ([], True)
      | (Some x, Some y, None, None) \<Rightarrow>
          if c = CHR ''='' \<and> d = CHR ''='' then (take 1 (base64_bytes x y 0 0), rest \<noteq> []) else ([], True)
      | _ \<Rightarrow> ([], True))"
| "base64_groups _ = ([], True)"

definition base64_DecodeString :: "string \<Rightarrow> string \<times> bool" where
  "base64_DecodeString s = base64_groups (filter (\<lambda>c. c \<noteq> CHR 0x0A \<and> c \<noteq> CHR 0x0D) s)"

subsection \<open>Log levels, durations, booleans\<close>

text \<open>\<^verbatim>\<open>strings.ToUpper\<close> as far as a level name can be affected.\<close>

fun to_upper :: "string \<Rightarrow> string" where
  "to_upper [] = []"
| "to_upper (c # cs) =
     (if c = CHR 0xC4 \<and> take 1 cs = [CHR 0xB1] then CHR ''I'' # to_upper (drop 1 cs)
      else if c = CHR 0xC5 \<and> take 1 cs = [CHR 0xBF] then CHR ''S'' # to_upper (drop 1 cs)
      else (if byte_in 0x61 0x7A c then char_of (of_char c - 32 :: nat) else c) # to_upper cs)"

definition level_names :: "(string \<times> i64) list" where
  "level_names = [(''DEBUG'', - 4), (''INFO'', 0), (''WARN'', 4), (''ERROR'', 8)]"

definition Level_UnmarshalText :: "string \<Rightarrow> i64 option" where
  "Level_UnmarshalText s =
     (let name = takeWhile (\<lambda>c. c \<noteq> CHR ''+'' \<and> c \<noteq> CHR ''-'') s;
          rest = drop (length name) s;
          offset = (if rest = [] then Some 0 else ParseInt 64 rest)
      in case (offset, map_of level_names (to_upper name)) of
           (Some n, Some l) \<Rightarrow> Some (l + word_of_int n)
         | _ \<Rightarrow> None)"

definition duration_units :: "(string \<times> nat) list" where
  "duration_units =
     [(''ns'', 1), (''us'', 1000), ([CHR 0xC2, CHR 0xB5, CHR ''s''], 1000),
      ([CHR 0xCE, CHR 0xBC, CHR ''s''], 1000), (''ms'', 1000000), (''s'', 1000000000),
      (''m'', 60000000000), (''h'', 3600000000000)]"

text \<open>\<open>fraction f n unit\<close> is \<^verbatim>\<open>uint64(float64(f) * (float64(unit) / scale))\<close>, \<open>n\<close> digits after
  the point.\<close>

type_synonym fraction = "nat \<Rightarrow> nat \<Rightarrow> nat \<Rightarrow> nat"

text \<open>One number with its unit: the nanoseconds and the rest of the text.\<close>

definition duration_part :: "fraction \<Rightarrow> string \<Rightarrow> (nat \<times> string) option" where
  "duration_part fraction s =
     (let ip = takeWhile is_digit s; s1 = dropWhile is_digit s;
          dotted = (s1 \<noteq> [] \<and> hd s1 = CHR ''.'');
          fp = (if dotted then takeWhile is_digit (tl s1) else []);
          s2 = (if dotted then dropWhile is_digit (tl s1) else s1);
          u = takeWhile (\<lambda>c. c \<noteq> CHR ''.'' \<and> \<not> is_digit c) s2;
          v = decimal_val ip
      in if ip = [] \<and> fp = [] \<or> v > 2 ^ 63 then None
         else case map_of duration_units u of
           None \<Rightarrow> None
         | Some unit \<Rightarrow>
             if v > 2 ^ 63 div unit then None
             else let w = v * unit + (if decimal_val fp > 0 then fraction (decimal_val fp) (length fp) unit else 0) in
               if w > 2 ^ 63 then None else Some (w, drop (length u) s2))"

lemma duration_part_shorter:
  assumes "duration_part fraction s = Some (w, rest)"
  shows "length rest < length s"
proof -
  define s1 where "s1 = dropWhile is_digit s"
  define s2 where "s2 = (if s1 \<noteq> [] \<and> hd s1 = CHR ''.'' then dropWhile is_digit (tl s1) else s1)"
  define u where "u = takeWhile (\<lambda>c. c \<noteq> CHR ''.'' \<and> \<not> is_digit c) s2"
  have "map_of duration_units u \<noteq> None" and rest: "rest = drop (length u) s2"
    using assms by (auto simp: duration_part_def Let_def s1_def s2_def u_def split: if_splits option.splits)
  then have "u \<noteq> []" by (auto simp: duration_units_def)
  moreover have "length s2 \<le> length s"
    using length_dropWhile_le [of is_digit s] length_dropWhile_le [of is_digit "tl s1"]
    by (auto simp: s2_def s1_def)
  moreover have "length u \<le> length s2" unfolding u_def by (rule length_takeWhile_le)
  ultimately show ?thesis by (auto simp: rest neq_Nil_conv)
qed

text \<open>The total is an unsigned 64-bit number and wraps around.\<close>

function duration_sum :: "fraction \<Rightarrow> nat \<Rightarrow> string \<Rightarrow> nat option" where
  "duration_sum fraction d s =
     (if s = [] then Some d
      else case duration_part fraction s of
        None \<Rightarrow> None
      | Some (w, rest) \<Rightarrow>
          let d' = (d + w) mod 2 ^ 64 in
          if d' > 2 ^ 63 then None else duration_sum fraction d' rest)"
  by pat_completeness auto
termination
  by (relation "measure (\<lambda>(_, _, s). length s)") (auto dest: duration_part_shorter)

declare duration_sum.simps [simp del]

definition ParseDuration :: "fraction \<Rightarrow> string \<Rightarrow> int option" where
  "ParseDuration fraction s =
     (let signed = (s \<noteq> [] \<and> (hd s = CHR ''-'' \<or> hd s = CHR ''+''));
          neg = (signed \<and> hd s = CHR ''-'');
          s = (if signed then tl s else s)
      in if s = ''0'' then Some 0
         else if s = [] then None
         else case duration_sum fraction 0 s of
           None \<Rightarrow> None
         | Some d \<Rightarrow> if neg then Some (- int d) else if d > 2 ^ 63 - 1 then None else Some (int d))"

text \<open>The number \<^verbatim>\<open>strconv.ParseInt\<close> returns also with an error: the nearest bound when the value is
  out of range, 0 for a syntax error.\<close>

definition ParseInt_value :: "nat \<Rightarrow> string \<Rightarrow> int" where
  "ParseInt_value bits s =
     (case ParseInt bits s of
        Some v \<Rightarrow> v
      | None \<Rightarrow>
          let signed = (s \<noteq> [] \<and> (hd s = CHR ''-'' \<or> hd s = CHR ''+''));
              ds = (if signed then tl s else s)
          in if ds = [] \<or> \<not> list_all is_digit ds then 0
             else if hd s = CHR ''-'' then - (2 ^ (bits - 1)) else 2 ^ (bits - 1) - 1)"

definition ParseBool :: "string \<Rightarrow> bool option" where
  "ParseBool s =
     (if s \<in> {''1'', ''t'', ''T'', ''TRUE'', ''true'', ''True''} then Some True
      else if s \<in> {''0'', ''f'', ''F'', ''FALSE'', ''false'', ''False''} then Some False
      else None)"

subsection \<open>The configuration\<close>

record config =
  cfg_HTTPAddr :: string
  cfg_DatabaseURL :: string
  cfg_JWTSecret :: string
  cfg_JWTIssuer :: string
  cfg_JWTAudience :: string
  cfg_LogLevel :: i64
  cfg_DBMaxConns :: int
  cfg_RequestTimeout :: int
  cfg_ShutdownTimeout :: int
  cfg_RunMigrations :: bool
  cfg_SeedDemoData :: bool
  cfg_DemoPassword :: string

type_synonym getenv = "string \<Rightarrow> string"

definition HTTPAddr :: "getenv \<Rightarrow> string" where
  "HTTPAddr getenv =
     (if TrimSpace (getenv ''HTTP_ADDR'') \<noteq> '''' then TrimSpace (getenv ''HTTP_ADDR'')
      else if TrimSpace (getenv ''PORT'') \<noteq> '''' then CHR '':'' # TrimSpace (getenv ''PORT'')
      else '':8080'')"

definition withDefault :: "string \<Rightarrow> string \<Rightarrow> string" where
  "withDefault value fallback = (if TrimSpace value = '''' then fallback else TrimSpace value)"

text \<open>\<open>duration\<close> and \<open>boolean\<close> append to the list of errors and fall back.\<close>

definition duration :: "fraction \<Rightarrow> getenv \<Rightarrow> string \<Rightarrow> int \<Rightarrow> go_error list \<Rightarrow> int \<times> go_error list" where
  "duration fraction getenv name fallback errs =
     (let raw = TrimSpace (getenv name) in
      if raw = '''' then (fallback, errs)
      else case ParseDuration fraction raw of
        Some d \<Rightarrow>
          if d \<le> 0 then (fallback, errs @ [ErrorsNew (name @ '' must be a positive duration like 10s'')])
          else (d, errs)
      | None \<Rightarrow> (fallback, errs @ [ErrorsNew (name @ '' must be a positive duration like 10s'')]))"

definition boolean :: "getenv \<Rightarrow> string \<Rightarrow> bool \<Rightarrow> go_error list \<Rightarrow> bool \<times> go_error list" where
  "boolean getenv name fallback errs =
     (let raw = TrimSpace (getenv name) in
      if raw = '''' then (fallback, errs)
      else case ParseBool raw of
        None \<Rightarrow> (fallback, errs @ [ErrorsNew (name @ '' must be true or false'')])
      | Some b \<Rightarrow> (b, errs))"

text \<open>
  \<^verbatim>\<open>Load\<close> returns the configuration and the errors it found, in order; \<^verbatim>\<open>errors.Join\<close> of no
  errors is nil.
\<close>

definition Load :: "fraction \<Rightarrow> getenv \<Rightarrow> config \<times> go_error list" where
  "Load fraction getenv =
     (let url = TrimSpace (getenv ''DATABASE_URL'');
          errs = (if url = '''' then [ErrorsNew ''DATABASE_URL is required''] else []);
          (secret, corrupt) = base64_DecodeString (TrimSpace (getenv ''JWT_SECRET''));
          errs = (if corrupt \<or> length secret < 32
                  then errs @ [ErrorsNew ''JWT_SECRET must be a base64-encoded key of at least 32 bytes'']
                  else errs);
          level = Level_UnmarshalText (withDefault (getenv ''LOG_LEVEL'') ''info'');
          errs = (if level = None then errs @ [Wrapped ''LOG_LEVEL'' (ErrorsNew ''slog: level string'')] else errs);
          conns = withDefault (getenv ''DB_MAX_CONNS'') ''20'';
          maxConns = ParseInt_value 32 conns;
          errs = (if ParseInt 32 conns = None \<or> maxConns < 1
                  then errs @ [ErrorsNew ''DB_MAX_CONNS must be a positive integer''] else errs);
          (requestTimeout, errs) = duration fraction getenv ''REQUEST_TIMEOUT'' (10 * time_Second) errs;
          (shutdownTimeout, errs) = duration fraction getenv ''SHUTDOWN_TIMEOUT'' (10 * time_Second) errs;
          (runMigrations, errs) = boolean getenv ''RUN_MIGRATIONS'' True errs;
          (seedDemoData, errs) = boolean getenv ''SEED_DEMO_DATA'' False errs;
          demoPassword = getenv ''DEMO_PASSWORD'';
          errs = (if seedDemoData \<and> length demoPassword < 8
                  then errs @ [ErrorsNew ''DEMO_PASSWORD must have at least 8 characters when SEED_DEMO_DATA is enabled'']
                  else errs)
      in (\<lparr>cfg_HTTPAddr = HTTPAddr getenv, cfg_DatabaseURL = url, cfg_JWTSecret = secret,
           cfg_JWTIssuer = withDefault (getenv ''JWT_ISSUER'') ''bankmonitoring'',
           cfg_JWTAudience = withDefault (getenv ''JWT_AUDIENCE'') ''bankmonitoring-api'',
           cfg_LogLevel = (case level of None \<Rightarrow> 0 | Some l \<Rightarrow> l),
           cfg_DBMaxConns = maxConns,
           cfg_RequestTimeout = requestTimeout, cfg_ShutdownTimeout = shutdownTimeout,
           cfg_RunMigrations = runMigrations, cfg_SeedDemoData = seedDemoData,
           cfg_DemoPassword = demoPassword\<rparr>, errs))"

subsection \<open>The errors of a configuration\<close>

text \<open>What one variable contributes to the list of errors.\<close>

definition duration_errors :: "fraction \<Rightarrow> getenv \<Rightarrow> string \<Rightarrow> go_error list" where
  "duration_errors fraction getenv name = snd (duration fraction getenv name 0 [])"

definition boolean_errors :: "getenv \<Rightarrow> string \<Rightarrow> go_error list" where
  "boolean_errors getenv name = snd (boolean getenv name False [])"

lemma snd_duration: "snd (duration fraction getenv name fallback errs) = errs @ duration_errors fraction getenv name"
  by (simp add: duration_errors_def duration_def Let_def split: option.split)

lemma fst_duration:
  "fst (duration fraction getenv name fallback errs) = fst (duration fraction getenv name fallback [])"
  "0 < fallback \<Longrightarrow> 0 < fst (duration fraction getenv name fallback errs)"
  by (simp_all add: duration_def Let_def split: option.split)

lemma snd_boolean: "snd (boolean getenv name fallback errs) = errs @ boolean_errors getenv name"
  by (simp add: boolean_errors_def boolean_def Let_def split: option.split)

lemma fst_boolean: "fst (boolean getenv name fallback errs) = fst (boolean getenv name fallback [])"
  by (simp add: boolean_def Let_def split: option.split)

lemma append_if: "(if b then xs @ [x] else xs) = xs @ (if b then [x] else [])"
  by simp

text \<open>Every variable that is missing or malformed is reported, in the order of the code.\<close>

lemma Load_errors:
  "snd (Load fraction getenv) =
     (if TrimSpace (getenv ''DATABASE_URL'') = '''' then [ErrorsNew ''DATABASE_URL is required''] else []) @
     (if snd (base64_DecodeString (TrimSpace (getenv ''JWT_SECRET''))) \<or>
         length (fst (base64_DecodeString (TrimSpace (getenv ''JWT_SECRET'')))) < 32
      then [ErrorsNew ''JWT_SECRET must be a base64-encoded key of at least 32 bytes''] else []) @
     (if Level_UnmarshalText (withDefault (getenv ''LOG_LEVEL'') ''info'') = None
      then [Wrapped ''LOG_LEVEL'' (ErrorsNew ''slog: level string'')] else []) @
     (if ParseInt 32 (withDefault (getenv ''DB_MAX_CONNS'') ''20'') = None \<or>
         ParseInt_value 32 (withDefault (getenv ''DB_MAX_CONNS'') ''20'') < 1
      then [ErrorsNew ''DB_MAX_CONNS must be a positive integer''] else []) @
     duration_errors fraction getenv ''REQUEST_TIMEOUT'' @ duration_errors fraction getenv ''SHUTDOWN_TIMEOUT'' @
     boolean_errors getenv ''RUN_MIGRATIONS'' @ boolean_errors getenv ''SEED_DEMO_DATA'' @
     (if fst (boolean getenv ''SEED_DEMO_DATA'' False []) \<and> length (getenv ''DEMO_PASSWORD'') < 8
      then [ErrorsNew ''DEMO_PASSWORD must have at least 8 characters when SEED_DEMO_DATA is enabled''] else [])"
  by (simp only: Load_def Let_def case_prod_unfold append_if snd_conv snd_duration snd_boolean
      fst_boolean [of _ _ _ "_ @ _"] append_assoc)

lemma Load_fields:
  "cfg_DatabaseURL (fst (Load fraction getenv)) = TrimSpace (getenv ''DATABASE_URL'')"
  "cfg_JWTSecret (fst (Load fraction getenv)) = fst (base64_DecodeString (TrimSpace (getenv ''JWT_SECRET'')))"
  "cfg_DBMaxConns (fst (Load fraction getenv)) = ParseInt_value 32 (withDefault (getenv ''DB_MAX_CONNS'') ''20'')"
  "cfg_RequestTimeout (fst (Load fraction getenv)) = fst (duration fraction getenv ''REQUEST_TIMEOUT'' (10 * time_Second) [])"
  "cfg_ShutdownTimeout (fst (Load fraction getenv)) = fst (duration fraction getenv ''SHUTDOWN_TIMEOUT'' (10 * time_Second) [])"
  "cfg_SeedDemoData (fst (Load fraction getenv)) = fst (boolean getenv ''SEED_DEMO_DATA'' False [])"
  "cfg_DemoPassword (fst (Load fraction getenv)) = getenv ''DEMO_PASSWORD''"
  "cfg_JWTIssuer (fst (Load fraction getenv)) = withDefault (getenv ''JWT_ISSUER'') ''bankmonitoring''"
  "cfg_JWTAudience (fst (Load fraction getenv)) = withDefault (getenv ''JWT_AUDIENCE'') ''bankmonitoring-api''"
  by (simp_all only: Load_def Let_def case_prod_unfold fst_conv config.simps fst_boolean [of _ _ _ "_ @ _"]
      fst_duration(1) [of _ _ _ _ "_ @ _"] snd_duration snd_boolean append_if append_assoc append_Nil)

subsection \<open>What an accepted configuration guarantees\<close>

lemma withDefault_not_blank: "TrimSpace fallback \<noteq> '''' \<Longrightarrow> TrimSpace (withDefault v fallback) \<noteq> ''''"
  by (simp add: withDefault_def)

lemma Load_ok:
  assumes load: "Load fraction getenv = (cfg, [])"
  shows "TrimSpace (cfg_DatabaseURL cfg) \<noteq> '''' \<and> 32 \<le> length (cfg_JWTSecret cfg) \<and>
    1 \<le> cfg_DBMaxConns cfg \<and> 0 < cfg_RequestTimeout cfg \<and> 0 < cfg_ShutdownTimeout cfg \<and>
    (cfg_SeedDemoData cfg \<longrightarrow> 8 \<le> length (cfg_DemoPassword cfg)) \<and>
    cfg_JWTIssuer cfg = withDefault (getenv ''JWT_ISSUER'') ''bankmonitoring'' \<and>
    cfg_JWTAudience cfg = withDefault (getenv ''JWT_AUDIENCE'') ''bankmonitoring-api'' \<and>
    base64_DecodeString (TrimSpace (getenv ''JWT_SECRET'')) = (cfg_JWTSecret cfg, False)"
proof -
  have cfg: "cfg = fst (Load fraction getenv)" and errs: "snd (Load fraction getenv) = []" using load by simp_all
  have "0 < 10 * time_Second" by (simp add: time_Second_def)
  with errs show ?thesis
    unfolding cfg Load_fields Load_errors by (simp add: fst_duration(2) prod_eq_iff not_less split: if_splits)
qed

text \<open>A timeout can be set to any positive duration.\<close>

lemma duration_20s:
  assumes "TrimSpace (getenv name) = ''20s''"
  shows "duration fraction getenv name fallback [] = (20 * time_Second, [])"
proof -
  have "ParseDuration fraction ''20s'' = Some (20 * time_Second)"
    by (simp add: ParseDuration_def duration_sum.simps duration_part_def duration_units_def decimal_val_def
        digit_val_def is_digit_def byte_in_def Let_def time_Second_def)
  with assms show ?thesis by (simp add: duration_def time_Second_def)
qed

lemma Load_20s:
  assumes "Load fraction getenv = (cfg, [])"
  shows "snd (Load fraction (getenv(''REQUEST_TIMEOUT'' := ''20s''))) = []"
    and "cfg_RequestTimeout (fst (Load fraction (getenv(''REQUEST_TIMEOUT'' := ''20s'')))) = 20 * time_Second"
proof -
  let ?g = "getenv(''REQUEST_TIMEOUT'' := ''20s'')"
  have "TrimSpace ''20s'' = ''20s''" by code_simp
  then have set: "duration fraction ?g ''REQUEST_TIMEOUT'' fallback [] = (20 * time_Second, [])" for fallback
    by (intro duration_20s) simp
  have same: "duration_errors fraction ?g ''SHUTDOWN_TIMEOUT'' = duration_errors fraction getenv ''SHUTDOWN_TIMEOUT''"
    "boolean_errors ?g ''RUN_MIGRATIONS'' = boolean_errors getenv ''RUN_MIGRATIONS''"
    "boolean_errors ?g ''SEED_DEMO_DATA'' = boolean_errors getenv ''SEED_DEMO_DATA''"
    "boolean ?g ''SEED_DEMO_DATA'' = boolean getenv ''SEED_DEMO_DATA''"
    by (simp_all add: duration_errors_def duration_def boolean_errors_def boolean_def fun_eq_iff)
  have "snd (Load fraction getenv) = []" using assms by simp
  then show "snd (Load fraction ?g) = []"
    by (simp add: Load_errors duration_errors_def [of _ ?g "''REQUEST_TIMEOUT''"] set same)
  show "cfg_RequestTimeout (fst (Load fraction ?g)) = 20 * time_Second" by (simp add: Load_fields set)
qed

end
