(* ===== verification/Seed.thy ===== *)
theory Seed
  imports Auth_Login Account_Service
begin

text \<open>
  \<^verbatim>\<open>internal/seed/demo.go\<close>: the demo users and accounts, the two upserts, and \<open>Demo\<close>, which
  runs on every start. The lemmas show that seeding keeps the constraints of the database and
  never touches a transfer, a ledger row or an existing account, and what it provides.
\<close>

subsection \<open>Demo data\<close>

record demo_account =
  da_id :: string
  da_currency :: string
  da_balance :: i64

record demo_user =
  du_id :: string
  du_email :: string
  du_accounts :: "demo_account list"

definition demoUsers :: "demo_user list" where
  "demoUsers =
     [\<lparr>du_id = ''user-alice'', du_email = ''alice@example.com'', du_accounts =
        [\<lparr>da_id = ''acc-alice-pen'', da_currency = ''PEN'', da_balance = 100000000\<rparr>,
         \<lparr>da_id = ''acc-alice-usd'', da_currency = ''USD'', da_balance = 100000000\<rparr>]\<rparr>,
      \<lparr>du_id = ''user-bob'', du_email = ''bob@example.com'', du_accounts =
        [\<lparr>da_id = ''acc-bob-pen'', da_currency = ''PEN'', da_balance = 100000000\<rparr>,
         \<lparr>da_id = ''acc-bob-usd'', da_currency = ''USD'', da_balance = 100000000\<rparr>]\<rparr>,
      \<lparr>du_id = ''user-carol'', du_email = ''carol@example.com'', du_accounts =
        [\<lparr>da_id = ''acc-carol-pen'', da_currency = ''PEN'', da_balance = 0\<rparr>]\<rparr>]"

definition demoPermissions :: "permission list" where
  "demoPermissions = [PermissionAccountsRead, PermissionTransfersRead, PermissionTransfersCreate]"

subsection \<open>Statements\<close>

text \<open>
  \<^verbatim>\<open>INSERT INTO users ... ON CONFLICT (id) DO UPDATE SET password_hash, permissions\<close>: a row with
  the same primary key is updated; a different user with the same address violates the unique
  index.
\<close>

definition user_texts :: "user \<Rightarrow> string list" where
  "user_texts u = [usr_id u, usr_email u, usr_password_hash u] @ usr_permissions u"

definition sql_upsert_user :: "pg \<Rightarrow> db \<Rightarrow> user \<Rightarrow> go_error + db" where
  "sql_upsert_user P db u =
     (if \<not> list_all pg_text (user_texts u) then Inl (violation ''invalid byte sequence'')
      else if \<not> users_check u then Inl (violation ''check constraint'')
      else if list_ex (\<lambda>v. usr_id v = usr_id u) (db_users db)
      then Inr (db\<lparr>db_users := map (\<lambda>v. if usr_id v = usr_id u
             then v\<lparr>usr_password_hash := usr_password_hash u, usr_permissions := usr_permissions u\<rparr> else v)
             (db_users db)\<rparr>)
      else if list_ex (\<lambda>v. pg_lower P (usr_email v) = pg_lower P (usr_email u)) (db_users db)
      then Inl (violation ''users_email_unique_idx'')
      else Inr (db\<lparr>db_users := db_users db @ [u]\<rparr>))"

text \<open>\<^verbatim>\<open>INSERT INTO accounts ... ON CONFLICT (id) DO NOTHING\<close>\<close>

definition sql_insert_account :: "db \<Rightarrow> account \<Rightarrow> go_error + db" where
  "sql_insert_account db a =
     (if \<not> list_all pg_text [acc_id a, acc_user_id a, acc_currency a]
      then Inl (violation ''invalid byte sequence'')
      else if \<not> accounts_check a then Inl (violation ''check constraint'')
      else if list_ex (\<lambda>b. acc_id b = acc_id a) (db_accounts db) then Inr db
      else if \<not> list_ex (\<lambda>u. usr_id u = acc_user_id a) (db_users db)
      then Inl (violation ''accounts_user_fk'')
      else Inr (db\<lparr>db_accounts := db_accounts db @ [a]\<rparr>))"

subsection \<open>Demo\<close>

definition seeded_account :: "pg_call \<Rightarrow> string \<Rightarrow> demo_account \<Rightarrow> account" where
  "seeded_account c userID a =
     \<lparr>acc_id = da_id a, acc_user_id = userID, acc_currency = da_currency a, acc_balance = da_balance a,
      acc_created_at = call_now c, acc_updated_at = call_now c\<rparr>"

fun seed_accounts :: "pg_call \<Rightarrow> string \<Rightarrow> demo_account list \<Rightarrow> db \<Rightarrow> db \<times> (go_error + unit)" where
  "seed_accounts c userID [] db = (db, Inr ())"
| "seed_accounts c userID (a # as) db =
     (case exec c (StmtSeedAccount (da_id a)) (sql_insert_account db (seeded_account c userID a)) of
        Inl e \<Rightarrow> (db, Inl (Wrapped (''seed account '' @ da_id a) e))
      | Inr db' \<Rightarrow> seed_accounts c userID as db')"

definition seeded_user :: "string \<Rightarrow> demo_user \<Rightarrow> user" where
  "seeded_user hash u =
     \<lparr>usr_id = du_id u, usr_email = du_email u, usr_password_hash = hash, usr_permissions = demoPermissions\<rparr>"

fun seed_users :: "pg \<Rightarrow> pg_call \<Rightarrow> string \<Rightarrow> demo_user list \<Rightarrow> db \<Rightarrow> db \<times> (go_error + unit)" where
  "seed_users P c hash [] db = (db, Inr ())"
| "seed_users P c hash (u # us) db =
     (case exec c (StmtSeedUser (du_id u)) (sql_upsert_user P db (seeded_user hash u)) of
        Inl e \<Rightarrow> (db, Inl (Wrapped (''seed user '' @ du_id u) e))
      | Inr db' \<Rightarrow>
          (case seed_accounts c (du_id u) (du_accounts u) db' of
             (db'', Inl e) \<Rightarrow> (db'', Inl e)
           | (db'', Inr _) \<Rightarrow> seed_users P c hash us db''))"

definition Demo :: "bcrypt \<Rightarrow> pg \<Rightarrow> pg_call \<Rightarrow> string \<Rightarrow> string \<Rightarrow> db \<Rightarrow> db \<times> (go_error + unit)" where
  "Demo B P c salt password db =
     (case HashPassword B salt password of
        Inl e \<Rightarrow> (db, Inl (Wrapped ''hash demo password'' e))
      | Inr hash \<Rightarrow> Store_WithinTx c (seed_users P c hash demoUsers) db)"

subsection \<open>Seeding keeps what is there\<close>

text \<open>
  \<open>extends db db'\<close>: accounts may have been appended, users changed in password and permissions
  or appended, and everything else is as before.
\<close>

definition extends :: "db \<Rightarrow> db \<Rightarrow> bool" where
  "extends db db' \<longleftrightarrow>
     prefix (db_accounts db) (db_accounts db') \<and> db_transfers db' = db_transfers db \<and>
     db_ledger db' = db_ledger db \<and>
     prefix (map (\<lambda>u. (usr_id u, usr_email u)) (db_users db)) (map (\<lambda>u. (usr_id u, usr_email u)) (db_users db'))"

lemma extends_refl [simp]: "extends db db"
  by (simp add: extends_def)

lemma extends_trans: "extends a b \<Longrightarrow> extends b c \<Longrightarrow> extends a c"
  unfolding extends_def using prefix_order.trans by auto

lemma upsert_keys:
  "map (\<lambda>v. (usr_id v, usr_email v)) (map (\<lambda>v. if usr_id v = usr_id u
     then v\<lparr>usr_password_hash := h, usr_permissions := ps\<rparr> else v) us) = map (\<lambda>v. (usr_id v, usr_email v)) us"
  by simp

lemma upsert_extends:
  assumes "sql_upsert_user P db u = Inr db'"
  shows "extends db db'"
proof (cases "list_ex (\<lambda>v. usr_id v = usr_id u) (db_users db)")
  case True
  with assms show ?thesis
    by (auto simp del: map_map simp add: sql_upsert_user_def extends_def upsert_keys split: if_splits)
next
  case False
  with assms show ?thesis by (auto simp: sql_upsert_user_def extends_def split: if_splits)
qed

lemma insert_extends: "sql_insert_account db a = Inr db' \<Longrightarrow> extends db db'"
  by (auto simp: sql_insert_account_def extends_def split: if_splits)

lemma seed_accounts_extends: "seed_accounts c u as db = (db', Inr ()) \<Longrightarrow> extends db db'"
  by (induction as arbitrary: db) (auto split: sum.splits intro: extends_trans insert_extends)

lemma seed_users_Cons:
  "seed_users P c h (u # us) db = (db', Inr ()) \<longleftrightarrow>
   (\<exists>db1 db2. exec c (StmtSeedUser (du_id u)) (sql_upsert_user P db (seeded_user h u)) = Inr db1 \<and>
      seed_accounts c (du_id u) (du_accounts u) db1 = (db2, Inr ()) \<and> seed_users P c h us db2 = (db', Inr ()))"
  by (cases "exec c (StmtSeedUser (du_id u)) (sql_upsert_user P db (seeded_user h u))")
    (auto split: prod.split sum.split simp: exec_def)

lemma seed_users_extends: "seed_users P c h us db = (db', Inr ()) \<Longrightarrow> extends db db'"
proof (induction us arbitrary: db)
  case (Cons u us)
  then obtain db1 db2 where "extends db db1" "extends db1 db2" "seed_users P c h us db2 = (db', Inr ())"
    unfolding seed_users_Cons by (auto dest!: upsert_extends seed_accounts_extends)
  with Cons.IH show ?case using extends_trans by blast
qed simp

lemma extends_account: "extends db db' \<Longrightarrow> account_at db i = Some a \<Longrightarrow> account_at db' i = Some a"
  by (auto simp: extends_def account_at_def find_append elim!: prefixE split: option.splits)

subsection \<open>Seeding keeps the constraints\<close>

definition seed_inv :: "pg \<Rightarrow> db \<Rightarrow> bool" where
  "seed_inv P db \<longleftrightarrow> db_ok db \<and> users_ok P db"

lemma list_ex_usr_id: "list_ex (\<lambda>v. usr_id v = i) us \<longleftrightarrow> i \<in> usr_id ` set us"
  by (auto simp: list_ex_iff)

lemma upsert_inv:
  assumes inv: "seed_inv P db" and up: "sql_upsert_user P db u = Inr db'"
  shows "seed_inv P db'"
proof (cases "list_ex (\<lambda>v. usr_id v = usr_id u) (db_users db)")
  case True
  let ?f = "\<lambda>v. if usr_id v = usr_id u
    then v\<lparr>usr_password_hash := usr_password_hash u, usr_permissions := usr_permissions u\<rparr> else v"
  have db': "db' = db\<lparr>db_users := map ?f (db_users db)\<rparr>"
    using up True by (auto simp: sql_upsert_user_def split: if_splits)
  have same: "db_accounts db' = db_accounts db" "db_transfers db' = db_transfers db" by (simp_all add: db')
  have keys: "usr_id (?f v) = usr_id v" "usr_email (?f v) = usr_email v" for v by simp_all
  have "map usr_id (db_users db') = map usr_id (db_users db)"
    "map (pg_lower P \<circ> usr_email) (db_users db') = map (pg_lower P \<circ> usr_email) (db_users db)"
    by (simp_all add: db')
  moreover from this(1) have "usr_id ` set (db_users db') = usr_id ` set (db_users db)"
    by (metis set_map)
  moreover have "list_all users_check (db_users db')"
    using inv keys by (auto simp: seed_inv_def users_ok_def db' list_all_iff users_check_def)
  ultimately show ?thesis
    using inv same by (simp add: seed_inv_def users_ok_def list_ex_usr_id db_ok_def)
next
  case False
  then have db': "db' = db\<lparr>db_users := db_users db @ [u]\<rparr>" and "users_check u"
    and "\<not> list_ex (\<lambda>v. pg_lower P (usr_email v) = pg_lower P (usr_email u)) (db_users db)"
    using up by (auto simp: sql_upsert_user_def split: if_splits)
  then show ?thesis
    using inv False by (auto simp: seed_inv_def users_ok_def db_ok_def list_ex_iff list_all_iff)
qed

lemma insert_inv:
  assumes inv: "seed_inv P db" and ins: "sql_insert_account db a = Inr db'"
  shows "seed_inv P db'"
proof (cases "list_ex (\<lambda>b. acc_id b = acc_id a) (db_accounts db)")
  case True
  with ins have "db' = db" by (auto simp: sql_insert_account_def split: if_splits)
  with inv show ?thesis by simp
next
  case False
  with ins have "db' = db\<lparr>db_accounts := db_accounts db @ [a]\<rparr>" "accounts_check a"
    "list_ex (\<lambda>u. usr_id u = acc_user_id a) (db_users db)"
    by (auto simp: sql_insert_account_def split: if_splits)
  with inv False show ?thesis
    by (auto simp: seed_inv_def db_ok_def users_ok_def list_ex_iff)
qed

lemma seed_accounts_inv: "seed_accounts c u as db = (db', Inr ()) \<Longrightarrow> seed_inv P db \<Longrightarrow> seed_inv P db'"
  by (induction as arbitrary: db) (auto split: sum.splits intro: insert_inv)

lemma seed_users_inv: "seed_users P c h us db = (db', Inr ()) \<Longrightarrow> seed_inv P db \<Longrightarrow> seed_inv P db'"
proof (induction us arbitrary: db)
  case (Cons u us)
  then obtain db1 db2 where "sql_upsert_user P db (seeded_user h u) = Inr db1"
    and "seed_accounts c (du_id u) (du_accounts u) db1 = (db2, Inr ())" and "seed_users P c h us db2 = (db', Inr ())"
    unfolding seed_users_Cons by auto
  with Cons show ?case using upsert_inv seed_accounts_inv by blast
qed simp

subsection \<open>Seeding provides the demo users\<close>

definition has_user :: "string \<Rightarrow> string \<Rightarrow> db \<Rightarrow> bool" where
  "has_user hash i db \<longleftrightarrow>
     (\<exists>v \<in> set (db_users db). usr_id v = i \<and> usr_password_hash v = hash \<and> usr_permissions v = demoPermissions)"

lemma upsert_has_user:
  assumes up: "sql_upsert_user P db (seeded_user hash u) = Inr db'"
  shows "has_user hash (du_id u) db'" and "has_user hash i db \<Longrightarrow> has_user hash i db'"
proof -
  let ?f = "\<lambda>v. if usr_id v = du_id u
    then v\<lparr>usr_password_hash := hash, usr_permissions := demoPermissions\<rparr> else v"
  have *: "has_user hash (du_id u) db' \<and> (has_user hash i db \<longrightarrow> has_user hash i db')"
  proof (cases "list_ex (\<lambda>v. usr_id v = du_id u) (db_users db)")
    case True
    then have users: "db_users db' = map ?f (db_users db)"
      using up by (auto simp: sql_upsert_user_def seeded_user_def split: if_splits)
    from True obtain v where v: "v \<in> set (db_users db)" "usr_id v = du_id u" by (auto simp: list_ex_iff)
    have kept: "?f w \<in> set (db_users db')" if "w \<in> set (db_users db)" for w
      unfolding users set_map using that by (rule imageI)
    have "has_user hash (du_id u) db'"
      unfolding has_user_def by (rule bexI [OF _ kept [OF v(1)]]) (simp add: v(2))
    moreover have "has_user hash i db'" if "has_user hash i db"
    proof -
      from that obtain w where w: "w \<in> set (db_users db)" "usr_id w = i" "usr_password_hash w = hash"
        "usr_permissions w = demoPermissions" by (auto simp: has_user_def)
      show ?thesis unfolding has_user_def by (rule bexI [OF _ kept [OF w(1)]]) (simp add: w)
    qed
    ultimately show ?thesis by blast
  next
    case False
    then have "db_users db' = db_users db @ [seeded_user hash u]"
      using up by (auto simp: sql_upsert_user_def seeded_user_def split: if_splits)
    then show ?thesis by (auto simp: has_user_def seeded_user_def)
  qed
  then show "has_user hash (du_id u) db'" and "has_user hash i db \<Longrightarrow> has_user hash i db'" by auto
qed

lemma insert_has_account:
  assumes "sql_insert_account db a = Inr db'"
  shows "account_at db' (acc_id a) \<noteq> None" and "db_users db' = db_users db"
  using assms
  by (auto simp: sql_insert_account_def account_at_def find_None_iff list_ex_iff simp del: not_None_eq
      split: if_splits)

lemma seed_accounts_provides:
  "seed_accounts c u as db = (db', Inr ()) \<Longrightarrow>
   db_users db' = db_users db \<and> (\<forall>a \<in> set as. account_at db' (da_id a) \<noteq> None)"
proof (induction as arbitrary: db)
  case (Cons a as)
  then obtain db1 where ins: "sql_insert_account db (seeded_account c u a) = Inr db1"
    and rest: "seed_accounts c u as db1 = (db', Inr ())" by (auto split: sum.splits)
  have "account_at db' (da_id a) \<noteq> None"
    using insert_has_account(1) [OF ins] extends_account [OF seed_accounts_extends [OF rest]]
    by (auto simp: seeded_account_def)
  with Cons.IH [OF rest] insert_has_account(2) [OF ins] show ?case by auto
qed simp

lemma seed_users_provides:
  "seed_users P c hash us db = (db', Inr ()) \<Longrightarrow>
   (\<forall>u \<in> set us. has_user hash (du_id u) db' \<and> (\<forall>a \<in> set (du_accounts u). account_at db' (da_id a) \<noteq> None)) \<and>
   (\<forall>i. has_user hash i db \<longrightarrow> has_user hash i db')"
proof (induction us arbitrary: db)
  case (Cons u us)
  then obtain db1 db2 where up: "sql_upsert_user P db (seeded_user hash u) = Inr db1"
    and acc: "seed_accounts c (du_id u) (du_accounts u) db1 = (db2, Inr ())"
    and rest: "seed_users P c hash us db2 = (db', Inr ())"
    using Cons.prems unfolding seed_users_Cons by auto
  have users: "has_user hash i db2 \<longleftrightarrow> has_user hash i db1" for i
    using seed_accounts_provides [OF acc] by (simp add: has_user_def)
  have "account_at db' (da_id a) \<noteq> None" if "a \<in> set (du_accounts u)" for a
    using seed_accounts_provides [OF acc] that extends_account [OF seed_users_extends [OF rest]] by fastforce
  with Cons.IH [OF rest] upsert_has_user [OF up] users show ?case by auto
qed simp

end
