(* ===== verification/Migrations.thy ===== *)
theory Migrations
  imports Auth_Login
begin

text \<open>
  \<^verbatim>\<open>internal/repository/migrate.go\<close> and the scripts of \<^verbatim>\<open>internal/repository/migrations\<close>. A stored
  database has one of the six schemas that lie between the scripts; \<open>up_script\<close> and
  \<open>down_script\<close> are the scripts as functions on the rows, with the constraints that
  PostgreSQL validates against existing rows when a script adds them. Indexes do not occur,
  except the unique one on addresses. The migration library is a parameter.
\<close>

subsection \<open>Stored databases\<close>

text \<open>Rows of \<^verbatim>\<open>transfers\<close> before script 3 and of \<^verbatim>\<open>accounts\<close> before script 3.\<close>

record transfers_v1 =
  t1_id :: uuid
  t1_user_id :: string
  t1_idempotency_key :: uuid
  t1_from_account_id :: string
  t1_to_account_id :: string
  t1_amount :: i64
  t1_currency :: string
  t1_description :: string
  t1_status :: string
  t1_original_request :: json
  t1_created_at :: time
  t1_updated_at :: time

record accounts_v2 =
  a2_id :: string
  a2_user_id :: string

datatype stored =
    Schema0
  | Schema1 "transfers_v1 list"
  | Schema2 "transfers_v1 list" "accounts_v2 list"
  | Schema3 "transfers_row list" "account list"
  | Schema4 "transfers_row list" "account list" "ledger_row list"
  | Schema5 db

primrec schema_version :: "stored \<Rightarrow> nat" where
  "schema_version Schema0 = 0"
| "schema_version (Schema1 _) = 1"
| "schema_version (Schema2 _ _) = 2"
| "schema_version (Schema3 _ _) = 3"
| "schema_version (Schema4 _ _ _) = 4"
| "schema_version (Schema5 _) = 5"

subsection \<open>The scripts\<close>

text \<open>\<^verbatim>\<open>ALTER TABLE transfers ADD COLUMN failure_reason\<close>, without a default, and its removal.\<close>

definition add_failure_reason :: "transfers_v1 \<Rightarrow> transfers_row" where
  "add_failure_reason t =
     \<lparr>tw_id = t1_id t, tw_user_id = t1_user_id t, tw_idempotency_key = t1_idempotency_key t,
      tw_from_account_id = t1_from_account_id t, tw_to_account_id = t1_to_account_id t,
      tw_amount = t1_amount t, tw_currency = t1_currency t, tw_description = t1_description t,
      tw_status = t1_status t, tw_original_request = t1_original_request t,
      tw_created_at = t1_created_at t, tw_updated_at = t1_updated_at t, tw_failure_reason = None\<rparr>"

definition drop_failure_reason :: "transfers_row \<Rightarrow> transfers_v1" where
  "drop_failure_reason t =
     \<lparr>t1_id = tw_id t, t1_user_id = tw_user_id t, t1_idempotency_key = tw_idempotency_key t,
      t1_from_account_id = tw_from_account_id t, t1_to_account_id = tw_to_account_id t,
      t1_amount = tw_amount t, t1_currency = tw_currency t, t1_description = tw_description t,
      t1_status = tw_status t, t1_original_request = tw_original_request t,
      t1_created_at = tw_created_at t, t1_updated_at = tw_updated_at t\<rparr>"

text \<open>The new columns of \<^verbatim>\<open>accounts\<close> with their defaults, and their removal.\<close>

definition add_balance :: "time \<Rightarrow> accounts_v2 \<Rightarrow> account" where
  "add_balance now a =
     \<lparr>acc_id = a2_id a, acc_user_id = a2_user_id a, acc_currency = ''PEN'', acc_balance = 0,
      acc_created_at = now, acc_updated_at = now\<rparr>"

definition drop_balance :: "account \<Rightarrow> accounts_v2" where
  "drop_balance a = \<lparr>a2_id = acc_id a, a2_user_id = acc_user_id a\<rparr>"

definition references :: "string \<Rightarrow> account list \<Rightarrow> bool" where
  "references i as \<longleftrightarrow> list_ex (\<lambda>a. acc_id a = i) as"

text \<open>\<^verbatim>\<open>000003_add_account_balances.up.sql\<close>: the new foreign keys are checked for every transfer.\<close>

definition add_account_balances_up ::
  "time \<Rightarrow> transfers_v1 list \<Rightarrow> accounts_v2 list \<Rightarrow> go_error + (transfers_row list \<times> account list)" where
  "add_account_balances_up now ts as =
     (let ts' = map add_failure_reason ts; as' = map (add_balance now) as in
      if \<not> list_all (\<lambda>t. references (tw_from_account_id t) as') ts' then Inl (violation ''transfers_from_account_fk'')
      else if \<not> list_all (\<lambda>t. references (tw_to_account_id t) as') ts' then Inl (violation ''transfers_to_account_fk'')
      else Inr (ts', as'))"

definition add_account_balances_down ::
  "transfers_row list \<Rightarrow> account list \<Rightarrow> transfers_v1 list \<times> accounts_v2 list" where
  "add_account_balances_down ts as = (map drop_failure_reason ts, map drop_balance as)"

text \<open>\<^verbatim>\<open>000005_create_users.up.sql\<close>: the table is created empty, then \<^verbatim>\<open>accounts\<close> must refer to it.\<close>

definition create_users_up :: "transfers_row list \<Rightarrow> account list \<Rightarrow> ledger_row list \<Rightarrow> go_error + db" where
  "create_users_up ts as ls =
     (let db = \<lparr>db_users = [], db_accounts = as, db_transfers = ts, db_ledger = ls\<rparr> in
      if list_all (\<lambda>a. list_ex (\<lambda>u. usr_id u = acc_user_id a) (db_users db)) (db_accounts db) then Inr db
      else Inl (violation ''accounts_user_fk''))"

text \<open>
  The script that follows a schema, and the one that leads back. Scripts 1, 2 and 4 create an
  empty table or drop it.
\<close>

primrec up_script :: "time \<Rightarrow> stored \<Rightarrow> go_error + stored" where
  "up_script now Schema0 = Inr (Schema1 [])"
| "up_script now (Schema1 ts) = Inr (Schema2 ts [])"
| "up_script now (Schema2 ts as) =
     and_then (add_account_balances_up now ts as) (\<lambda>(ts', as'). Inr (Schema3 ts' as'))"
| "up_script now (Schema3 ts as) = Inr (Schema4 ts as [])"
| "up_script now (Schema4 ts as ls) = and_then (create_users_up ts as ls) (\<lambda>db. Inr (Schema5 db))"
| "up_script now (Schema5 db) = Inl ErrNoChange"

primrec down_script :: "stored \<Rightarrow> go_error + stored" where
  "down_script Schema0 = Inl ErrNoChange"
| "down_script (Schema1 ts) = Inr Schema0"
| "down_script (Schema2 ts as) = Inr (Schema1 ts)"
| "down_script (Schema3 ts as) = (case add_account_balances_down ts as of (ts', as') \<Rightarrow> Inr (Schema2 ts' as'))"
| "down_script (Schema4 ts as ls) = Inr (Schema3 ts as)"
| "down_script (Schema5 db) = Inr (Schema4 (db_transfers db) (db_accounts db) (db_ledger db))"

subsection \<open>Migrate\<close>

text \<open>
  \<open>mg_Up\<close> applies the pending scripts and returns its error, which is \<open>ErrNoChange\<close> when there
  were none; \<open>mg_Version\<close> reads the version of the schema.
\<close>

record 's migrate_lib =
  mg_source :: "go_error option"
  mg_ParseConfig :: "string \<Rightarrow> go_error option"
  mg_WithInstance :: "go_error option"
  mg_NewWithInstance :: "go_error option"
  mg_Up :: "'s \<Rightarrow> 's \<times> go_error option"
  mg_Version :: "'s \<Rightarrow> go_error + nat"

definition Migrate :: "'s migrate_lib \<Rightarrow> string \<Rightarrow> 's \<Rightarrow> 's \<times> (go_error + nat)" where
  "Migrate M databaseURL db =
     (case mg_source M of
        Some e \<Rightarrow> (db, Inl (Wrapped ''open embedded migrations'' e))
      | None \<Rightarrow>
      (case mg_ParseConfig M databaseURL of
        Some e \<Rightarrow> (db, Inl (ErrorsNew ''DATABASE_URL is invalid''))
      | None \<Rightarrow>
      (case mg_WithInstance M of
        Some e \<Rightarrow> (db, Inl (Wrapped ''prepare migration driver'' e))
      | None \<Rightarrow>
      (case mg_NewWithInstance M of
        Some e \<Rightarrow> (db, Inl (Wrapped ''prepare migrations'' e))
      | None \<Rightarrow>
      (case mg_Up M db of (db', up) \<Rightarrow>
      if (case up of Some e \<Rightarrow> \<not> errors_Is e ErrNoChange | None \<Rightarrow> False)
      then (db', Inl (Wrapped ''apply migrations'' (the up)))
      else case mg_Version M db' of
        Inl e \<Rightarrow> (db', Inl (Wrapped ''read migration version'' e))
      | Inr version \<Rightarrow> (db', Inr version))))))"

lemma up_script_version: "up_script now s = Inr s' \<Longrightarrow> schema_version s' = Suc (schema_version s)"
  by (cases s) (auto simp: and_then_eq_Inr)

lemma schema_version_le: "schema_version s \<le> 5"
  by (cases s) simp_all

text \<open>
  What the documentation of golang-migrate says of \<^verbatim>\<open>Up\<close>: it applies the scripts above the
  current version in order and stops at the first that fails. Each script is a transaction
  of its own, so a failed one leaves nothing behind.
\<close>

function apply_scripts :: "time \<Rightarrow> stored \<Rightarrow> stored \<times> go_error option" where
  "apply_scripts now s =
     (if schema_version s = 5 then (s, None)
      else case up_script now s of
        Inl e \<Rightarrow> (s, Some e)
      | Inr s' \<Rightarrow> apply_scripts now s')"
  by auto
termination
proof (relation "measure (\<lambda>(_, s). 5 - schema_version s)")
  fix now s s'
  assume "schema_version s \<noteq> 5" and "up_script now s = Inr s'"
  with schema_version_le [of s] up_script_version [of now s s']
  show "((now, s'), now, s) \<in> measure (\<lambda>(_, s). 5 - schema_version s)" by simp
qed simp

declare apply_scripts.simps [simp del]

text \<open>
  The library keeps a flag next to the version: a failed script leaves it set, and then \<^verbatim>\<open>Up\<close>
  refuses to do anything until it has been cleared by hand. \<^verbatim>\<open>Version\<close> is relied on only where
  the flag is clear and at least one script has been applied.
\<close>

type_synonym versioned = "bool \<times> stored"

definition documented_up :: "time \<Rightarrow> versioned \<Rightarrow> versioned \<times> go_error option" where
  "documented_up now v =
     (case v of (dirty, s) \<Rightarrow>
        if dirty then (v, Some (ErrorsNew ''Dirty database version. Fix and force version.''))
        else if schema_version s = 5 then (v, Some ErrNoChange)
        else case apply_scripts now s of (s', e) \<Rightarrow> ((e \<noteq> None, s'), e))"

definition migrate_documented :: "time \<Rightarrow> versioned migrate_lib \<Rightarrow> bool" where
  "migrate_documented now M \<longleftrightarrow>
     (\<forall>v. mg_Up M v = documented_up now v) \<and>
     (\<forall>s. schema_version s \<noteq> 0 \<longrightarrow> mg_Version M (False, s) = Inr (schema_version s))"

definition migrate_reachable :: "'s migrate_lib \<Rightarrow> string \<Rightarrow> bool" where
  "migrate_reachable M url \<longleftrightarrow>
     mg_source M = None \<and> mg_ParseConfig M url = None \<and> mg_WithInstance M = None \<and> mg_NewWithInstance M = None"

subsection \<open>Rows and constraints across the scripts\<close>

text \<open>What every schema from the first on keeps of a transfer, and of an account.\<close>

primrec stored_transfers :: "stored \<Rightarrow> transfers_v1 list" where
  "stored_transfers Schema0 = []"
| "stored_transfers (Schema1 ts) = ts"
| "stored_transfers (Schema2 ts as) = ts"
| "stored_transfers (Schema3 ts as) = map drop_failure_reason ts"
| "stored_transfers (Schema4 ts as ls) = map drop_failure_reason ts"
| "stored_transfers (Schema5 db) = map drop_failure_reason (db_transfers db)"

primrec stored_accounts :: "stored \<Rightarrow> accounts_v2 list" where
  "stored_accounts Schema0 = []"
| "stored_accounts (Schema1 ts) = []"
| "stored_accounts (Schema2 ts as) = as"
| "stored_accounts (Schema3 ts as) = map drop_balance as"
| "stored_accounts (Schema4 ts as ls) = map drop_balance as"
| "stored_accounts (Schema5 db) = map drop_balance (db_accounts db)"

text \<open>
  All rows of a database in all columns, read as rows of the last schema: a table that does not
  exist yet has none, a transfer without the column has no reason for a failure, and an
  account without balance columns holds nothing, in PEN, and is as old as the upgrade.
\<close>

primrec rows_of :: "time \<Rightarrow> stored \<Rightarrow> db" where
  "rows_of now Schema0 = \<lparr>db_users = [], db_accounts = [], db_transfers = [], db_ledger = []\<rparr>"
| "rows_of now (Schema1 ts) =
     \<lparr>db_users = [], db_accounts = [], db_transfers = map (\<lambda>t. (add_failure_reason t)\<lparr>tw_failure_reason := None\<rparr>) ts, db_ledger = []\<rparr>"
| "rows_of now (Schema2 ts as) =
     \<lparr>db_users = [],
      db_accounts = map (\<lambda>a. \<lparr>acc_id = a2_id a, acc_user_id = a2_user_id a, acc_currency = ''PEN'', acc_balance = 0,
        acc_created_at = now, acc_updated_at = now\<rparr>) as,
      db_transfers = map (\<lambda>t. (add_failure_reason t)\<lparr>tw_failure_reason := None\<rparr>) ts, db_ledger = []\<rparr>"
| "rows_of now (Schema3 ts as) = \<lparr>db_users = [], db_accounts = as, db_transfers = ts, db_ledger = []\<rparr>"
| "rows_of now (Schema4 ts as ls) = \<lparr>db_users = [], db_accounts = as, db_transfers = ts, db_ledger = ls\<rparr>"
| "rows_of now (Schema5 db) = db"

definition transfers_ok :: "transfers_row list \<Rightarrow> bool" where
  "transfers_ok ts \<longleftrightarrow> distinct (map tw_id ts) \<and> distinct (map row_key ts) \<and> list_all transfers_check ts"

definition accounts_v2_check :: "accounts_v2 \<Rightarrow> bool" where
  "accounts_v2_check a \<longleftrightarrow> btrim (a2_id a) \<noteq> '''' \<and> btrim (a2_user_id a) \<noteq> ''''"

definition books_ok :: "transfers_row list \<Rightarrow> account list \<Rightarrow> bool" where
  "books_ok ts as \<longleftrightarrow>
     transfers_ok ts \<and> distinct (map acc_id as) \<and> list_all accounts_check as \<and>
     list_all (\<lambda>t. references (tw_from_account_id t) as \<and> references (tw_to_account_id t) as) ts"

definition ledger_ok :: "transfers_row list \<Rightarrow> account list \<Rightarrow> ledger_row list \<Rightarrow> bool" where
  "ledger_ok ts as ls \<longleftrightarrow>
     list_all (\<lambda>l. ledger_check l \<and> list_ex (\<lambda>t. tw_id t = lw_transfer_id l) ts \<and> references (lw_account_id l) as) ls"

text \<open>The constraints of each schema.\<close>

primrec stored_ok :: "pg \<Rightarrow> stored \<Rightarrow> bool" where
  "stored_ok P Schema0 \<longleftrightarrow> True"
| "stored_ok P (Schema1 ts) \<longleftrightarrow> transfers_ok (map add_failure_reason ts)"
| "stored_ok P (Schema2 ts as) \<longleftrightarrow>
     transfers_ok (map add_failure_reason ts) \<and> distinct (map a2_id as) \<and> list_all accounts_v2_check as"
| "stored_ok P (Schema3 ts as) \<longleftrightarrow> books_ok ts as"
| "stored_ok P (Schema4 ts as ls) \<longleftrightarrow> books_ok ts as \<and> ledger_ok ts as ls"
| "stored_ok P (Schema5 db) \<longleftrightarrow>
     books_ok (db_transfers db) (db_accounts db) \<and> ledger_ok (db_transfers db) (db_accounts db) (db_ledger db) \<and>
     users_ok P db"

lemma drop_add_failure_reason [simp]: "drop_failure_reason (add_failure_reason t) = t"
  by (simp add: drop_failure_reason_def add_failure_reason_def)

lemma drop_add_balance [simp]: "drop_balance (add_balance now a) = a"
  by (simp add: drop_balance_def add_balance_def)

lemma drop_add_comp [simp]: "drop_failure_reason \<circ> add_failure_reason = id" "drop_balance \<circ> add_balance now = id"
  by (simp_all add: fun_eq_iff)

lemma add_account_balances_up_Inr:
  "add_account_balances_up now ts as = Inr (ts', as') \<longleftrightarrow>
     ts' = map add_failure_reason ts \<and> as' = map (add_balance now) as \<and>
     list_all (\<lambda>t. references (tw_from_account_id t) as' \<and> references (tw_to_account_id t) as') ts'"
  by (auto simp: add_account_balances_up_def Let_def list_all_iff)

lemma create_users_up_Inr:
  "create_users_up ts as ls = Inr db \<longleftrightarrow>
     as = [] \<and> db = \<lparr>db_users = [], db_accounts = [], db_transfers = ts, db_ledger = ls\<rparr>"
  by (auto simp: create_users_up_def Let_def list_all_iff)

lemma up_script_keeps:
  assumes "up_script now s = Inr s'"
  shows "stored_transfers s' = stored_transfers s" and "stored_accounts s' = stored_accounts s"
  using assms
  by (cases s; auto simp: and_then_eq_Inr add_account_balances_up_Inr create_users_up_Inr)+

lemma up_script_rows: "up_script now s = Inr s' \<Longrightarrow> rows_of now s' = rows_of now s"
  by (cases s) (auto simp: and_then_eq_Inr add_account_balances_up_Inr create_users_up_Inr add_balance_def add_failure_reason_def)

lemma balance_columns_ok:
  "accounts_v2_check a \<Longrightarrow> accounts_check (add_balance now a)"
  by (simp add: accounts_v2_check_def accounts_check_def add_balance_def currency_regex_def byte_in_def)

lemma up_script_ok:
  assumes "stored_ok P s" and "up_script now s = Inr s'"
  shows "stored_ok P s'"
proof (cases s)
  case (Schema2 ts as)
  have "distinct (map acc_id (map (add_balance now) as)) \<longleftrightarrow> distinct (map a2_id as)"
    by (simp add: comp_def add_balance_def)
  with Schema2 assms show ?thesis
    by (auto simp: and_then_eq_Inr add_account_balances_up_Inr books_ok_def list_all_iff balance_columns_ok
        simp del: map_map)
qed (use assms in \<open>auto simp: and_then_eq_Inr create_users_up_Inr ledger_ok_def users_ok_def transfers_ok_def\<close>)

lemma add_drop_failure_reason [simp]:
  "tw_id (add_failure_reason (drop_failure_reason t)) = tw_id t"
  "row_key (add_failure_reason (drop_failure_reason t)) = row_key t"
  "transfers_check (add_failure_reason (drop_failure_reason t)) = transfers_check t"
  by (simp_all add: add_failure_reason_def drop_failure_reason_def row_key_def transfers_check_def)

lemma down_script_ok:
  assumes "stored_ok P s" and "down_script s = Inr s'"
  shows "stored_ok P s'"
proof (cases s)
  case (Schema3 ts as)
  have "transfers_ok (map add_failure_reason (map drop_failure_reason ts)) \<longleftrightarrow> transfers_ok ts"
    by (simp add: transfers_ok_def comp_def list.pred_map)
  moreover have "distinct (map a2_id (map drop_balance as)) \<longleftrightarrow> distinct (map acc_id as)"
    by (simp add: comp_def drop_balance_def)
  ultimately show ?thesis
    using Schema3 assms
    by (auto simp: add_account_balances_down_def books_ok_def list_all_iff accounts_v2_check_def drop_balance_def
        accounts_check_def comp_def simp del: map_map)
qed (use assms in auto)

lemma up_down: "up_script now s = Inr s' \<Longrightarrow> down_script s' = Inr s"
  by (cases s) (auto simp: and_then_eq_Inr add_account_balances_up_Inr create_users_up_Inr add_account_balances_down_def)

text \<open>Where the scripts stop.\<close>

lemma apply_scripts_end:
  assumes "apply_scripts now s = (s', e)" and "stored_ok P s"
  shows "stored_ok P s' \<and> rows_of now s' = rows_of now s \<and>
    stored_transfers s' = stored_transfers s \<and> stored_accounts s' = stored_accounts s \<and>
    (case e of None \<Rightarrow> schema_version s' = 5 | Some e \<Rightarrow> schema_version s' < 5 \<and> up_script now s' = Inl e)"
  using assms
proof (induction now s rule: apply_scripts.induct)
  case (1 now s)
  show ?case
  proof (cases "schema_version s = 5")
    case True
    then show ?thesis using 1(2,3) by (simp add: apply_scripts.simps [of now s])
  next
    case False
    then have less: "schema_version s < 5" using schema_version_le [of s] by simp
    show ?thesis
    proof (cases "up_script now s")
      case (Inl x)
      then show ?thesis using False less 1(2,3) by (auto simp: apply_scripts.simps [of now s])
    next
      case (Inr s1)
      with 1(1) [OF False Inr] 1(2,3) False up_script_ok [OF 1(3) Inr] up_script_keeps [OF Inr]
        up_script_rows [OF Inr] show ?thesis
        by (simp add: apply_scripts.simps [of now s])
    qed
  qed
qed

text \<open>A pending script fails exactly because of rows that the new references exclude.\<close>

lemma up_script_fails:
  assumes "stored_ok P s" and "up_script now s = Inl e" and "schema_version s < 5"
  shows "stored_accounts s \<noteq> [] \<or> stored_transfers s \<noteq> []" and "\<exists>m. e = DbError m"
  using assms
  by (cases s; auto simp: and_then_eq_Inl add_account_balances_up_def create_users_up_def Let_def violation_def
      split: if_splits)+

lemma migrated_empty:
  assumes "stored_ok P s" and "schema_version s < 5" and "apply_scripts now s = (s', None)"
  shows "stored_accounts s = [] \<and> stored_transfers s = []"
  using assms
proof (induction now s rule: apply_scripts.induct)
  case (1 now s)
  then obtain s1 where s1: "up_script now s = Inr s1" "apply_scripts now s1 = (s', None)"
    by (auto simp: apply_scripts.simps [of now s] split: sum.splits if_splits)
  show ?case
  proof (cases "schema_version s1 = 5")
    case True
    with up_script_version [OF s1(1)] obtain ts as ls where "s = Schema4 ts as ls" by (cases s) auto
    with s1(1) 1(2) show ?thesis
      by (auto simp: and_then_eq_Inr create_users_up_Inr books_ok_def list_all_iff references_def)
  next
    case False
    then have "schema_version s1 < 5" using schema_version_le [of s1] by simp
    with 1(1) [OF _ s1(1) up_script_ok [OF 1(2) s1(1)]] 1(3) s1 up_script_keeps [OF s1(1)] show ?thesis by simp
  qed
qed

end
