(* ===== verification/Startup.thy ===== *)
theory Startup
  imports Api Config Seed Migrations
begin

text \<open>
  The process: \<^verbatim>\<open>internal/repository/pool.go\<close>, \<^verbatim>\<open>cmd/api/main.go\<close> and
  \<^verbatim>\<open>healthcheck.go\<close>. The migration library, the connection pool, the HTTP server and the HTTP
  client are parameters; what is modelled is the order of the steps, the early returns and
  what is released on each of them.
\<close>

subsection \<open>Migrations\<close>

text \<open>
  The process is modelled on a database that has the last schema; what the scripts do on the way
  there is in \<open>Migrations\<close>. This is the migration library on such a database. The documented
  \<^verbatim>\<open>Up\<close> finds nothing to do there.
\<close>

definition on_last_schema :: "versioned migrate_lib \<Rightarrow> db migrate_lib" where
  "on_last_schema M =
     \<lparr>mg_source = mg_source M, mg_ParseConfig = mg_ParseConfig M, mg_WithInstance = mg_WithInstance M,
      mg_NewWithInstance = mg_NewWithInstance M,
      mg_Up = (\<lambda>db. case mg_Up M (False, Schema5 db) of
          ((_, Schema5 db'), e) \<Rightarrow> (db', e)
        | (_, e) \<Rightarrow> (db, e)),
      mg_Version = (\<lambda>db. mg_Version M (False, Schema5 db))\<rparr>"

lemma documented_up_last_schema:
  "migrate_documented now M \<Longrightarrow> mg_Up (on_last_schema M) db = (db, Some ErrNoChange)"
  by (simp add: migrate_documented_def on_last_schema_def documented_up_def)

lemma documented_migrate_last_schema:
  "migrate_documented now M \<Longrightarrow> migrate_reachable M url \<Longrightarrow> Migrate (on_last_schema M) url db = (db, Inr 5)"
  by (simp add: migrate_documented_def migrate_reachable_def on_last_schema_def documented_up_def Migrate_def)

subsection \<open>The connection pool\<close>

text \<open>
  \<open>pl_ParseConfig\<close> gives the number of connections that the connection string asks for;
  \<open>pl_NewWithConfig\<close> and \<open>pl_Ping\<close> may fail. A pool is closed once, and \<open>PoolOpened\<close> and
  \<open>PoolClosed\<close> record when.
\<close>

record pool_lib =
  pl_ParseConfig :: "string \<Rightarrow> go_error + int"
  pl_NewWithConfig :: "int \<Rightarrow> go_error option"
  pl_Ping :: "go_error option"

datatype pool_event = PoolOpened | PoolClosed

definition NewPool :: "pool_lib \<Rightarrow> string \<Rightarrow> int \<Rightarrow> pool_event list \<times> (go_error + int)" where
  "NewPool L connectionString maxConns =
     (if TrimSpace connectionString = '''' then ([], Inl (ErrorsNew ''DATABASE_URL is required''))
      else case pl_ParseConfig L connectionString of
        Inl e \<Rightarrow> ([], Inl (ErrorsNew ''DATABASE_URL is invalid''))
      | Inr parsed \<Rightarrow>
      (let conns = (if maxConns > 0 then maxConns else parsed) in
      (case pl_NewWithConfig L conns of
        Some e \<Rightarrow> ([], Inl (Wrapped ''create pool'' e))
      | None \<Rightarrow>
      (case pl_Ping L of
        Some e \<Rightarrow> ([PoolOpened, PoolClosed], Inl (Wrapped ''ping database'' e))
      | None \<Rightarrow> ([PoolOpened], Inr conns)))))"

subsection \<open>Starting\<close>

datatype run_log = LogSchema nat | LogDemoReady | LogStarting string | LogShuttingDown

text \<open>What differs from start to start: the salts drawn for bcrypt and the database call of the seed.\<close>

record start_env =
  se_call :: pg_call
  se_demo_salt :: string
  se_login_salt :: string

record process =
  pr_externals :: externals
  pr_migrate :: "db migrate_lib"
  pr_pool :: pool_lib
  pr_start :: start_env

definition run_migrations :: "process \<Rightarrow> config \<Rightarrow> db \<Rightarrow> db \<times> (go_error + run_log list)" where
  "run_migrations E cfg db =
     (if cfg_RunMigrations cfg
      then case Migrate (pr_migrate E) (cfg_DatabaseURL cfg) db of
          (db', Inl e) \<Rightarrow> (db', Inl e)
        | (db', Inr version) \<Rightarrow> (db', Inr [LogSchema version])
      else (db, Inr []))"

definition run_seed :: "process \<Rightarrow> config \<Rightarrow> db \<Rightarrow> db \<times> (go_error + run_log list)" where
  "run_seed E cfg db =
     (if cfg_SeedDemoData cfg
      then case Demo (ex_bcrypt (pr_externals E)) (ex_pg (pr_externals E)) (se_call (pr_start E))
              (se_demo_salt (pr_start E)) (cfg_DemoPassword cfg) db of
          (db', Inl e) \<Rightarrow> (db', Inl e)
        | (db', Inr _) \<Rightarrow> (db', Inr [LogDemoReady])
      else (db, Inr []))"

text \<open>
  \<open>start\<close> is \<^verbatim>\<open>run\<close> up to the handler. It returns the database, the log, the pool events (the
  deferred \<^verbatim>\<open>pool.Close\<close> included when it returns early) and the services, or the error.
\<close>

definition start ::
  "process \<Rightarrow> config \<Rightarrow> db \<Rightarrow> db \<times> run_log list \<times> pool_event list \<times> (go_error + app)" where
  "start E cfg db =
     (case NewTokenService (cfg_JWTSecret cfg) (cfg_JWTIssuer cfg) (cfg_JWTAudience cfg) of
        Inl e \<Rightarrow> (db, [], [], Inl e)
      | Inr tokens \<Rightarrow>
      (case run_migrations E cfg db of
        (db1, Inl e) \<Rightarrow> (db1, [], [], Inl e)
      | (db1, Inr migrated) \<Rightarrow>
      (case NewPool (pr_pool E) (cfg_DatabaseURL cfg) (cfg_DBMaxConns cfg) of
        (pool, Inl e) \<Rightarrow> (db1, migrated, pool, Inl e)
      | (pool, Inr conns) \<Rightarrow>
      (case run_seed E cfg db1 of
        (db2, Inl e) \<Rightarrow> (db2, migrated, pool @ [PoolClosed], Inl e)
      | (db2, Inr seeded) \<Rightarrow>
          (db2, migrated @ seeded, pool,
           Inr \<lparr>app_tokens = tokens,
                app_login = NewLoginService (ex_bcrypt (pr_externals E)) (se_login_salt (pr_start E)) tokens,
                app_timeout = cfg_RequestTimeout cfg\<rparr>)))))"

subsection \<open>The logger and the server\<close>

text \<open>The levels of \<^verbatim>\<open>log/slog\<close>, ordered by their numbers.\<close>

primrec level_value :: "log_level \<Rightarrow> i64" where
  "level_value LevelDebug = - 4"
| "level_value LevelInfo = 0"
| "level_value LevelError = 8"

lemma level_value_inj: "sint (level_value l) = sint (level_value l') \<Longrightarrow> l = l'"
  by (cases l; cases l'; simp)

instantiation log_level :: linorder
begin

definition less_eq_log_level :: "log_level \<Rightarrow> log_level \<Rightarrow> bool" where
  "l \<le> l' \<longleftrightarrow> sint (level_value l) \<le> sint (level_value l')"

definition less_log_level :: "log_level \<Rightarrow> log_level \<Rightarrow> bool" where
  "l < l' \<longleftrightarrow> sint (level_value l) < sint (level_value l')"

instance
  by standard (auto simp: less_eq_log_level_def less_log_level_def intro!: level_value_inj)

end

primrec entry_level :: "log_entry \<Rightarrow> log_level" where
  "entry_level (AccessLog l i m p rt st) = l"
| "entry_level (ErrorLog msg i) = LevelError"
| "entry_level (PanicLog i) = LevelError"

text \<open>The handler of the logger drops the records below the configured level.\<close>

definition logger_enabled :: "config \<Rightarrow> log_level \<Rightarrow> bool" where
  "logger_enabled cfg l \<longleftrightarrow> sint (cfg_LogLevel cfg) \<le> sint (level_value l)"

definition logger_output :: "config \<Rightarrow> log_entry list \<Rightarrow> log_entry list" where
  "logger_output cfg entries = filter (\<lambda>e. logger_enabled cfg (entry_level e)) entries"

lemma logger_enabled_mono: "l \<le> l' \<Longrightarrow> logger_enabled cfg l \<Longrightarrow> logger_enabled cfg l'"
  by (simp add: logger_enabled_def less_eq_log_level_def)

record http_server =
  sv_Addr :: string
  sv_ReadHeaderTimeout :: int
  sv_ReadTimeout :: int
  sv_WriteTimeout :: int
  sv_IdleTimeout :: int

definition new_server :: "config \<Rightarrow> http_server" where
  "new_server cfg =
     \<lparr>sv_Addr = cfg_HTTPAddr cfg, sv_ReadHeaderTimeout = 5 * time_Second, sv_ReadTimeout = 10 * time_Second,
      sv_WriteTimeout = 15 * time_Second, sv_IdleTimeout = 60 * time_Second\<rparr>"

subsection \<open>Serving and shutting down\<close>

text \<open>
  How the HTTP server ends: \<^verbatim>\<open>ListenAndServe\<close> returns before any signal (\<open>ServerStopped\<close>), or a
  signal comes first, \<^verbatim>\<open>Shutdown\<close> is called with its result, and then the server's own error is
  received.
\<close>

datatype server_end = ServerStopped go_error | Signalled "go_error option" go_error

definition run_end :: "server_end \<Rightarrow> run_log list \<times> go_error option" where
  "run_end ending =
     (case ending of
        ServerStopped e \<Rightarrow> ([], Some e)
      | Signalled shutdown final \<Rightarrow>
          ([LogShuttingDown],
           case shutdown of
             Some e \<Rightarrow> Some e
           | None \<Rightarrow> if \<not> errors_Is final ErrServerClosed then Some final else None))"

definition run ::
  "process \<Rightarrow> config \<Rightarrow> api_request list \<Rightarrow> server_end \<Rightarrow> db \<Rightarrow>
    db \<times> run_log list \<times> pool_event list \<times> go_error option" where
  "run E cfg served ending db =
     (case start E cfg db of
        (db', log, pool, Inl e) \<Rightarrow> (db', log, pool, Some e)
      | (db', log, pool, Inr app) \<Rightarrow>
          (case run_end ending of
             (endlog, err) \<Rightarrow>
               (serve_all (pr_externals E) app served db', log @ [LogStarting (cfg_HTTPAddr cfg)] @ endlog,
                pool @ [PoolClosed], err)))"

subsection \<open>The container's health check\<close>

definition healthcheck_url :: "getenv \<Rightarrow> string" where
  "healthcheck_url getenv =
     (let addr = HTTPAddr getenv;
          addr = (if prefix '':'' addr then ''127.0.0.1'' @ addr else addr)
      in ''http://'' @ addr @ ''/health'')"

text \<open>\<open>get\<close> builds and performs the request: the error, or the status of the response.\<close>

definition healthcheck :: "(string \<Rightarrow> go_error + nat) \<Rightarrow> getenv \<Rightarrow> nat" where
  "healthcheck get getenv =
     (case get (healthcheck_url getenv) of
        Inl e \<Rightarrow> 1
      | Inr status \<Rightarrow> if status \<noteq> 200 then 1 else 0)"

text \<open>\<^verbatim>\<open>main\<close>: the exit code of the process.\<close>

definition main_exit ::
  "fraction \<Rightarrow> getenv \<Rightarrow> (string \<Rightarrow> go_error + nat) \<Rightarrow> string list \<Rightarrow> process \<Rightarrow> api_request list \<Rightarrow>
    server_end \<Rightarrow> db \<Rightarrow> nat" where
  "main_exit fraction getenv get args E served ending db =
     (if length args > 1 \<and> args ! 1 = ''healthcheck'' then healthcheck get getenv
      else case Load fraction getenv of (cfg, errs) \<Rightarrow>
        if errs \<noteq> [] then 1
        else case run E cfg served ending db of
          (_, _, _, Some e) \<Rightarrow> 1
        | (_, _, _, None) \<Rightarrow> 0)"

subsection \<open>The steps of a start\<close>

text \<open>The four ways in which a start ends.\<close>

inductive start_steps ::
  "process \<Rightarrow> config \<Rightarrow> db \<Rightarrow> db \<times> run_log list \<times> pool_event list \<times> (go_error + app) \<Rightarrow> bool"
  for E cfg db where
  no_tokens: "NewTokenService (cfg_JWTSecret cfg) (cfg_JWTIssuer cfg) (cfg_JWTAudience cfg) = Inl e \<Longrightarrow>
    start_steps E cfg db (db, [], [], Inl e)"
| no_schema: "run_migrations E cfg db = (db1, Inl e) \<Longrightarrow> start_steps E cfg db (db1, [], [], Inl e)"
| no_pool: "run_migrations E cfg db = (db1, Inr migrated) \<Longrightarrow>
    NewPool (pr_pool E) (cfg_DatabaseURL cfg) (cfg_DBMaxConns cfg) = (pool, Inl e) \<Longrightarrow>
    start_steps E cfg db (db1, migrated, pool, Inl e)"
| no_seed: "run_migrations E cfg db = (db1, Inr migrated) \<Longrightarrow>
    NewPool (pr_pool E) (cfg_DatabaseURL cfg) (cfg_DBMaxConns cfg) = (pool, Inr conns) \<Longrightarrow>
    run_seed E cfg db1 = (db2, Inl e) \<Longrightarrow>
    start_steps E cfg db (db2, migrated, pool @ [PoolClosed], Inl e)"
| started: "NewTokenService (cfg_JWTSecret cfg) (cfg_JWTIssuer cfg) (cfg_JWTAudience cfg) = Inr tokens \<Longrightarrow>
    run_migrations E cfg db = (db1, Inr migrated) \<Longrightarrow>
    NewPool (pr_pool E) (cfg_DatabaseURL cfg) (cfg_DBMaxConns cfg) = (pool, Inr conns) \<Longrightarrow>
    run_seed E cfg db1 = (db2, Inr seeded) \<Longrightarrow>
    start_steps E cfg db (db2, migrated @ seeded, pool,
      Inr \<lparr>app_tokens = tokens,
           app_login = NewLoginService (ex_bcrypt (pr_externals E)) (se_login_salt (pr_start E)) tokens,
           app_timeout = cfg_RequestTimeout cfg\<rparr>)"

lemma start_start_steps: "start_steps E cfg db (start E cfg db)"
proof (cases "NewTokenService (cfg_JWTSecret cfg) (cfg_JWTIssuer cfg) (cfg_JWTAudience cfg)")
  case (Inl e)
  then show ?thesis by (simp add: start_def start_steps.no_tokens)
next
  case (Inr tokens)
  note tokens = Inr
  obtain db1 m where m: "run_migrations E cfg db = (db1, m)" by fastforce
  obtain pool p where p: "NewPool (pr_pool E) (cfg_DatabaseURL cfg) (cfg_DBMaxConns cfg) = (pool, p)" by fastforce
  obtain db2 s where s: "run_seed E cfg db1 = (db2, s)" by fastforce
  show ?thesis
    using tokens m p s
    by (cases m; cases p; cases s) (simp_all add: start_def start_steps.intros)
qed

lemma NewPool_events:
  "NewPool L url n = (pool, Inl e) \<Longrightarrow> pool = [] \<or> pool = [PoolOpened, PoolClosed]"
  "NewPool L url n = (pool, Inr conns) \<Longrightarrow> pool = [PoolOpened]"
  by (auto simp: NewPool_def Let_def split: if_splits sum.splits option.splits)

end
