(* ===== verification/Migration_Results.thy ===== *)
theory Migration_Results
  imports Migrations Sample
begin

text \<open>What the migration scripts and \<open>Migrate\<close> do to the rows of a database.\<close>

text \<open>
  C37. The scripts are reversible and keep the constraints: a script that succeeds on a database
  with valid rows leads to a database that satisfies all constraints of the next schema and
  keeps every transfer and every account, and the script back restores exactly the database
  that was there before.
\<close>

theorem migrations_round_trip:
  assumes "stored_ok P s" and "up_script now s = Inr s'"
  shows "stored_ok P s' \<and> schema_version s' = Suc (schema_version s) \<and>
    stored_transfers s' = stored_transfers s \<and> stored_accounts s' = stored_accounts s \<and> down_script s' = Inr s"
  using up_script_ok [OF assms] up_script_version [OF assms(2)] up_script_keeps [OF assms(2)] up_down [OF assms(2)]
  by blast

definition sample_v1 :: transfers_v1 where
  "sample_v1 = drop_failure_reason sample_row"

definition sample_v2 :: "accounts_v2 list" where
  "sample_v2 = [\<lparr>a2_id = ''a'', a2_user_id = ''alice''\<rparr>, \<lparr>a2_id = ''b'', a2_user_id = ''bob''\<rparr>]"

lemma sample_schema2: "stored_ok P (Schema2 [sample_v1] sample_v2)"
proof -
  have "transfers_ok (map add_failure_reason [sample_v1])" "distinct (map a2_id sample_v2)"
    "list_all accounts_v2_check sample_v2" by code_simp+
  then show ?thesis by simp
qed

lemma sample_up:
  "up_script 9 (Schema2 [sample_v1] sample_v2) =
     Inr (Schema3 (map add_failure_reason [sample_v1]) (map (add_balance 9) sample_v2))"
  by code_simp

theorem migrations_round_trip_witness:
  "down_script (Schema3 (map add_failure_reason [sample_v1]) (map (add_balance 9) sample_v2)) =
     Inr (Schema2 [sample_v1] sample_v2)"
  using migrations_round_trip [OF sample_schema2 [of sample_pg] sample_up] by blast

text \<open>
  C36. \<open>Migrate\<close> succeeds exactly on databases that are up to date or have neither accounts nor
  transfers. Every other database cannot be upgraded: script 5 creates the table of users
  empty and at once requires every account to belong to a user, so it fails as soon as there
  is an account, and script 3 fails before when a transfer names an unknown account. Whether
  it succeeds or fails, no row is added, removed or changed in any column (\<open>rows_of\<close>): users,
  accounts with their balances, transfers with their failure reasons and the ledger stay, and
  columns that a script adds hold their defaults. After a failure the database is left marked,
  so that every later start fails as well.
\<close>

theorem upgrade_needs_empty_tables:
  assumes lib: "migrate_documented now M" "migrate_reachable M url" and ok: "stored_ok P s"
    and run: "Migrate M url (False, s) = ((dirty, s'), res)"
  shows "stored_ok P s' \<and> rows_of now s' = rows_of now s \<and>
    stored_transfers s' = stored_transfers s \<and> stored_accounts s' = stored_accounts s \<and>
    (if schema_version s = 5 \<or> stored_accounts s = [] \<and> stored_transfers s = []
     then res = Inr 5 \<and> schema_version s' = 5 \<and> \<not> dirty
     else (\<exists>m. res = Inl (Wrapped ''apply migrations'' (DbError m))) \<and> schema_version s' < 5 \<and>
       fst (Migrate M url (dirty, s')) = (dirty, s') \<and> isl (snd (Migrate M url (dirty, s'))))"
proof -
  note M = Migrate_def lib(1) [unfolded migrate_documented_def] lib(2) [unfolded migrate_reachable_def]
  show ?thesis
  proof (cases "schema_version s = 5")
    case True
    then show ?thesis using run ok by (auto simp: M documented_up_def)
  next
    case False
    then have less: "schema_version s < 5" using schema_version_le [of s] by simp
    obtain s1 e where scripts: "apply_scripts now s = (s1, e)" by fastforce
    note stop = apply_scripts_end [OF scripts ok]
    show ?thesis
    proof (cases e)
      case None
      with migrated_empty [OF ok less] scripts have "stored_accounts s = [] \<and> stored_transfers s = []" by blast
      with None stop scripts run False show ?thesis by (auto simp: M documented_up_def)
    next
      case (Some x)
      with stop have fails: "stored_ok P s1" "up_script now s1 = Inl x" "schema_version s1 < 5" by auto
      from up_script_fails [OF this] stop obtain m where "x = DbError m" "stored_accounts s \<noteq> [] \<or> stored_transfers s \<noteq> []"
        by auto
      with Some stop scripts run False show ?thesis by (auto simp: M documented_up_def)
    qed
  qed
qed

definition sample_migrate :: "versioned migrate_lib" where
  "sample_migrate =
     \<lparr>mg_source = None, mg_ParseConfig = (\<lambda>_. None), mg_WithInstance = None, mg_NewWithInstance = None,
      mg_Up = documented_up 9, mg_Version = (\<lambda>(_, s). if schema_version s = 0 then Inl (ErrorsNew ''no migration'') else Inr (schema_version s))\<rparr>"

lemma sample_migrate_documented: "migrate_documented 9 sample_migrate" "migrate_reachable sample_migrate url"
  by (simp_all add: migrate_documented_def migrate_reachable_def sample_migrate_def)

theorem upgrade_needs_empty_tables_witness:
  "snd (Migrate sample_migrate ''postgres://db'' (False, Schema0)) = Inr 5 \<and>
   isl (snd (Migrate sample_migrate ''postgres://db'' (False, Schema2 [sample_v1] sample_v2)))"
proof -
  obtain d0 s0 r0 d2 s2 r2 where
    runs: "Migrate sample_migrate ''postgres://db'' (False, Schema0) = ((d0, s0), r0)"
      "Migrate sample_migrate ''postgres://db'' (False, Schema2 [sample_v1] sample_v2) = ((d2, s2), r2)"
    by (metis surj_pair)
  have "stored_ok sample_pg Schema0" by simp
  from upgrade_needs_empty_tables [OF sample_migrate_documented this runs(1)]
    upgrade_needs_empty_tables [OF sample_migrate_documented sample_schema2 [of sample_pg] runs(2)]
  show ?thesis by (auto simp: runs)
qed

end
