(* ===== verification/Startup_Results.thy ===== *)
theory Startup_Results
  imports Startup Http_Results Migration_Results
begin

text \<open>
  What holds of the process as a whole: an accepted configuration is enough for the program's
  own steps of the start to succeed, seeding and serving never alter money that is there, and
  the connection pool is released on every path.
\<close>

subsection \<open>Demo data\<close>

lemma Demo_outcome:
  assumes "Demo B P c salt password db = (db', res)"
  shows "db' = db \<and> isl res \<or>
    (\<exists>hash. HashPassword B salt password = Inr hash \<and> seed_users P c hash demoUsers db = (db', Inr ()))"
  using assms
  by (auto simp: Demo_def Store_WithinTx_def exec_def
      split: sum.splits option.splits prod.splits commit_outcome.splits)

text \<open>
  C38. Seeding is safe on every start: however it ends, accounts that exist keep their balance
  and owner, transfers and ledger are untouched and the constraints of the database hold; and
  when it succeeds every demo user can be found under its identifier with the password and the
  permissions of the demo, and every demo account exists.
\<close>

theorem demo_is_safe:
  assumes "seed_inv P db" and "bcrypt_documented B" and "Demo B P c salt password db = (db', res)"
  shows "seed_inv P db' \<and> db_transfers db' = db_transfers db \<and> db_ledger db' = db_ledger db \<and>
    (\<forall>i a. account_at db i = Some a \<longrightarrow> account_at db' i = Some a) \<and>
    (res = Inr () \<longrightarrow> (\<forall>u \<in> set demoUsers.
       (\<exists>v \<in> set (db_users db'). usr_id v = du_id u \<and> usr_permissions v = demoPermissions \<and>
          bc_matches B (usr_password_hash v) password) \<and>
       (\<forall>a \<in> set (du_accounts u). account_at db' (da_id a) \<noteq> None)))"
proof (cases "db' = db \<and> isl res")
  case True
  with assms(1) show ?thesis by auto
next
  case False
  with Demo_outcome [OF assms(3)] obtain hash where hash: "HashPassword B salt password = Inr hash"
    and seed: "seed_users P c hash demoUsers db = (db', Inr ())" by blast
  have match: "bc_matches B hash password"
    using hash assms(2) by (auto simp: HashPassword_def bcrypt_documented_def)
  note ext = seed_users_extends [OF seed]
  show ?thesis
    using seed_users_inv [OF seed assms(1)] ext extends_account [OF ext] seed_users_provides [OF seed] match
    by (auto simp: extends_def has_user_def)
qed

definition empty_db :: db where
  "empty_db = \<lparr>db_users = [], db_accounts = [], db_transfers = [], db_ledger = []\<rparr>"

theorem demo_is_safe_witness:
  "\<exists>db'. Demo sample_bcrypt sample_pg (sample_call 1) '''' ''demo-password'' empty_db = (db', Inr ()) \<and>
     account_at db' ''acc-carol-pen'' \<noteq> None"
proof -
  let ?r = "Demo sample_bcrypt sample_pg (sample_call 1) '''' ''demo-password'' empty_db"
  have "snd ?r = Inr ()" by code_simp
  then obtain db' where r: "?r = (db', Inr ())" by (cases ?r) auto
  have "seed_inv sample_pg empty_db"
    by (simp add: seed_inv_def db_ok_def users_ok_def empty_db_def)
  from demo_is_safe [OF this sample_bcrypt_documented r] r show ?thesis
    by (auto simp: demoUsers_def)
qed

subsection \<open>Starting\<close>

lemma accepted_tokens:
  assumes "Load fraction getenv = (cfg, [])"
  shows "NewTokenService (cfg_JWTSecret cfg) (cfg_JWTIssuer cfg) (cfg_JWTAudience cfg) =
    Inr \<lparr>ts_key = cfg_JWTSecret cfg, ts_issuer = cfg_JWTIssuer cfg, ts_audience = cfg_JWTAudience cfg\<rparr>"
proof -
  have "TrimSpace ''bankmonitoring'' \<noteq> ''''" "TrimSpace ''bankmonitoring-api'' \<noteq> ''''" by code_simp+
  note withDefault_not_blank [OF this(1)] withDefault_not_blank [OF this(2)]
  then show ?thesis using Load_ok [OF assms] by (simp add: NewTokenService_def)
qed

text \<open>
  C39. With an accepted configuration the start fails only because of the outside: the
  migrations, the connection pool or the seeding. The signing key, issuer and audience are
  always acceptable, the database address is never reported as missing, and a started process
  serves with the configured key and timeout.
\<close>

theorem accepted_config_starts:
  assumes "Load fraction getenv = (cfg, [])" and "start E cfg db = (db', log, pool, res)"
  shows "case res of
      Inl e \<Rightarrow>
        (cfg_RunMigrations cfg \<and> snd (Migrate (pr_migrate E) (cfg_DatabaseURL cfg) db) = Inl e) \<or>
        (snd (NewPool (pr_pool E) (cfg_DatabaseURL cfg) (cfg_DBMaxConns cfg)) = Inl e \<and>
         e \<noteq> ErrorsNew ''DATABASE_URL is required'') \<or>
        (cfg_SeedDemoData cfg \<and> (\<exists>db1. snd (Demo (ex_bcrypt (pr_externals E)) (ex_pg (pr_externals E))
           (se_call (pr_start E)) (se_demo_salt (pr_start E)) (cfg_DemoPassword cfg) db1) = Inl e))
    | Inr app \<Rightarrow> ts_key (app_tokens app) = cfg_JWTSecret cfg \<and> 32 \<le> length (ts_key (app_tokens app)) \<and>
        ls_tokens (app_login app) = app_tokens app \<and>
        (\<forall>c now. effective_timeout (api_dependencies (pr_externals E) app c now) = cfg_RequestTimeout cfg)"
proof -
  note cfg = Load_ok [OF assms(1)]
  note tokens = accepted_tokens [OF assms(1)]
  have url: "snd (NewPool (pr_pool E) (cfg_DatabaseURL cfg) (cfg_DBMaxConns cfg)) \<noteq>
      Inl (ErrorsNew ''DATABASE_URL is required'')"
    using cfg by (simp add: NewPool_def Let_def split: sum.split option.split)
  have steps: "start_steps E cfg db (db', log, pool, res)"
    using start_start_steps [of E cfg db] assms(2) by simp
  show ?thesis
    using steps
  proof cases
    case no_schema
    then show ?thesis by (auto simp: run_migrations_def split: if_splits prod.splits sum.splits)
  next
    case no_pool
    then show ?thesis using url by auto
  next
    case (no_seed db1 pool0 conns e)
    then have "cfg_SeedDemoData cfg" "snd (Demo (ex_bcrypt (pr_externals E)) (ex_pg (pr_externals E))
        (se_call (pr_start E)) (se_demo_salt (pr_start E)) (cfg_DemoPassword cfg) db1) = Inl e"
      by (auto simp: run_seed_def split: if_splits prod.splits sum.splits)
    with no_seed show ?thesis by auto
  next
    case started
    then show ?thesis
      using tokens cfg by (simp add: NewLoginService_def effective_timeout_def api_dependencies_def)
  qed (use tokens in simp)
qed

text \<open>
  C40. The connection pool is opened at most once and is closed again on every path through
  \<^verbatim>\<open>run\<close>: a failed ping, a failed seeding, a server error and a shutdown.
\<close>

theorem pool_is_released:
  "fst (snd (snd (run E cfg served ending db))) \<in> {[], [PoolOpened, PoolClosed]}"
  using start_start_steps [of E cfg db]
  by (cases rule: start_steps.cases) (auto simp: run_def dest!: NewPool_events split: prod.split)

subsection \<open>The whole process\<close>

lemma run_migrations_keep:
  assumes "migrate_documented now M" and "pr_migrate E = on_last_schema M" and "run_migrations E cfg db = (db1, res)"
  shows "db1 = db"
proof -
  have "db1 = db \<or> db1 = fst (mg_Up (pr_migrate E) db)"
    using assms(3)
    by (auto simp: run_migrations_def Migrate_def split: if_splits prod.splits sum.splits option.splits)
  with documented_up_last_schema [OF assms(1)] assms(2) show ?thesis by auto
qed

lemma run_seed_keep:
  assumes "seed_inv (ex_pg (pr_externals E)) db" and "run_seed E cfg db = (db1, res)"
  shows "seed_inv (ex_pg (pr_externals E)) db1 \<and> extends db db1"
proof -
  let ?X = "pr_externals E"
  have "db1 = db \<or> (\<exists>r. Demo (ex_bcrypt ?X) (ex_pg ?X) (se_call (pr_start E)) (se_demo_salt (pr_start E))
      (cfg_DemoPassword cfg) db = (db1, r))"
    using assms(2) by (auto simp: run_seed_def split: if_splits prod.splits sum.splits)
  then have "db1 = db \<or> (\<exists>hash. seed_users (ex_pg ?X) (se_call (pr_start E)) hash demoUsers db = (db1, Inr ()))"
    using Demo_outcome by blast
  with assms(1) seed_users_inv seed_users_extends show ?thesis by auto
qed

lemma start_keep:
  assumes "migrate_documented now M" and "pr_migrate E = on_last_schema M"
    and "seed_inv (ex_pg (pr_externals E)) db" and "start E cfg db = (db', log, pool, res)"
  shows "seed_inv (ex_pg (pr_externals E)) db' \<and> extends db db'"
proof -
  have "start_steps E cfg db (db', log, pool, res)" using start_start_steps [of E cfg db] assms(4) by simp
  moreover have "seed_inv (ex_pg (pr_externals E)) db1 \<and> extends db db1"
    if "run_migrations E cfg db = (db1, x)" for db1 x
    using run_migrations_keep [OF assms(1,2) that] assms(3) by (simp add: extends_refl)
  ultimately show ?thesis
    using run_seed_keep assms(3) extends_trans
    by cases (blast | simp)+
qed

text \<open>
  C35. A process that is started on a database of the last schema keeps the books for its whole
  life, over the seeding and any requests to the shutdown and however any of its steps fails:
  every account that existed before still belongs to the same user, is not negative and holds
  its old balance plus the ledger entries written since. On this schema the migration
  library, as it is documented, has no script to apply; older schemas are not the subject here.
\<close>

theorem process_keeps_books:
  assumes "pg_documented (ex_pg (pr_externals E))" and "seed_inv (ex_pg (pr_externals E)) db"
    and "migrate_documented now M" and "pr_migrate E = on_last_schema M"
    and run: "run E cfg served ending db = (db', log, pool, err)" and acc: "account_at db i = Some a"
  shows "\<exists>a'. account_at db' i = Some a' \<and> acc_user_id a' = acc_user_id a \<and> acc_currency a' = acc_currency a \<and>
    0 \<le> sint (acc_balance a') \<and>
    sint (acc_balance a') = sint (acc_balance a) + (ledger_total i db' - ledger_total i db)"
proof -
  let ?P = "ex_pg (pr_externals E)"
  obtain db1 log1 pool1 res where st: "start E cfg db = (db1, log1, pool1, res)"
    by (cases "start E cfg db") auto
  from start_keep [OF assms(3,4,2) st] have inv: "pg_inv ?P db1" and ext: "extends db db1"
    using assms(1) by (auto simp: seed_inv_def pg_inv_def)
  have ledger: "ledger_total i db1 = ledger_total i db" using ext by (simp add: extends_def ledger_total_def)
  from extends_account [OF ext acc] have a: "account_at db1 i = Some a" .
  obtain calls where db': "db' = run_calls ?P calls db1"
  proof (cases res)
    case (Inl e)
    with run st that [of "[]"] show ?thesis by (auto simp: run_def)
  next
    case (Inr app)
    with run st that show ?thesis by (auto simp: run_def serve_all_calls split: prod.splits)
  qed
  from run_calls_account [OF inv a, of calls] obtain a' where a': "account_at db' i = Some a'"
    "acc_user_id a' = acc_user_id a" "acc_currency a' = acc_currency a"
    "sint (acc_balance a') = sint (acc_balance a) + (ledger_total i db' - ledger_total i db1)"
    unfolding db' by (auto simp: algebra_simps)
  moreover have "0 \<le> sint (acc_balance a')"
    using run_calls_inv [OF inv, of calls] account_at_id [OF a'(1)] unfolding db' [symmetric]
    by (auto simp: pg_inv_def db_ok_def list_all_iff accounts_check_def)
  ultimately show ?thesis using ledger by auto
qed

subsection \<open>A concrete process\<close>

definition sample_getenv :: getenv where
  "sample_getenv name =
     (if name = ''DATABASE_URL'' then ''postgres://db''
      else if name = ''JWT_SECRET'' then '' QUFBQUFBQUFBQUFBQUFBQUFBQUFBQUFBQUFBQUFBQUE= ''
      else if name = ''PORT'' then ''9000'' else '''')"

definition sample_process :: process where
  "sample_process =
     \<lparr>pr_externals = sample_externals,
      pr_migrate = on_last_schema sample_migrate,
      pr_pool = \<lparr>pl_ParseConfig = (\<lambda>_. Inr 4), pl_NewWithConfig = (\<lambda>_. None), pl_Ping = None\<rparr>,
      pr_start = \<lparr>se_call = sample_call 1, se_demo_salt = '''', se_login_salt = ''''\<rparr>\<rparr>"

definition sample_config :: config where
  "sample_config = fst (Load (\<lambda>_ _ _. 0) sample_getenv)"

lemma sample_config_accepted: "Load (\<lambda>_ _ _. 0) sample_getenv = (sample_config, [])"
proof -
  have "snd (Load (\<lambda>_ _ _. 0) sample_getenv) = []" by code_simp
  then show ?thesis by (simp add: sample_config_def prod_eq_iff)
qed

lemma sample_config_no_seed: "\<not> cfg_SeedDemoData sample_config"
  unfolding sample_config_def by code_simp

theorem accepted_config_starts_witness:
  "\<exists>app. snd (snd (snd (start sample_process sample_config sample_db))) = Inr app \<and>
     32 \<le> length (ts_key (app_tokens app))"
proof -
  obtain db' log pool res where st: "start sample_process sample_config sample_db = (db', log, pool, res)"
    by (cases "start sample_process sample_config sample_db") auto
  have "snd (Migrate (pr_migrate sample_process) url db) = Inr 5" for url db
    using documented_migrate_last_schema [OF sample_migrate_documented] by (simp add: sample_process_def)
  moreover have "TrimSpace (cfg_DatabaseURL sample_config) \<noteq> ''''"
    using Load_ok [OF sample_config_accepted] by blast
  then have "snd (NewPool (pr_pool sample_process) (cfg_DatabaseURL sample_config) n) = Inr (if n > 0 then n else 4)" for n
    by (simp add: NewPool_def sample_process_def Let_def)
  ultimately show ?thesis
    using accepted_config_starts [OF sample_config_accepted st] sample_config_no_seed st
    by (cases res) auto
qed

theorem process_keeps_books_witness:
  "\<exists>a'. account_at (fst (run sample_process sample_config [(sample_call 7, sample_env, sample_http)]
      (Signalled None ErrServerClosed) sample_bank)) ''a'' = Some a' \<and> acc_user_id a' = ''alice''"
proof -
  let ?r = "run sample_process sample_config [(sample_call 7, sample_env, sample_http)]
      (Signalled None ErrServerClosed) sample_bank"
  obtain db' log pool err where r: "?r = (db', log, pool, err)" by (cases ?r) auto
  have P: "ex_pg (pr_externals sample_process) = sample_pg" by (simp add: sample_process_def sample_externals_def)
  have "seed_inv sample_pg sample_bank"
    using sample_bank_inv sample_bank_users by (simp add: seed_inv_def pg_inv_def)
  moreover have M: "pr_migrate sample_process = on_last_schema sample_migrate" by (simp add: sample_process_def)
  moreover have a: "account_at sample_bank ''a'' = Some (sample_account ''a'' ''alice'' ''PEN'' 100)" by code_simp
  ultimately show ?thesis
    using process_keeps_books [OF _ _ sample_migrate_documented(1) M r a] sample_documented
    by (auto simp: P r sample_account_def)
qed

subsection \<open>Logging and time limits\<close>

text \<open>
  With the default level every request outside the probes appears in the log with its status;
  probes do not appear, not even a readiness probe that answered 503.
\<close>

lemma request_line_shown:
  assumes "cfg_LogLevel cfg = 0"
  shows "\<exists>wd status. NewHandler d env r (fresh_world db) = (wd, None) \<and> rw_status (wd_writer wd) = Some status \<and>
    logger_output cfg [last (wd_log wd)] =
      (if rq_path r = [''health''] \<or> rq_path r = [''ready''] then []
       else [AccessLog (if 500 \<le> status then LevelError else LevelInfo) (request_id_of env r) (rq_method r)
         (rq_path r) (routeOf r) status])"
proof -
  have "pristine (wd_writer (fresh_world db))" by simp
  from NewHandler_answers [OF this, of d env r] assms show ?thesis
    by (fastforce simp: logger_output_def logger_enabled_def access_level_def)
qed

text \<open>
  The server lets a response be written for 15 seconds only, whatever request timeout is
  configured; a longer one is accepted with every configuration.
\<close>

lemma write_timeout_below_request_timeout:
  assumes "Load fraction getenv = (cfg, [])"
  shows "case Load fraction (getenv(''REQUEST_TIMEOUT'' := ''20s'')) of (cfg', errs) \<Rightarrow>
    errs = [] \<and> sv_WriteTimeout (new_server cfg') < cfg_RequestTimeout cfg'"
  using Load_20s [OF assms]
  by (simp add: case_prod_unfold new_server_def time_Second_def)

subsection \<open>The end of the process\<close>

text \<open>
  The health check asks for the health route at the address that a process in the same
  environment listens on, on the loopback interface when the address is only a port.
\<close>

lemma healthcheck_url_address:
  assumes "Load fraction getenv = (cfg, errs)"
  shows "healthcheck_url getenv =
    ''http://'' @ (if take 1 (cfg_HTTPAddr cfg) = '':'' then ''127.0.0.1'' else '''') @ cfg_HTTPAddr cfg @ ''/health''"
proof -
  have "cfg_HTTPAddr cfg = HTTPAddr getenv"
    using assms by (auto simp: Load_def Let_def split: prod.splits)
  moreover have "prefix '':'' s \<longleftrightarrow> take 1 s = '':''" for s by (cases s) auto
  ultimately show ?thesis by (simp add: healthcheck_url_def Let_def)
qed

lemma run_clean_end:
  "snd (snd (snd (run E cfg served ending db))) = None \<longleftrightarrow>
     \<not> isl (snd (snd (snd (start E cfg db)))) \<and>
     (\<exists>e. ending = Signalled None e \<and> errors_Is e ErrServerClosed)"
  by (auto simp: run_def run_end_def split: prod.splits sum.splits server_end.splits option.splits)

text \<open>
  What exit code 0 means: as a health check, that the health route at the address of the
  process's own configuration answered 200; as a server, that the configuration was accepted,
  the start succeeded and a signal ended the server with a clean shutdown.
\<close>

lemma exit_code_meaning:
  "main_exit fraction getenv get args E served ending db = 0 \<longleftrightarrow>
     (let cfg = fst (Load fraction getenv); addr = cfg_HTTPAddr cfg in
      if 1 < length args \<and> args ! 1 = ''healthcheck''
      then get (''http://'' @ (if take 1 addr = '':'' then ''127.0.0.1'' else '''') @ addr @ ''/health'') = Inr 200
      else snd (Load fraction getenv) = [] \<and> \<not> isl (snd (snd (snd (start E cfg db)))) \<and>
        (\<exists>e. ending = Signalled None e \<and> errors_Is e ErrServerClosed))"
proof -
  obtain cfg errs where load: "Load fraction getenv = (cfg, errs)" by fastforce
  have "healthcheck get getenv = 0 \<longleftrightarrow> get (healthcheck_url getenv) = Inr 200"
    by (auto simp: healthcheck_def split: sum.split)
  moreover have "(case run E cfg served ending db of (_, _, _, Some e) \<Rightarrow> 1 | (_, _, _, None) \<Rightarrow> 0) = (0 :: nat) \<longleftrightarrow>
      snd (snd (snd (run E cfg served ending db))) = None"
    by (auto split: prod.splits option.splits)
  ultimately show ?thesis
    by (simp add: main_exit_def load healthcheck_url_address [OF load] run_clean_end Let_def del: One_nat_def)
qed

end
