(* ===== verification/Domain_Results.thy ===== *)
theory Domain_Results
  imports Documented Sample
begin

text \<open>
  Results about the parts of a transfer: the arithmetic of money, the validation of requests
  against the schema, the stored request, the locked accounts, and reading a transfer back.
\<close>

text \<open>
  C25. The 64-bit arithmetic of money is exact: \<open>Debit\<close> and \<open>Credit\<close> succeed exactly when the
  amount is positive and the true result is in range, and then the new balance is the true
  difference or sum; otherwise they say why.
\<close>

theorem money_arithmetic_exact:
  "(case Debit a x of
      Inr a' \<Rightarrow> 0 < sint x \<and> 0 \<le> sint (acc_balance a') \<and>
        sint (acc_balance a') = sint (acc_balance a) - sint x
    | Inl e \<Rightarrow> (e = ErrInvalidAmount \<and> sint x \<le> 0) \<or>
        (e = ErrInsufficientFunds \<and> 0 < sint x \<and> sint (acc_balance a) - sint x < 0)) \<and>
   (case Credit a x of
      Inr a' \<Rightarrow> 0 < sint x \<and> sint (acc_balance a') = sint (acc_balance a) + sint x
    | Inl e \<Rightarrow> (e = ErrInvalidAmount \<and> sint x \<le> 0) \<or>
        (e = ErrBalanceOverflow \<and> 0 < sint x \<and> 2 ^ 63 \<le> sint (acc_balance a) + sint x))"
proof
  show "case Debit a x of
      Inr a' \<Rightarrow> 0 < sint x \<and> 0 \<le> sint (acc_balance a') \<and>
        sint (acc_balance a') = sint (acc_balance a) - sint x
    | Inl e \<Rightarrow> (e = ErrInvalidAmount \<and> sint x \<le> 0) \<or>
        (e = ErrInsufficientFunds \<and> 0 < sint x \<and> sint (acc_balance a) - sint x < 0)"
    by (auto simp: Debit_eq_Inl Debit_eq_Inr sint_debit split: sum.split)
  show "case Credit a x of
      Inr a' \<Rightarrow> 0 < sint x \<and> sint (acc_balance a') = sint (acc_balance a) + sint x
    | Inl e \<Rightarrow> (e = ErrInvalidAmount \<and> sint x \<le> 0) \<or>
        (e = ErrBalanceOverflow \<and> 0 < sint x \<and> 2 ^ 63 \<le> sint (acc_balance a) + sint x)"
    by (auto simp: Credit_eq_Inl Credit_eq_Inr sint_credit split: sum.split)
qed



text \<open>
  C26. The request kept with a transfer is read back unchanged: encoding it as JSON, storing it
  as JSONB, which may reorder its members, and decoding it gives the same request, field for
  field. The fields have to be texts that PostgreSQL can hold: valid UTF-8 without a zero
  character, as the insert requires of the columns of the same row.
\<close>

theorem stored_request_round_trip:
  assumes "jsonb_keeps_members P"
    and "list_all pg_text [req_from_account_id r, req_to_account_id r, req_currency r, req_description r]"
  shows "unmarshal_create_transfer (JObject (pg_jsonb P (marshal_create_transfer r))) = Inr r"
  using assms by (rule stored_members_decode)

theorem stored_request_round_trip_witness:
  "unmarshal_create_transfer (JObject (pg_jsonb sample_pg (marshal_create_transfer (sample_request ''a'' ''b'' (- 5)))))
     = Inr (sample_request ''a'' ''b'' (- 5))"
proof -
  let ?r = "sample_request ''a'' ''b'' (- 5)"
  have "list_all pg_text [req_from_account_id ?r, req_to_account_id ?r, req_currency ?r, req_description ?r]"
    by code_simp
  with stored_request_round_trip [of sample_pg ?r] sample_documented show ?thesis by (simp add: pg_documented_def)
qed

text \<open>
  Locking depends only on which accounts are asked for: two transfers between the same
  accounts in opposite directions send the same statement and lock the same rows in the same
  order, and the result holds exactly the requested accounts that exist.
\<close>

lemma lock_order_is_canonical:
  assumes "db_ok db" and "set ids = set ids'"
  shows "LockForTransfer P c db ids = LockForTransfer P c db ids' \<and>
    (\<forall>m. LockForTransfer P c db ids = Inr m \<longrightarrow> (\<forall>i. m i = (if i \<in> set ids then account_at db i else None)))"
proof
  have "slices_Compact (slices_Sort ids) = slices_Compact (slices_Sort ids')"
    using compact_sort_sorted_distinct [of ids] compact_sort_sorted_distinct [of ids'] assms(2)
    by (intro sorted_distinct_set_unique) simp_all
  then show "LockForTransfer P c db ids = LockForTransfer P c db ids'" by (simp add: LockForTransfer_def)
  show "\<forall>m. LockForTransfer P c db ids = Inr m \<longrightarrow> (\<forall>i. m i = (if i \<in> set ids then account_at db i else None))"
    using LockForTransfer_eq [OF assms(1)] by blast
qed

text \<open>
  C24. A transfer that was answered to its creator can be read by its identifier at any later
  time, with the same content, by the creator; every other user gets "not found".
\<close>

theorem transfer_readable_by_creator:
  assumes "pg_inv P db" and "uuid_scan_round_trip P"
    and "service_Create P c u key r db = (db1, Inr (tr, created))"
    and "call_fault c' StmtFindTransfer = None" and "pg_text u" and "pg_text u'"
  shows "service_Get P c' (run_calls P calls db1) u' (tr_id tr) =
    (if u' = u then Inr tr else Inl ErrTransferNotFound)"
proof -
  let ?db = "run_calls P calls db1"
  from service_stored [OF assms(1,3)] obtain k where "transfer_at P db1 (u, k) = Some (tr, r)" by blast
  moreover have "pg_inv P db1" using service_invar [OF assms(1), of c u key r] assms(3) by simp
  ultimately have inv: "pg_inv P ?db" and at: "transfer_at P ?db (u, k) = Some (tr, r)"
    using run_calls_transfers run_calls_inv by blast+
  from inv have ok: "db_ok ?db" by (simp add: pg_inv_def)
  from at obtain t where t: "t \<in> set (db_transfers ?db)" "tw_user_id t = u" "tr = transfer_of_row P t"
    using transfer_at_Some [OF ok] by (auto simp: row_key_def)
  have scan: "pg_uuid_scan P (tr_id tr) = Some (tw_id t)"
    using assms(2) t(3) by (simp add: uuid_scan_round_trip_def transfer_of_row_def)
  have only: "s = t" if "s \<in> set (db_transfers ?db)" "tw_id s = tw_id t" for s
    using ok that t(1) by (auto simp: db_ok_def distinct_map dest: inj_onD)
  show ?thesis
  proof (cases "u' = u")
    case True
    then show ?thesis
      using t scan assms(4,6) by (auto simp: service_Get_Inr FindByID_Inr [OF ok])
  next
    case False
    then have "service_Get P c' ?db u' (tr_id tr) \<noteq> Inr x" for x
      using t scan only by (auto simp: service_Get_Inr FindByID_Inr [OF ok])
    then obtain e where "service_Get P c' ?db u' (tr_id tr) = Inl e"
      by (cases "service_Get P c' ?db u' (tr_id tr)") auto
    with False service_Get_Inl [OF ok assms(4,6) this] show ?thesis by simp
  qed
qed

theorem transfer_readable_by_creator_witness:
  "service_Get sample_pg (sample_call 9) sample_paid ''alice'' (tr_id sample_transfer) = Inr sample_transfer \<and>
   service_Get sample_pg (sample_call 9) sample_paid ''bob'' (tr_id sample_transfer) = Inl ErrTransferNotFound"
proof -
  have "uuid_scan_round_trip sample_pg"
    using nat_decimal_digits
    by (simp add: uuid_scan_round_trip_def sample_pg_def decimal_val_nat_decimal)
  note read = transfer_readable_by_creator [OF sample_inv this sample_pays]
  have "pg_text ''alice''" "pg_text ''bob''" by code_simp+
  moreover have "call_fault (sample_call 9) StmtFindTransfer = None" by (simp add: sample_call_def)
  ultimately show ?thesis using read [where calls = "[]"] by simp
qed

text \<open>
  The limit on descriptions counts bytes, although the message and the interface
  description speak of characters: a valid text of 128 two-byte characters is refused.
\<close>

lemma description_limit_counts_bytes:
  "let d = concat (replicate 128 [CHR 0xC3, CHR 0xA9]) in
   length (filter (\<lambda>b. \<not> byte_in 0x80 0xBF b) d) = 128 \<and> utf8_valid d \<and>
   CreateTransfer_Validate (sample_request ''a'' ''b'' 30) = Inr () \<and>
   CreateTransfer_Validate ((sample_request ''a'' ''b'' 30)\<lparr>req_description := d\<rparr>) =
     Inl (Joined [ErrInvalidTransfer, ErrorsNew ''description is limited to 255 characters''])"
proof -
  let ?d = "\<lambda>n. concat (replicate n [CHR 0xC3, CHR 0xA9])"
  have "length (filter (\<lambda>b. \<not> byte_in 0x80 0xBF b) (?d n)) = n" for n
    by (induction n) (simp_all add: byte_in_def)
  moreover have "utf8_valid (?d n)" for n
    by (induction n) (simp_all add: utf8_valid.simps utf8_size.simps utf8_two_def byte_in_def)
  moreover have "length (?d n) = 2 * n" for n by (induction n) simp_all
  moreover have ok: "CreateTransfer_Validate (sample_request ''a'' ''b'' 30) = Inr ()" by code_simp
  moreover have "CreateTransfer_Validate ((sample_request ''a'' ''b'' 30)\<lparr>req_description := ?d 128\<rparr>) =
     Inl (Joined [ErrInvalidTransfer, ErrorsNew ''description is limited to 255 characters''])"
    using ok \<open>\<And>n. length (?d n) = 2 * n\<close> [of 128]
    by (simp add: CreateTransfer_Validate_def sample_request_def split: if_splits)
  ultimately show ?thesis by (simp only: Let_def)
qed

text \<open>
  A description with a NUL character, which JSON can express, passes validation, but
  PostgreSQL cannot store it: the caller gets the database error, which the handler answers
  with 500, instead of an invalid request.
\<close>

lemma nul_description_is_database_error:
  "let r = (sample_request ''a'' ''b'' 30)\<lparr>req_description := [CHR 0x00]\<rparr> in
   CreateTransfer_Validate r = Inr () \<and>
   service_Create sample_pg (sample_call 7) ''alice'' ''42'' r sample_db =
     (sample_db, Inl (Wrapped ''create transfer'' (Wrapped ''insert transfer'' (DbError ''invalid byte sequence''))))"
  by code_simp

end
