(* ===== verification/Test_Database.thy ===== *)
theory Test_Database
  imports Startup Sample
begin

text \<open>
  \<^verbatim>\<open>internal/testutil/pgtest/pgtest.go\<close>: the database that the integration tests run on. \<open>Start\<close>
  launches a container and migrates its empty database, \<open>Main\<close> runs the tests and stops the
  container, \<open>Pool\<close> empties the tables before each test, \<open>CreateUser\<close> inserts a user with
  accounts, \<open>Balance\<close> reads one. The container library is a parameter. The result is that such
  a database satisfies what the results about transfers assume.
\<close>

subsection \<open>The container\<close>

record container_lib =
  ct_Run :: "string \<Rightarrow> string \<Rightarrow> string \<Rightarrow> string \<Rightarrow> go_error option"
  ct_ConnectionString :: "string \<Rightarrow> go_error + string"

datatype container_event = ContainerStarted | ContainerTerminated

definition image :: string where
  "image = ''postgres:17-alpine''"

text \<open>The database of a new container has no tables. \<open>fst\<close> is the database with its version.\<close>

definition pgtest_Start ::
  "container_lib \<Rightarrow> versioned migrate_lib \<Rightarrow> versioned \<times> container_event list \<times> (go_error + string)" where
  "pgtest_Start C M =
     (let fresh = (False, Schema0) in
      case ct_Run C image ''bank'' ''bank'' ''bank'' of
        Some e \<Rightarrow> (fresh, [], Inl (Wrapped ''start postgres'' e))
      | None \<Rightarrow>
      (case ct_ConnectionString C ''sslmode=disable'' of
        Inl e \<Rightarrow> (fresh, [ContainerStarted, ContainerTerminated], Inl e)
      | Inr url \<Rightarrow>
      (case Migrate M url fresh of
        (v, Inl e) \<Rightarrow> (v, [ContainerStarted, ContainerTerminated], Inl e)
      | (v, Inr _) \<Rightarrow> (v, [ContainerStarted], Inr url))))"

text \<open>\<open>tests\<close> is \<^verbatim>\<open>m.Run\<close> on the address; the result is the exit code.\<close>

definition pgtest_Main ::
  "container_lib \<Rightarrow> versioned migrate_lib \<Rightarrow> (string \<Rightarrow> versioned \<Rightarrow> nat) \<Rightarrow> container_event list \<times> nat" where
  "pgtest_Main C M tests =
     (case pgtest_Start C M of
        (_, events, Inl e) \<Rightarrow> (events, 1)
      | (v, events, Inr url) \<Rightarrow> (events @ [ContainerTerminated], tests url v))"

subsection \<open>Fixtures\<close>

definition sql_truncate :: "db \<Rightarrow> db" where
  "sql_truncate db = db\<lparr>db_users := [], db_accounts := [], db_transfers := [], db_ledger := []\<rparr>"

text \<open>
  \<open>Pool\<close> returns the events so far, those that its cleanup adds when the test ends, and the
  number of connections, or the error that ends the test.
\<close>

definition pgtest_Pool ::
  "pool_lib \<Rightarrow> pg_call \<Rightarrow> string \<Rightarrow> int \<Rightarrow> db \<Rightarrow> db \<times> pool_event list \<times> pool_event list \<times> (go_error + int)" where
  "pgtest_Pool L c url maxConns db =
     (case NewPool L url maxConns of
        (events, Inl e) \<Rightarrow> (db, events, [], Inl e)
      | (events, Inr conns) \<Rightarrow>
      (case exec c StmtTruncate (Inr (sql_truncate db)) of
        Inl e \<Rightarrow> (db, events, [PoolClosed], Inl e)
      | Inr db' \<Rightarrow> (db', events, [PoolClosed], Inr conns)))"

definition test_user :: "string \<Rightarrow> user" where
  "test_user userID =
     \<lparr>usr_id = userID, usr_email = userID @ ''@example.com'', usr_password_hash = ''unused'', usr_permissions = []\<rparr>"

definition sql_create_user :: "pg \<Rightarrow> db \<Rightarrow> user \<Rightarrow> go_error + db" where
  "sql_create_user P db u =
     (if \<not> list_all pg_text (user_texts u) then Inl (violation ''invalid byte sequence'')
      else if \<not> users_check u then Inl (violation ''check constraint'')
      else if list_ex (\<lambda>v. usr_id v = usr_id u) (db_users db) then Inl (violation ''users_pkey'')
      else if list_ex (\<lambda>v. pg_lower P (usr_email v) = pg_lower P (usr_email u)) (db_users db)
      then Inl (violation ''users_email_unique_idx'')
      else Inr (db\<lparr>db_users := db_users db @ [u]\<rparr>))"

definition test_account :: "pg_call \<Rightarrow> string \<Rightarrow> string \<Rightarrow> i64 \<Rightarrow> account" where
  "test_account c userID i balance =
     \<lparr>acc_id = i, acc_user_id = userID, acc_currency = ''PEN'', acc_balance = balance,
      acc_created_at = call_now c, acc_updated_at = call_now c\<rparr>"

definition sql_create_account :: "db \<Rightarrow> account \<Rightarrow> go_error + db" where
  "sql_create_account db a =
     (if \<not> list_all pg_text [acc_id a, acc_user_id a, acc_currency a]
      then Inl (violation ''invalid byte sequence'')
      else if \<not> accounts_check a then Inl (violation ''check constraint'')
      else if list_ex (\<lambda>b. acc_id b = acc_id a) (db_accounts db) then Inl (violation ''accounts_pkey'')
      else if \<not> list_ex (\<lambda>u. usr_id u = acc_user_id a) (db_users db) then Inl (violation ''accounts_user_fk'')
      else Inr (db\<lparr>db_accounts := db_accounts db @ [a]\<rparr>))"

text \<open>
  Each statement commits on its own: what was inserted before an error stays. The list of
  balances is the map in the order in which the loop visits it.
\<close>

fun create_accounts :: "pg_call \<Rightarrow> string \<Rightarrow> (string \<times> i64) list \<Rightarrow> db \<Rightarrow> db \<times> go_error option" where
  "create_accounts c userID [] db = (db, None)"
| "create_accounts c userID ((i, balance) # balances) db =
     (case exec c (StmtCreateAccount i) (sql_create_account db (test_account c userID i balance)) of
        Inl e \<Rightarrow> (db, Some e)
      | Inr db' \<Rightarrow> create_accounts c userID balances db')"

definition CreateUser ::
  "pg \<Rightarrow> pg_call \<Rightarrow> string \<Rightarrow> (string \<times> i64) list \<Rightarrow> db \<Rightarrow> db \<times> go_error option" where
  "CreateUser P c userID balances db =
     (case exec c StmtCreateUser (sql_create_user P db (test_user userID)) of
        Inl e \<Rightarrow> (db, Some e)
      | Inr db' \<Rightarrow> create_accounts c userID balances db')"

definition Balance :: "pg_call \<Rightarrow> db \<Rightarrow> string \<Rightarrow> go_error + i64" where
  "Balance c db accountID =
     exec c StmtBalance
       (if pg_text accountID
        then first_row (map acc_balance (filter (\<lambda>a. acc_id a = accountID) (db_accounts db)))
        else Inl (violation ''invalid byte sequence''))"

text \<open>A test that creates several users and goes on after errors or not.\<close>

type_synonym fixture = "(pg_call \<times> string \<times> (string \<times> i64) list) list"

primrec create_users :: "pg \<Rightarrow> fixture \<Rightarrow> db \<Rightarrow> db \<times> go_error option" where
  "create_users P [] db = (db, None)"
| "create_users P (x # xs) db =
     (case x of (c, userID, balances) \<Rightarrow>
        (case CreateUser P c userID balances db of
           (db', Some e) \<Rightarrow> (db', Some e)
         | (db', None) \<Rightarrow> create_users P xs db'))"

subsection \<open>What the helper leaves behind\<close>

text \<open>A plain insert that succeeds does what the upsert of the demo data does.\<close>

lemma create_user_upserts: "sql_create_user P db u = Inr db' \<Longrightarrow> sql_upsert_user P db u = Inr db'"
  by (simp add: sql_create_user_def sql_upsert_user_def split: if_splits)

lemma create_account_inserts: "sql_create_account db a = Inr db' \<Longrightarrow> sql_insert_account db a = Inr db'"
  by (simp add: sql_create_account_def sql_insert_account_def split: if_splits)

lemma create_user_accounts: "sql_create_user P db u = Inr db' \<Longrightarrow> db_accounts db' = db_accounts db"
  by (auto simp: sql_create_user_def split: if_splits)

lemma create_account_appends:
  "sql_create_account db a = Inr db' \<Longrightarrow> db_accounts db' = db_accounts db @ [a] \<and> pg_text (acc_id a)"
  by (auto simp: sql_create_account_def split: if_splits)

definition fixture_accounts :: "fixture \<Rightarrow> account list" where
  "fixture_accounts xs = concat (map (\<lambda>(c, u, balances). map (\<lambda>(i, b). test_account c u i b) balances) xs)"

lemma fixture_accounts_simps [simp]:
  "fixture_accounts [] = []"
  "fixture_accounts ((c, u, balances) # xs) = map (\<lambda>(i, b). test_account c u i b) balances @ fixture_accounts xs"
  by (simp_all add: fixture_accounts_def)

lemma test_account_sel [simp]:
  "acc_id (test_account c u i b) = i" "acc_user_id (test_account c u i b) = u"
  "acc_currency (test_account c u i b) = ''PEN''" "acc_balance (test_account c u i b) = b"
  by (simp_all add: test_account_def)

lemma create_accounts_keeps:
  "create_accounts c u balances db = (db', r) \<Longrightarrow> extends db db' \<and> (seed_inv P db \<longrightarrow> seed_inv P db')"
proof (induction c u balances db rule: create_accounts.induct)
  case (2 c u i b balances db)
  then show ?case
    by (cases "exec c (StmtCreateAccount i) (sql_create_account db (test_account c u i b))")
      (auto dest!: create_account_inserts intro: insert_inv dest: insert_extends extends_trans)
qed simp

lemma create_accounts_complete:
  "create_accounts c u balances db = (db', None) \<Longrightarrow>
     db_accounts db' = db_accounts db @ map (\<lambda>(i, b). test_account c u i b) balances \<and>
     list_all (pg_text \<circ> fst) balances"
  by (induction c u balances db rule: create_accounts.induct)
    (auto split: sum.splits dest!: create_account_appends)

lemma CreateUser_cases:
  assumes "CreateUser P c u balances db = (db', r)"
  obtains (refused) e where "db' = db" "r = Some e"
  | (created) db0 where "sql_create_user P db (test_user u) = Inr db0" "create_accounts c u balances db0 = (db', r)"
  using assms by (auto simp: CreateUser_def split: sum.splits)

lemma CreateUser_keeps:
  assumes "CreateUser P c u balances db = (db', r)"
  shows "extends db db' \<and> (seed_inv P db \<longrightarrow> seed_inv P db')"
  using assms
proof (cases rule: CreateUser_cases)
  case (created db0)
  note up = create_user_upserts [OF created(1)]
  from create_accounts_keeps [OF created(2)] extends_trans [OF upsert_extends [OF up]] upsert_inv [OF _ up]
  show ?thesis by blast
qed simp

lemma CreateUser_complete:
  assumes "CreateUser P c u balances db = (db', None)"
  shows "db_accounts db' = db_accounts db @ map (\<lambda>(i, b). test_account c u i b) balances \<and>
    list_all (pg_text \<circ> fst) balances"
  using assms
  by (cases rule: CreateUser_cases) (auto dest!: create_accounts_complete create_user_accounts)

lemma create_users_keeps:
  "create_users P xs db = (db', r) \<Longrightarrow> extends db db' \<and> (seed_inv P db \<longrightarrow> seed_inv P db')"
proof (induction xs arbitrary: db)
  case (Cons x xs)
  obtain c u balances db0 r0 where x: "x = (c, u, balances)" "CreateUser P c u balances db = (db0, r0)"
    by (metis prod_cases3 surj_pair)
  note first = CreateUser_keeps [OF x(2)]
  show ?case
  proof (cases r0)
    case None
    with Cons.prems have rest: "create_users P xs db0 = (db', r)" by (simp add: x)
    from Cons.IH [OF rest] first show ?thesis using extends_trans [of db db0 db'] by blast
  next
    case (Some e)
    with Cons.prems first show ?thesis by (simp add: x)
  qed
qed simp

lemma create_users_complete:
  "create_users P xs db = (db', None) \<Longrightarrow>
     db_accounts db' = db_accounts db @ fixture_accounts xs \<and> list_all (pg_text \<circ> acc_id) (fixture_accounts xs)"
proof (induction xs arbitrary: db)
  case (Cons x xs)
  then obtain c u balances db0 where x: "x = (c, u, balances)" "CreateUser P c u balances db = (db0, None)"
    and rest: "create_users P xs db0 = (db', None)"
    by (auto split: prod.splits option.splits)
  from Cons.IH [OF rest] CreateUser_complete [OF x(2)] show ?case
    by (auto simp: x(1) list_all_iff)
qed simp

lemma pool_empties:
  "pgtest_Pool L c url n db = (db0, events, cleanup, Inr conns) \<Longrightarrow> db0 = sql_truncate db"
  by (auto simp: pgtest_Pool_def exec_def split: prod.splits sum.splits option.splits)

lemma truncated_inv: "seed_inv P (sql_truncate db)"
  by (simp add: seed_inv_def db_ok_def users_ok_def sql_truncate_def)

lemma account_row:
  "account_at db i = Some a \<Longrightarrow>
     first_row (map acc_balance (filter (\<lambda>a. acc_id a = i) (db_accounts db))) = Inr (acc_balance a)"
proof (induction "db_accounts db" arbitrary: db)
  case (Cons b bs)
  from Cons(1) [of "db\<lparr>db_accounts := bs\<rparr>"] Cons(2) [symmetric] Cons(3) show ?case
    by (auto simp: account_at_def first_row_def split: if_splits)
qed (simp add: account_at_def)

lemma fixture_sum:
  "db_accounts db = fixture_accounts xs \<Longrightarrow>
     currency_sum ''PEN'' db = (\<Sum>(c, u, balances) \<leftarrow> xs. \<Sum>(i, b) \<leftarrow> balances. sint b)"
proof (induction xs arbitrary: db)
  case Nil
  then show ?case by (simp add: currency_sum_def)
next
  case (Cons x xs)
  obtain c u balances where x: "x = (c, u, balances)" by (rule prod_cases3)
  let ?rest = "db\<lparr>db_accounts := fixture_accounts xs\<rparr>"
  have pen: "filter (\<lambda>a. acc_currency a = ''PEN'') (map (\<lambda>(i, b). test_account c u i b) balances) =
      map (\<lambda>(i, b). test_account c u i b) balances"
    by (simp add: filter_id_conv split_beta)
  have "currency_sum ''PEN'' db = (\<Sum>(i, b) \<leftarrow> balances. sint b) + currency_sum ''PEN'' ?rest"
    using Cons.prems
    by (simp add: currency_sum_def x pen comp_def case_prod_unfold)
  with Cons.IH [of ?rest] show ?case by (simp add: x)
qed

text \<open>
  The tests run on databases that the results about transfers speak of: however the
  statements that build a fixture fail, the database satisfies every constraint and its
  ledger matches its transfers; and when they succeed, each account belongs to its user and is
  read with its opening balance, and the tests cannot change the sum of these by transfers.
\<close>

lemma fixture_is_consistent:
  assumes "pg_documented P" and pool: "pgtest_Pool L c url n db = (db0, events, cleanup, Inr conns)"
    and users: "create_users P xs db0 = (db1, r)"
  shows "pg_inv P db1 \<and> users_ok P db1 \<and> ledger_matches db1 \<and> db_transfers db1 = [] \<and>
    (r = None \<longrightarrow>
      (\<forall>a \<in> set (fixture_accounts xs). account_at db1 (acc_id a) = Some a \<and>
         (\<forall>c'. call_fault c' StmtBalance = None \<longrightarrow> Balance c' db1 (acc_id a) = Inr (acc_balance a))) \<and>
      currency_sum ''PEN'' (run_calls P calls db1) = (\<Sum>(c, u, balances) \<leftarrow> xs. \<Sum>(i, b) \<leftarrow> balances. sint b))"
proof -
  note db0 = pool_empties [OF pool]
  from create_users_keeps [OF users] truncated_inv have inv: "seed_inv P db1" and ext: "extends db0 db1"
    by (auto simp: db0)
  then have pg: "pg_inv P db1" and empty: "db_transfers db1 = []" "db_ledger db1 = []"
    using assms(1) by (auto simp: seed_inv_def pg_inv_def extends_def db0 sql_truncate_def)
  have built: "db_accounts db1 = fixture_accounts xs" "list_all (pg_text \<circ> acc_id) (fixture_accounts xs)" if "r = None"
    using create_users_complete [of P xs db0 db1] users that by (simp_all add: db0 sql_truncate_def)
  have found: "account_at db1 (acc_id a) = Some a" if "r = None" "a \<in> set (fixture_accounts xs)" for a
    using pg built(1) that account_at_iff [of db1] by (simp add: pg_inv_def)
  have read: "Balance c' db1 (acc_id a) = Inr (acc_balance a)"
    if "r = None" "a \<in> set (fixture_accounts xs)" "call_fault c' StmtBalance = None" for a c'
    using found [OF that(1,2)] built(2) that
    by (simp add: Balance_def exec_no_fault list_all_iff account_row)
  show ?thesis
    using pg inv empty found read fixture_sum [OF built(1)] run_calls_currency_sum [OF pg]
    by (auto simp: seed_inv_def ledger_matches_def)
qed

definition sample_fixture :: fixture where
  "sample_fixture = [(sample_call 1, ''alice'', [(''a'', 100), (''c'', 7)]), (sample_call 2, ''bob'', [(''b'', 5)])]"

definition sample_pool :: pool_lib where
  "sample_pool = \<lparr>pl_ParseConfig = (\<lambda>_. Inr 4), pl_NewWithConfig = (\<lambda>_. None), pl_Ping = None\<rparr>"

lemma sample_fixture_consistent:
  "Balance (sample_call 3) (fst (create_users sample_pg sample_fixture (sql_truncate sample_paid))) ''c'' = Inr 7 \<and>
   currency_sum ''PEN'' (fst (create_users sample_pg sample_fixture (sql_truncate sample_paid))) = 112"
proof -
  let ?db = "sql_truncate sample_paid"
  have "TrimSpace ''postgres://test'' \<noteq> ''''" by code_simp
  then have pool: "pgtest_Pool sample_pool (sample_call 0) ''postgres://test'' 3 sample_paid =
      (?db, [PoolOpened], [PoolClosed], Inr 3)"
    by (simp add: pgtest_Pool_def NewPool_def sample_pool_def exec_def sample_call_def)
  have "snd (create_users sample_pg sample_fixture ?db) = None" by code_simp
  then obtain db1 where users: "create_users sample_pg sample_fixture ?db = (db1, None)"
    by (metis prod.collapse)
  note fixture = fixture_is_consistent [OF sample_documented pool users, of "[]"]
  have "test_account (sample_call 1) ''alice'' ''c'' 7 \<in> set (fixture_accounts sample_fixture)"
    by (simp add: sample_fixture_def)
  moreover have "call_fault (sample_call 3) StmtBalance = None" by (simp add: sample_call_def)
  ultimately have "Balance (sample_call 3) db1 ''c'' = Inr 7" using fixture by fastforce
  moreover have "currency_sum ''PEN'' db1 = 112" using fixture by (simp add: sample_fixture_def)
  ultimately show ?thesis by (simp add: users)
qed

subsection \<open>The life of the container\<close>

lemma fresh_database_migrates: "apply_scripts now Schema0 = (Schema5 (sql_truncate db), None)"
  by (simp add: apply_scripts.simps add_account_balances_up_def create_users_up_def sql_truncate_def Let_def)

text \<open>A container whose address is known ends up with the last schema and no rows.\<close>

lemma start_provides_schema:
  assumes "migrate_documented now M" and "migrate_reachable M url"
    and "ct_Run C image ''bank'' ''bank'' ''bank'' = None" and "ct_ConnectionString C ''sslmode=disable'' = Inr url"
  shows "pgtest_Start C M = ((False, Schema5 (sql_truncate db)), [ContainerStarted], Inr url)"
  using assms
  by (simp add: pgtest_Start_def Migrate_def migrate_documented_def migrate_reachable_def documented_up_def
      fresh_database_migrates [of now db])

text \<open>
  The container is terminated on every path, and the exit code is 0 only when the tests ran
  and passed.
\<close>

lemma container_is_stopped:
  "fst (pgtest_Main C M tests) \<in> {[], [ContainerStarted, ContainerTerminated]}"
  by (auto simp: pgtest_Main_def pgtest_Start_def Let_def split: prod.splits sum.splits option.splits)

lemma exit_code_of_tests:
  "snd (pgtest_Main C M tests) = 0 \<longleftrightarrow>
     (\<exists>v url. pgtest_Start C M = (v, [ContainerStarted], Inr url) \<and> tests url v = 0)"
  by (auto simp: pgtest_Main_def pgtest_Start_def Let_def split: prod.splits sum.splits option.splits)

text \<open>The pool of a test is closed when the test ends, also when emptying the tables fails.\<close>

lemma test_pool_is_closed:
  "case pgtest_Pool L c url n db of (_, events, cleanup, _) \<Rightarrow> events @ cleanup \<in> {[], [PoolOpened, PoolClosed]}"
  by (auto simp: pgtest_Pool_def split: prod.splits sum.splits dest!: NewPool_events)

end
