(* ===== verification/Spec2Isabelle.thy ===== *)
theory Spec2Isabelle
  imports Api_Results Response_Results Access_Results Startup_Results Migration_Results Domain_Results Test_Database
begin

text \<open>
  BankMonitoring is an HTTP service, written in Go, that moves money between accounts kept in
  PostgreSQL: users log in, list their accounts, and create transfers that are executed exactly
  once per idempotency key. This development models the whole program from the bytes of a
  request to the rows of the tables, and proves what its users and operators rely on.

  \<^bold>\<open>Parts of the program and the theories that model them\<close> (paths are relative to
  \<^verbatim>\<open>src/internal\<close>, unless they start with \<^verbatim>\<open>cmd\<close>)

  \<^item> \<open>Go_Base\<close>: Go errors (\<open>go_error\<close>, \<^verbatim>\<open>errors.Is\<close>, wrapping and joining), 64-bit integers as
    words, the string, slice and time functions that the code uses, UTF-8.
  \<^item> \<open>Entities\<close>, \<open>Json_Codec\<close>: \<^verbatim>\<open>domain/entities\<close> and \<^verbatim>\<open>domain/valueobjects\<close>: \<open>Debit\<close>, \<open>Credit\<close>,
    \<open>CreateTransfer_Validate\<close>, the data types, and the JSON form of a request.
  \<^item> \<open>Bank_Spec\<close>: the abstract bank: what a transfer may do, as an inductive step relation.
  \<^item> \<open>Contracts\<close>: \<^verbatim>\<open>domain/repository\<close>: one record of operations per Go interface, the repositories
    that a \<^verbatim>\<open>Tx\<close> hands to the function it runs, and the locales \<open>tx_manager_contract\<close> and
    \<open>tx_repositories\<close> with what the service may assume of them.
  \<^item> \<open>Transfer_Service\<close>: \<^verbatim>\<open>service/transfer/service.go\<close>: the service as a record of its
    dependencies, \<open>Create\<close> with its transaction body
    \<open>create_tx\<close>, and \<open>Transfer_Get\<close>; proofs over any backend in the locale \<open>transfer_backend\<close>.
  \<^item> \<open>Postgres\<close>: the tables with their constraints (\<^verbatim>\<open>repository/migrations\<close>) and every SQL
    statement; \<open>Repositories\<close>: the methods of \<^verbatim>\<open>repository/*.go\<close>, their constructors,
    \<open>Store_WithinTx\<close>, the invariant \<open>db_ok\<close>, and the interpretation of the contracts on these
    definitions.
  \<^item> \<open>Transfer_History\<close>, \<open>Transfer_Complete\<close>: sequences of calls, and the exact answer of a call.
    \<open>Documented\<close>: the answer that \<^verbatim>\<open>README.md\<close> and \<^verbatim>\<open>api/openapi.yaml\<close> promise, written down
    independently of the code, and where the code agrees with it.
  \<^item> \<open>Tx_Machine\<close>, \<open>Tx_Serial\<close>, \<open>Tx_Invariant\<close>, \<open>Tx_Progress\<close>: concurrent calls of \<open>Create\<close>,
    statement by statement under READ COMMITTED with row locks. \<open>Interleaving\<close> holds what is true
    of any processes that take turns on shared state, as the locales \<open>turn_taking\<close>, \<open>serialized\<close>
    and \<open>progressing\<close>; \<open>Tx_Progress\<close> interprets them on the transactions, and \<open>Server\<close> on the
    whole server, where requests of every kind are served at the same time.
  \<^item> \<open>Account_Service\<close>: \<^verbatim>\<open>service/account\<close>; \<open>Auth_Token\<close>, \<open>Auth_Login\<close>, \<open>Auth_Middleware\<close>:
    \<^verbatim>\<open>service/auth\<close>.
  \<^item> \<open>Json_Text\<close>, \<open>Http_Base\<close>, \<open>Http_Handlers\<close>, \<open>Http_Routes\<close>: the JSON decoder and \<^verbatim>\<open>httpapi\<close>:
    handlers, middlewares, the routing table and \<open>NewHandler\<close>. Handlers transform a \<open>world\<close>:
    the store, the response writer and the log. \<open>Responses\<close>: the bytes of the JSON bodies, and
    how a client in Go decodes them.
  \<^item> \<open>Migrations\<close>: \<^verbatim>\<open>repository/migrate.go\<close> and the scripts of \<^verbatim>\<open>repository/migrations\<close>, up and
    down, as functions between the six schemas.
  \<^item> \<open>Config\<close>, \<open>Seed\<close>: \<^verbatim>\<open>config\<close> and \<^verbatim>\<open>seed\<close>; \<open>Api\<close>, \<open>Startup\<close>: \<^verbatim>\<open>cmd/api\<close> and \<^verbatim>\<open>repository/pool.go\<close>:
    the wiring of the services, the logger, the server, the start, the end and the exit code of
    the process, and the health check.
  \<^item> \<open>Test_Database\<close>: \<^verbatim>\<open>testutil/pgtest\<close>: the container and the fixtures of the integration tests.
  \<^item> \<open>Sample\<close>, \<open>Sample_Access\<close>, \<open>Sample_Api\<close>: concrete instances of everything that is left
    open, on which the hypotheses of the results hold.

  \<^bold>\<open>How state and effects are modelled.\<close> The database \<open>db\<close> is a record of tables, each a list
  of rows. An operation takes the database and returns the new one and a result, which is
  \<open>Inl\<close> of the Go error or \<open>Inr\<close> of the value. What happens at the database during a call is
  the argument \<open>pg_call\<close>: the generated UUID, the time of the transaction, which statements
  fail with which message, and whether the commit succeeds, is refused, or takes effect
  without its answer arriving. All results quantify over it, so they hold for every pattern
  of failures. A function that runs in a transaction returns the store as it has written it
  also when it fails, and \<open>Store_WithinTx\<close> decides whether the caller sees it: this is the
  rollback. A panic of a handler is a value next to the world it leaves behind.

  \<^bold>\<open>Parameters.\<close> Code outside the repository is an argument of the definitions: \<open>pg\<close> (text form
  of UUIDs, collation, \<^verbatim>\<open>lower\<close>, JSONB), \<open>jwt\<close>, \<open>bcrypt\<close>, \<open>migrate_lib\<close>, \<open>pool_lib\<close>,
  \<open>container_lib\<close>, the HTTP server and client, and the rounding of fractional durations. What is
  relied on are named hypotheses: \<open>pg_documented\<close>, \<open>jwt_documented\<close>, \<open>bcrypt_documented\<close>,
  \<open>migrate_documented\<close>, \<open>collation_orders\<close>, \<open>uuid_text_utf8\<close> and \<open>time_documented\<close> (a time that is written as text is
  read back).

  \<^bold>\<open>What is shown.\<close>

  \<^item> Histories of calls (below): money is conserved, balances and ledger reconcile, a transfer is
    executed exactly once, retries replay, a lost answer is recovered, only owners pay; a call
    refines a step of the abstract bank and answers as documented, for storable texts, when no
    statement fails and outside two named cases (\<open>wide_description\<close>, \<open>crowded_retry\<close>).
  \<^item> Concurrency (\<open>Concurrency_Results\<close>): every interleaving is equivalent to the serial execution
    in the order of completion, calls that fail or are in progress have left nothing behind,
    there is no deadlock, and every call ends within eight statements. The argument is an invariant per transaction, that its statements so far would
    have the same results on the committed database as it is now, and an invariant between
    transactions, that locks and pending keys are disjoint.
  \<^item> The HTTP interface (\<open>Http_Results\<close>): decoding of bodies, protection of routes, one logged
    response per request, and the answer to \<^verbatim>\<open>POST /transfers\<close> over the whole stack. Both
    together (\<open>Api_Results\<close>): concurrent requests of any kind get the responses of a serial
    execution, and all of them are answered.
  \<^item> The client (\<open>Response_Results\<close>): the bytes of an answer decode to the transfer that is
    stored, and a retry gets the same bytes again.
  \<^item> Access (\<open>Access_Results\<close>): who can read which account, tokens and their lifetime, logins.
  \<^item> The process (\<open>Startup_Results\<close>): configuration, seeding, the life of the connection pool, the
    books over the whole life of a process on the last schema, and the exit code.
  \<^item> The schema (\<open>Migration_Results\<close>): the scripts are reversible and keep constraints and rows
    in all columns, and on which databases an upgrade succeeds.
  \<^item> The fixtures of the tests (\<open>Test_Database\<close>): the databases that they build are among those
    that the results above speak of.
  \<^item> Parts of a transfer (\<open>Domain_Results\<close>): 64-bit arithmetic, validation against the schema,
    the stored request, the order of locks, reading a transfer back.

  \<^bold>\<open>Bounds.\<close> All functions are total and no fuel is used. Amounts and balances are 64-bit
  words and UUIDs 128-bit words, with their wrap-around; time is an integer of nanoseconds;
  lengths and counters are natural numbers.

  \<^bold>\<open>Not modelled.\<close> The embedded OpenAPI document (a \<^verbatim>\<open>go:embed\<close> directive; its bytes are a
  parameter). A request whose time limit runs out is a statement fault in the model. Demo data
  is seeded before requests are served, so that no account appears while transfers run. The
  duration of a request, which Go computes in floating point for the log, is a parameter. Paths
  of requests are taken as cleaned: the redirect with which Go's \<^verbatim>\<open>ServeMux\<close> answers other ones is
  left out. The scripts of the migrations are functions on rows; constraints and indexes are
  properties of the schema, so that their names in the scripts back do not occur.

  \<^bold>\<open>Divergences found.\<close> A retry re-runs \<open>Credit\<close> on the current balances before its key is looked
  up and can answer an overflow (\<open>retry_can_answer_overflow\<close>); the length limit of descriptions
  counts bytes (\<open>validation_matches_schema\<close>); the log entry of a panic carries no request ID; a NUL character in a description
  is accepted by the validation and refused by the database; script 5 of the migrations cannot
  run on a database that has accounts (\<open>upgrade_needs_empty_tables\<close>); a request timeout above the
  fixed write timeout of the server is accepted.
\<close>

section \<open>Transfers: histories of calls\<close>

text \<open>
  C1. Whatever sequence of transfer requests is served, by whichever users, with statements
  failing and commits lost at will, the sum of the balances in each currency never changes.
\<close>

theorem money_conserved:
  assumes "pg_inv P db"
  shows "currency_sum cur (run_calls P calls db) = currency_sum cur db"
  using assms by (rule run_calls_currency_sum)

theorem money_conserved_witness:
  "sample_paid \<noteq> sample_db \<and> currency_sum ''PEN'' sample_paid = currency_sum ''PEN'' sample_db"
proof -
  have "sample_paid \<noteq> sample_db" by (simp add: sample_paid_def sample_db_def)
  then show ?thesis
    using money_conserved [OF sample_inv, of "''PEN''" sample_calls] by (simp add: sample_calls_run)
qed

text \<open>
  C2. Every balance is its opening balance plus the sum of the ledger entries written for the
  account since; owner, currency and identity of an account never change, and accounts are
  neither added nor removed.
\<close>

theorem ledger_reconciles:
  assumes "pg_inv P db"
  shows "case account_at db i of
      None \<Rightarrow> account_at (run_calls P calls db) i = None
    | Some a \<Rightarrow> (\<exists>a'. account_at (run_calls P calls db) i = Some a' \<and>
        acc_id a' = i \<and> acc_user_id a' = acc_user_id a \<and> acc_currency a' = acc_currency a \<and>
        sint (acc_balance a') =
          sint (acc_balance a) + (ledger_total i (run_calls P calls db) - ledger_total i db))"
proof (cases "account_at db i")
  case None
  then show ?thesis
    using bank_run_dom [OF run_calls_bank [OF assms, of calls]] by (auto simp: domIff set_eq_iff not_None_eq [symmetric] simp del: not_None_eq)
next
  case (Some a)
  with run_calls_account [OF assms Some, of calls] show ?thesis
    using account_at_id by fastforce
qed

theorem ledger_reconciles_witness:
  "\<exists>a'. account_at sample_paid ''b'' = Some a' \<and>
    sint (acc_balance a') = 5 + ledger_total ''b'' sample_paid"
proof -
  have "account_at sample_db ''b'' = Some (sample_account ''b'' ''bob'' ''PEN'' 5)"
    "ledger_total ''b'' sample_db = 0" by code_simp+
  then show ?thesis
    using ledger_reconciles [OF sample_inv, of sample_calls "''b''"]
    by (auto simp: sample_calls_run sample_account_def)
qed

text \<open>
  C3. Every transfer is executed exactly once: however many calls are served, each completed
  transfer has exactly one debit of its source and one credit of its destination in the
  ledger, every other transfer has none, no ledger row is without its transfer, and no user
  has two transfers under one idempotency key.
\<close>

theorem executed_exactly_once:
  assumes "pg_inv P db" and "ledger_matches db"
  shows "ledger_matches (run_calls P calls db) \<and>
    distinct (map row_key (db_transfers (run_calls P calls db)))"
  using run_calls_ledger_matches [OF assms, of calls] run_calls_inv [OF assms(1), of calls]
  by (simp add: pg_inv_def db_ok_def)

theorem executed_exactly_once_witness:
  "length (db_transfers sample_paid) = 1 \<and> ledger_matches sample_paid"
proof -
  have "ledger_matches sample_db" by code_simp
  moreover have "length (db_transfers sample_paid) = 1" by (simp add: sample_paid_def)
  ultimately show ?thesis
    using executed_exactly_once [OF sample_inv, of sample_calls] by (simp add: sample_calls_run)
qed

text \<open>
  C6. A retry under the same key, after any other calls, that is answered with a transfer is
  answered with the stored one: same transfer, not created again, nothing written; and the
  request was the same in every field.
\<close>

theorem retry_is_replay:
  assumes "pg_inv P db"
    and "service_Create P c u key r db = (db1, Inr (tr, created))"
    and "key_of P key' = key_of P key"
    and "service_Create P c' u key' r' (run_calls P calls db1) = (db2, Inr (tr', created'))"
  shows "db2 = run_calls P calls db1 \<and> tr' = tr \<and> \<not> created' \<and> r' = r"
proof -
  from service_stored [OF assms(1,2)] obtain k where k: "key_of P key = Some k"
    and at1: "transfer_at P db1 (u, k) = Some (tr, r)" by blast
  have inv1: "pg_inv P db1" using service_invar [OF assms(1), of c u key r] assms(2) by simp
  note at2 = run_calls_transfers [OF inv1 at1, of calls]
  from k assms(3) have k': "key_of P key' = Some k" by simp
  show ?thesis
    using service_same_key [OF run_calls_inv [OF inv1] k' at2 assms(4)] by blast
qed

theorem retry_is_replay_witness:
  "service_Create sample_pg (sample_call 8) ''alice'' ''042'' (sample_request ''a'' ''b'' 30) sample_paid
     = (sample_paid, Inr (sample_transfer, False))"
proof -
  have key: "key_of sample_pg ''042'' = key_of sample_pg ''42''" by code_simp
  then show ?thesis
    using retry_is_replay [OF sample_inv sample_pays key, of "sample_call 8"
        "sample_request ''a'' ''b'' 30" "[]" sample_paid sample_transfer False]
    by (simp add: sample_retries)
qed

text \<open>
  C7. When the commit took effect but its answer was lost, the client sees an error although
  its transfer is stored. The database then holds one transfer of the request under the
  key, and keeps it whatever calls follow. Every later retry that is answered, after any
  other calls, answers this transfer, does not create it again and writes nothing.
\<close>

theorem lost_answer_is_recovered:
  assumes "pg_inv P db" and "service_Create P c u key r db = (db1, Inl e)" and "db1 \<noteq> db"
  shows "\<exists>k tr. key_of P key = Some k \<and>
    transfer_at P db (u, k) = None \<and> transfer_at P db1 (u, k) = Some (tr, r) \<and>
    records r (tr_status tr) (tr_failure_reason tr) tr \<and>
    (\<forall>calls. transfer_at P (run_calls P calls db1) (u, k) = Some (tr, r)) \<and>
    (\<forall>calls c' db2 tr' created'.
      service_Create P c' u key r (run_calls P calls db1) = (db2, Inr (tr', created')) \<longrightarrow>
      db2 = run_calls P calls db1 \<and> tr' = tr \<and> \<not> created')"
proof -
  from service_lost_answer [OF assms] obtain k tr where k: "key_of P key = Some k"
    and at1: "transfer_at P db1 (u, k) = Some (tr, r)" by blast
  have inv1: "pg_inv P db1" using service_invar [OF assms(1), of c u key r] assms(2) by simp
  have new: "transfer_at P db (u, k) = None"
    using service_same_key(1) [OF assms(1) k _ assms(2)] assms(3) by (cases "transfer_at P db (u, k)") auto
  have "records r (tr_status tr) (tr_failure_reason tr) tr"
    using at1 inv1 by (auto simp: transfer_at_Some pg_inv_def records_def transfer_of_row_def request_of_row_def)
  moreover have "db2 = run_calls P calls db1 \<and> tr' = tr \<and> \<not> created'"
    if "service_Create P c' u key r (run_calls P calls db1) = (db2, Inr (tr', created'))"
    for calls c' db2 tr' created'
    using service_same_key [OF run_calls_inv [OF inv1] k run_calls_transfers [OF inv1 at1] that] by blast
  ultimately show ?thesis using k new at1 run_calls_transfers [OF inv1 at1] by blast
qed

theorem lost_answer_is_recovered_witness:
  "\<exists>k tr. transfer_at sample_pg sample_paid (''alice'', k) = Some (tr, sample_request ''a'' ''b'' 30) \<and>
    tr_amount tr = 30 \<and> (\<forall>c' db2 tr' created'.
    service_Create sample_pg c' ''alice'' ''42'' (sample_request ''a'' ''b'' 30) sample_paid
      = (db2, Inr (tr', created')) \<longrightarrow> db2 = sample_paid \<and> tr' = tr \<and> \<not> created')"
proof -
  have "sample_paid \<noteq> sample_db" by (simp add: sample_paid_def sample_db_def)
  from lost_answer_is_recovered [OF sample_inv sample_loses_answer this] obtain k tr where
    at: "transfer_at sample_pg sample_paid (''alice'', k) = Some (tr, sample_request ''a'' ''b'' 30)"
    and rec: "records (sample_request ''a'' ''b'' 30) (tr_status tr) (tr_failure_reason tr) tr"
    and again: "\<forall>c' db2 tr' created'.
      service_Create sample_pg c' ''alice'' ''42'' (sample_request ''a'' ''b'' 30) (run_calls sample_pg [] sample_paid)
        = (db2, Inr (tr', created')) \<longrightarrow> db2 = run_calls sample_pg [] sample_paid \<and> tr' = tr \<and> \<not> created'"
    by blast
  have "tr_amount tr = 30" using rec by (simp add: records_def sample_request_def)
  with at again [unfolded run_calls.simps] show ?thesis by blast
qed

section \<open>Transfers: one call\<close>



text \<open>
  C9. A newly completed transfer moves exactly its amount from the source to the destination
  without overflow, the source keeps a non-negative balance, no other account is touched, and
  exactly the balanced pair of ledger entries, with the new balances, is appended.
\<close>

theorem completed_moves_exactly:
  assumes "pg_inv P db" and "service_Create P c u key r db = (db', Inr (tr, True))"
    and "tr_status tr = TransferStatusCompleted"
  shows "\<exists>src dst src' dst'.
    account_at db (req_from_account_id r) = Some src \<and> account_at db (req_to_account_id r) = Some dst \<and>
    account_at db' (req_from_account_id r) = Some src' \<and> account_at db' (req_to_account_id r) = Some dst' \<and>
    acc_user_id src = u \<and> 0 < sint (req_amount r) \<and>
    sint (acc_balance src') = sint (acc_balance src) - sint (req_amount r) \<and> 0 \<le> sint (acc_balance src') \<and>
    sint (acc_balance dst') = sint (acc_balance dst) + sint (req_amount r) \<and>
    (\<forall>i. i \<noteq> req_from_account_id r \<and> i \<noteq> req_to_account_id r \<longrightarrow> account_at db' i = account_at db i) \<and>
    map (entry_of_row P) (db_ledger db') =
      map (entry_of_row P) (db_ledger db) @ ledger_pair r tr src' dst'"
  using service_created [OF assms(1,2)]
proof (elim disjE exE conjE)
  fix src dst src' dst' t
  assume adm: "admissible u r (db_bank P db) src dst"
    and money: "Debit src (req_amount r) = Inr src'" "Credit dst (req_amount r) = Inr dst'"
    and accs: "account_at db' = (account_at db)(req_from_account_id r \<mapsto> src'\<lparr>acc_updated_at := t\<rparr>,
        req_to_account_id r \<mapsto> dst'\<lparr>acc_updated_at := t\<rparr>)"
    and led: "bk_ledger (db_bank P db') = bk_ledger (db_bank P db) @ ledger_pair r tr src' dst'"
  show ?thesis
    using adm moved_balances [OF money] led
    by (intro exI [of _ src] exI [of _ dst] exI [of _ "src'\<lparr>acc_updated_at := t\<rparr>"]
        exI [of _ "dst'\<lparr>acc_updated_at := t\<rparr>"])
      (auto simp: admissible_def valid_request_def accs ledger_pair_def)
qed (use assms(3) in \<open>simp add: records_def\<close>)

theorem completed_moves_exactly_witness:
  "\<exists>dst'. account_at sample_paid ''b'' = Some dst' \<and> sint (acc_balance dst') = 5 + 30"
proof -
  have "account_at sample_db ''b'' = Some (sample_account ''b'' ''bob'' ''PEN'' 5)" by code_simp
  then show ?thesis
    using completed_moves_exactly [OF sample_inv sample_pays sample_transfer_status]
    by (auto simp: sample_request_def sample_account_def)
qed

text \<open>
  C11. Only the owner of an account can take money from it: if a call, however it ends, leaves
  an account with less than before, then the caller owns the account, it is the source of the
  request, and exactly the requested amount is gone.
\<close>

theorem only_owner_debits:
  assumes "pg_inv P db" and "service_Create P c u key r db = (db', res)"
    and "account_at db i = Some a" and "account_at db' i = Some a'"
    and "sint (acc_balance a') < sint (acc_balance a)"
  shows "acc_user_id a = u \<and> i = req_from_account_id r \<and>
    sint (acc_balance a') = sint (acc_balance a) - sint (req_amount r)"
  using assms by (rule service_debits)

theorem only_owner_debits_witness:
  "\<exists>a. account_at sample_db ''a'' = Some a \<and> acc_user_id a = ''alice''"
proof -
  have a: "account_at sample_db ''a'' = Some (sample_account ''a'' ''alice'' ''PEN'' 100)"
    "account_at sample_paid ''a'' = Some ((sample_account ''a'' ''alice'' ''PEN'' 70)\<lparr>acc_updated_at := 1\<rparr>)"
    by code_simp+
  with only_owner_debits [OF sample_inv sample_pays a] show ?thesis
    by (simp add: sample_account_def)
qed

text \<open>
  A caller cannot find out whether an account exists by naming it as the source: an
  unknown source and a source owned by somebody else get the same answer, whatever the other
  fields and the destination are, and nothing is written.
\<close>

lemma foreign_source_is_forbidden:
  assumes "db_ok db" and "healthy c" and "valid_request r" and "TrimSpace u \<noteq> ''''"
    and "pg_text (req_from_account_id r)" and "pg_text (req_to_account_id r)"
    and "case account_at db (req_from_account_id r) of None \<Rightarrow> True | Some a \<Rightarrow> acc_user_id a \<noteq> u"
  shows "service_Create P c u key r db = (db, Inl (Wrapped ''create transfer'' ErrForbidden))"
proof -
  obtain m where "LockForTransfer P c db [req_from_account_id r, req_to_account_id r] = Inr m"
    and "m (req_from_account_id r) = account_at db (req_from_account_id r)"
    using LockForTransfer_ok [OF assms(1,2,5,6)] by metis
  then have "create_tx (txRepositories P c) u key r db = (db, Inl ErrForbidden)"
    using assms(7) by (auto simp: create_tx_def txRepositories_def split: option.splits)
  then show ?thesis
    using assms(2,3,4)
    by (simp add: service_Create_def Create_def Validate_Inr_iff [THEN iffD2] NewStore_def Store_WithinTx_def)
qed

text \<open>
  C12. The invariant of the database is kept by every history of calls: balances stay
  non-negative, account and transfer identifiers and idempotency keys stay unique, and the
  stored original request of every transfer still decodes to the columns of its row.
\<close>

theorem database_invariant:
  assumes "pg_inv P db"
  shows "pg_inv P (run_calls P calls db) \<and>
    (\<forall>a \<in> set (db_accounts (run_calls P calls db)). 0 \<le> sint (acc_balance a))"
  using run_calls_inv [OF assms, of calls]
  by (auto simp: pg_inv_def db_ok_def list_all_iff accounts_check_def)

theorem database_invariant_witness:
  "list_all (\<lambda>a. 0 \<le> sint (acc_balance a)) (db_accounts sample_paid)"
  using database_invariant [OF sample_inv, of sample_calls] by (simp add: sample_calls_run list_all_iff)

text \<open>
  C13. Refinement: one call on PostgreSQL is one step of the abstract bank under the
  abstraction \<open>db_bank\<close>, or leaves the database alone with an error; a successful call answers
  exactly the outcome of the step.
\<close>

theorem create_refines_bank:
  assumes "pg_inv P db" and "service_Create P c u key r db = (db', res)"
  shows "(db' = db \<and> isl res) \<or>
    (\<exists>k oc. key_of P key = Some k \<and> bank_step u k r (db_bank P db) oc (db_bank P db') \<and>
      (isl res \<or> res = Inr (outcome_transfer oc, outcome_created oc)))"
  using service_refines [OF assms] by auto

theorem create_refines_bank_witness:
  "\<exists>k oc. bank_step ''alice'' k (sample_request ''a'' ''b'' 30) (db_bank sample_pg sample_db) oc
     (db_bank sample_pg sample_paid)"
  using create_refines_bank [OF sample_inv sample_pays] by auto

text \<open>
  C14. A key that was used with another request is refused with a conflict and nothing is
  written, provided the new request passes the checks that come before the key is looked at
  (ownership, destination, currency, and room on the destination).
\<close>

theorem reused_key_conflicts:
  assumes "pg_inv P db" and "healthy c" and "fresh_draw c db" and "texts_ok u r"
    and "TrimSpace u \<noteq> ''''" and "admissible u r (db_bank P db) src dst"
    and "sint (acc_balance dst) + sint (req_amount r) \<le> 2 ^ 63 - 1"
    and "key_of P key = Some k" and "transfer_at P db (u, k) = Some (tr, r0)" and "r0 \<noteq> r"
  shows "service_Create P c u key r db = (db, Inl (Wrapped ''create transfer'' ErrIdempotencyConflict))"
proof -
  have "code_answer P u key r (db_bank P db) = Inl (Wrapped ''create transfer'' ErrIdempotencyConflict)"
    using assms(5-10)
    by (auto simp: code_answer_def code_answer_tx_def admissible_def Validate_Inr_iff [THEN iffD2] key_of_Some)
  with service_answers [OF assms(1-4), of key] show ?thesis by simp
qed

theorem reused_key_conflicts_witness:
  "service_Create sample_pg (sample_call 8) ''alice'' ''42'' (sample_request ''a'' ''b'' 31) sample_paid
     = (sample_paid, Inl (Wrapped ''create transfer'' ErrIdempotencyConflict))"
proof -
  let ?r = "sample_request ''a'' ''b'' 31"
  have t: "texts_ok ''alice'' ?r" "TrimSpace ''alice'' \<noteq> ''''"
    and adm: "admissible ''alice'' ?r (db_bank sample_pg sample_paid)
      (the (account_at sample_paid ''a'')) (the (account_at sample_paid ''b''))"
    and room: "sint (acc_balance (the (account_at sample_paid ''b''))) + sint (req_amount ?r) \<le> 2 ^ 63 - 1"
    and k: "key_of sample_pg ''42'' = Some 42"
    and stored: "transfer_at sample_pg sample_paid (''alice'', 42) =
      Some (sample_transfer, sample_request ''a'' ''b'' 30)"
    and ne: "sample_request ''a'' ''b'' 30 \<noteq> ?r"
    by code_simp+
  have "fresh_draw (sample_call 8) sample_paid"
    by (simp add: fresh_draw_def sample_call_def sample_paid_def sample_row_def)
  from reused_key_conflicts [OF sample_paid_inv sample_healthy this t adm room k stored ne] show ?thesis .
qed

text \<open>
  C15. Replays are not unconditional. Whatever request was answered with a transfer, and
  whatever was served since: if the source could pay the amount once more and the destination
  has no room for it, the retry, which is documented to return the stored transfer, is
  answered with a balance overflow, because the money is counted again before the key is
  looked up.
\<close>

theorem retry_can_answer_overflow:
  assumes inv: "pg_inv P db" and first: "service_Create P c u key r db = (db1, Inr (tr, created))"
    and db2: "db2 = run_calls P calls db1" and key': "key_of P key' = key_of P key"
    and run: "healthy c'" "fresh_draw c' db2" "texts_ok u r"
    and src: "account_at db2 (req_from_account_id r) = Some src" "sint (req_amount r) \<le> sint (acc_balance src)"
    and dst: "account_at db2 (req_to_account_id r) = Some dst"
      "2 ^ 63 - 1 < sint (acc_balance dst) + sint (req_amount r)"
  shows "(\<exists>k. key_of P key = Some k \<and>
      documented_answer u k r (db_bank P db2) = Inr (tr_status tr, False)) \<and>
    service_Create P c' u key' r db2 = (db2, Inl (Wrapped ''create transfer'' ErrBalanceOverflow))"
proof -
  from service_stored [OF inv first] obtain k where k: "key_of P key = Some k"
    and at1: "transfer_at P db1 (u, k) = Some (tr, r)" by blast
  have inv1: "pg_inv P db1" using service_invar [OF inv, of c u key r] first by simp
  have at2: "transfer_at P db2 (u, k) = Some (tr, r)" unfolding db2 by (rule run_calls_transfers [OF inv1 at1])
  have u: "TrimSpace u \<noteq> ''''" using first by (auto simp: service_Create_def Create_def)
  from service_admissible [OF inv first, of calls] src(1) dst(1)
  have adm: "admissible u r (db_bank P db2) src dst" unfolding db2 by (auto simp: admissible_def)
  then have valid: "valid_request r" by (simp add: admissible_def)
  then have doc: "documented_answer u k r (db_bank P db2) = Inr (tr_status tr, False)"
    using adm at2 u by (simp add: documented_answer_def admissible_def valid_documented)
  have "code_answer P u key' r (db_bank P db2) = Inl (Wrapped ''create transfer'' ErrBalanceOverflow)"
    using adm u src(2) dst(2) Validate_Inr_iff [THEN iffD2, OF valid]
    by (simp add: code_answer_def code_answer_tx_def admissible_def)
  moreover have "pg_inv P db2" unfolding db2 by (rule run_calls_inv [OF inv1])
  ultimately show ?thesis using service_answers [OF _ run, of P key'] k doc by simp
qed

theorem retry_can_answer_overflow_witness:
  "\<exists>db1 tr. service_Create sample_pg (sample_call 7) ''alice'' ''42'' (sample_request ''a'' ''c'' 30) sample_db
      = (db1, Inr (tr, True)) \<and> tr_status tr = TransferStatusCompleted \<and>
    service_Create sample_pg (sample_call 8) ''alice'' ''42'' (sample_request ''a'' ''c'' 30) db1
      = (db1, Inl (Wrapped ''create transfer'' ErrBalanceOverflow))"
proof -
  let ?r = "sample_request ''a'' ''c'' 30"
  let ?first = "service_Create sample_pg (sample_call 7) ''alice'' ''42'' ?r sample_db"
  have "case ?first of (db1, Inr (tr, created)) \<Rightarrow>
      created \<and> tr_status tr = TransferStatusCompleted \<and> map tw_id (db_transfers db1) = [7] \<and>
      (case (account_at db1 ''a'', account_at db1 ''c'') of (Some src, Some dst) \<Rightarrow>
         30 \<le> sint (acc_balance src) \<and> 2 ^ 63 - 1 < sint (acc_balance dst) + 30 | _ \<Rightarrow> False) | _ \<Rightarrow> False"
    by code_simp
  then obtain db1 tr src dst where first: "?first = (db1, Inr (tr, True))" "tr_status tr = TransferStatusCompleted"
    and ids: "map tw_id (db_transfers db1) = [7]"
    and accs: "account_at db1 ''a'' = Some src" "account_at db1 ''c'' = Some dst"
      "30 \<le> sint (acc_balance src)" "2 ^ 63 - 1 < sint (acc_balance dst) + 30"
    by (auto split: prod.splits sum.splits option.splits)
  have t: "texts_ok ''alice'' ?r" and r: "req_from_account_id ?r = ''a''" "req_to_account_id ?r = ''c''"
    "sint (req_amount ?r) = 30" by code_simp+
  have "call_uuid (sample_call 8) \<notin> set (map tw_id (db_transfers db1))" unfolding ids by (simp add: sample_call_def)
  then have fresh: "fresh_draw (sample_call 8) db1" by (simp add: fresh_draw_def)
  have same: "db1 = run_calls sample_pg [] db1" by simp
  from retry_can_answer_overflow [OF sample_inv first(1) same refl sample_healthy fresh t, unfolded r,
      OF accs(1,3,2,4)] first
  show ?thesis by auto
qed

end
